(* ===== verification/Stb_Prelude.thy ===== *)
theory Stb_Prelude
  imports Main "HOL-Library.Word" "HOL-Library.Monad_Syntax"
begin

text \<open>
  Shared vocabulary of the development: the C integer types, character arrays with the string
  functions the sources use on them (\<open>strncpy\<close>, \<open>snprintf\<close>, \<open>%s\<close>, \<open>%u\<close>, \<open>atoi\<close>), checked
  reads from byte buffers, little- and big-endian loads, and the linear search that every table
  of the program is built on.  Undefined behaviour of C is the value \<open>None\<close> of an option type,
  a NULL pointer is the value \<open>None\<close> of a pointer type.

  The collections \<open>cbuf_simps\<close> (character arrays), \<open>wf_rules\<close> (well-formedness of the records)
  and \<open>endian_simps\<close> (loads) carry the component proofs.
\<close>

unbundle bit_operations_syntax

section \<open>Types\<close>

type_synonym u8 = "8 word"
type_synonym u16 = "16 word"
type_synonym u32 = "32 word"
type_synonym u64 = "64 word"
type_synonym byte = "8 word"
type_synonym cbuf = "char list"
type_synonym 'a ub = "'a option"
type_synonym 'a ptr = "'a option"

named_theorems cbuf_simps \<open>character arrays and the C string functions on them\<close>
named_theorems wf_rules \<open>well-formedness of the records of the program\<close>
named_theorems endian_simps \<open>multi-byte loads and byte swaps\<close>

abbreviation "INT_MAX \<equiv> (2147483647 :: int)"
abbreviation "INT_MIN \<equiv> (- 2147483648 :: int)"

section \<open>Byte buffers\<close>

text \<open>A read \<open>p[i]\<close> is defined inside the buffer only; \<open>memcpy\<close> of a struct reads a whole range.\<close>

definition rd :: "byte list \<Rightarrow> nat \<Rightarrow> byte ub" where
  "rd p i = (if i < length p then Some (p ! i) else None)"

definition rd_bytes :: "byte list \<Rightarrow> nat \<Rightarrow> nat \<Rightarrow> byte list ub" where
  "rd_bytes p off n = (if off + n \<le> length p then Some (take n (drop off p)) else None)"

text \<open>The target (ARMv7, Android) is little-endian: the first byte in memory is the low one.\<close>

definition le16 :: "byte \<Rightarrow> byte \<Rightarrow> u16" where
  "le16 b0 b1 = ucast b0 OR push_bit 8 (ucast b1)"

definition be16 :: "byte \<Rightarrow> byte \<Rightarrow> u16" where
  "be16 b0 b1 = push_bit 8 (ucast b0) OR ucast b1"

definition le32 :: "byte \<Rightarrow> byte \<Rightarrow> byte \<Rightarrow> byte \<Rightarrow> u32" where
  "le32 b0 b1 b2 b3 =
     ucast b0 OR push_bit 8 (ucast b1) OR push_bit 16 (ucast b2) OR push_bit 24 (ucast b3)"

definition be32 :: "byte \<Rightarrow> byte \<Rightarrow> byte \<Rightarrow> byte \<Rightarrow> u32" where
  "be32 b0 b1 b2 b3 =
     push_bit 24 (ucast b0) OR push_bit 16 (ucast b1) OR push_bit 8 (ucast b2) OR ucast b3"

definition ntohs :: "u16 \<Rightarrow> u16" where
  "ntohs x = push_bit 8 x OR drop_bit 8 x"

definition ld16 :: "byte list \<Rightarrow> nat \<Rightarrow> u16" where
  "ld16 h i = le16 (h ! i) (h ! (i + 1))"

definition ld32 :: "byte list \<Rightarrow> nat \<Rightarrow> u32" where
  "ld32 h i = le32 (h ! i) (h ! (i + 1)) (h ! (i + 2)) (h ! (i + 3))"

section \<open>Character arrays\<close>

abbreviation (input) NUL :: char where "NUL \<equiv> CHR 0x00"

definition zbuf :: "nat \<Rightarrow> cbuf" where
  "zbuf n = replicate n NUL"

definition cstr :: "cbuf \<Rightarrow> string" where
  "cstr b = takeWhile (\<lambda>c. c \<noteq> NUL) b"

text \<open>\<open>strncpy(d, s, n)\<close> copies at most \<open>n\<close> characters and fills the rest of the \<open>n\<close> with NUL.\<close>

definition strncpy :: "cbuf \<Rightarrow> string \<Rightarrow> nat \<Rightarrow> cbuf" where
  "strncpy d s n = take n s @ replicate (n - length s) NUL @ drop n d"

text \<open>Reading an array as a string, as \<open>%s\<close> does, is defined only if it has a terminator.\<close>

definition c_string :: "cbuf \<Rightarrow> string ub" where
  "c_string b = (if NUL \<in> set b then Some (cstr b) else None)"

text \<open>The idiom of the sources, \<open>strncpy(f, s, sizeof(f) - 1)\<close>.\<close>

definition set_field :: "cbuf \<Rightarrow> string \<Rightarrow> cbuf" where
  "set_field d s = strncpy d s (length d - 1)"

text \<open>\<open>snprintf(d, n, ...)\<close> whose full text is \<open>s\<close>: at most \<open>n - 1\<close> characters and a NUL.\<close>

definition snprintf :: "cbuf \<Rightarrow> nat \<Rightarrow> string \<Rightarrow> cbuf" where
  "snprintf d n s =
     (if n = 0 then d else take (n - 1) s @ NUL # drop (Suc (min (n - 1) (length s))) d)"

definition print_field :: "cbuf \<Rightarrow> string \<Rightarrow> cbuf" where
  "print_field d s = snprintf d (length d) s"

definition wf_cbuf :: "nat \<Rightarrow> cbuf \<Rightarrow> bool" where
  "wf_cbuf n b \<longleftrightarrow> 0 < n \<and> length b = n \<and> last b = NUL"

section \<open>Decimal numbers\<close>

definition digit_char :: "nat \<Rightarrow> char" where
  "digit_char d = ''0123456789'' ! d"

fun show_nat :: "nat \<Rightarrow> string" where
  "show_nat n = (if n < 10 then [digit_char n] else show_nat (n div 10) @ [digit_char (n mod 10)])"

declare show_nat.simps [simp del]

definition show_int :: "int \<Rightarrow> string" where
  "show_int i = (if i < 0 then CHR ''-'' # show_nat (nat (- i)) else show_nat (nat i))"

definition show_word :: "'a::len word \<Rightarrow> string" where
  "show_word w = show_nat (unat w)"

text \<open>Increment of a C \<open>int\<close>; beyond \<open>INT_MAX\<close> it is undefined.\<close>

definition inc_int :: "int \<Rightarrow> int ub" where
  "inc_int n = (if n < INT_MAX then Some (n + 1) else None)"

section \<open>Linear search\<close>

fun find_idx :: "('a \<Rightarrow> bool) \<Rightarrow> 'a list \<Rightarrow> nat option" where
  "find_idx P [] = None"
| "find_idx P (x # xs) = (if P x then Some 0 else map_option Suc (find_idx P xs))"

section \<open>Lemmas on buffers and loads\<close>

lemma rd_Some [simp]: "i < length p \<Longrightarrow> rd p i = Some (p ! i)"
  by (simp add: rd_def)

lemma rd_None_iff: "rd p i = None \<longleftrightarrow> length p \<le> i"
  by (auto simp: rd_def)

lemma rd_bytes_Some [simp]: "off + n \<le> length p \<Longrightarrow> rd_bytes p off n = Some (take n (drop off p))"
  by (simp add: rd_bytes_def)

lemma nth_field: "off + i < length p \<Longrightarrow> i < n \<Longrightarrow> take n (drop off p) ! i = p ! (off + i)"
  by simp

lemma bit_byteD: "bit (b :: byte) n \<Longrightarrow> n < 8"
  by (drule bit_imp_le_length) simp

lemma bit_byte_ge [simp]: "8 \<le> n \<Longrightarrow> \<not> bit (b :: byte) n"
  by (auto dest: bit_byteD)

lemma ntohs_le16 [endian_simps]: "ntohs (le16 b0 b1) = be16 b0 b1"
  unfolding ntohs_def le16_def be16_def
  by (rule bit_word_eqI) (auto simp: bit_simps dest: bit_byteD)

lemma unat_byte_less: "unat (b :: byte) < 256"
  using unsigned_less [of b] by simp

lemma unat_ucast_byte [simp]:
  "unat (ucast (b :: byte) :: u16) = unat b" "unat (ucast (b :: byte) :: u32) = unat b"
  using unat_byte_less [of b]
  by (simp_all add: unsigned_ucast_eq take_bit_nat_eq_self)

lemma unat_u16_less: "unat (x :: u16) < 65536"
  using unsigned_less [of x] by simp

lemma unat_ucast_u16 [simp]: "unat (ucast (x :: u16) :: u64) = unat x"
  using unat_u16_less [of x] by (simp add: unsigned_ucast_eq take_bit_nat_eq_self)

lemma unat_be16: "unat (be16 b0 b1) = 256 * unat b0 + unat b1"
proof -
  have "push_bit 8 (ucast b0 :: u16) AND ucast b1 = 0"
    by (rule bit_word_eqI) (auto simp: bit_simps dest: bit_byteD)
  then have "be16 b0 b1 = push_bit 8 (ucast b0) + ucast b1"
    unfolding be16_def using word_plus_and_or [of "push_bit 8 (ucast b0 :: u16)" "ucast b1"] by simp
  moreover have "unat (push_bit 8 (ucast b0 :: u16)) = 256 * unat b0"
    using unat_byte_less [of b0] by (simp add: push_bit_eq_mult unat_word_ariths)
  ultimately show ?thesis
    using unat_byte_less [of b0] unat_byte_less [of b1] by (simp add: unat_word_ariths)
qed

section \<open>Lemmas on character arrays\<close>

lemma wf_cbufE:
  assumes "wf_cbuf n b"
  obtains d where "b = d @ [NUL]" "length d = n - 1" "0 < n"
  using assms by (cases b rule: rev_cases) (auto simp: wf_cbuf_def)

lemma wf_zbuf [wf_rules, simp]: "0 < n \<Longrightarrow> wf_cbuf n (zbuf n)"
  by (simp add: wf_cbuf_def zbuf_def last_replicate)

lemma length_zbuf [simp]: "length (zbuf n) = n"
  by (simp add: zbuf_def)

lemma length_set_field [simp]: "length (set_field d s) = length d"
  by (auto simp: set_field_def strncpy_def)

lemma length_print_field [simp]: "d \<noteq> [] \<Longrightarrow> length (print_field d s) = length d"
  by (cases d) (simp_all add: print_field_def snprintf_def min_def)

lemma wf_set_field [wf_rules, simp]: "wf_cbuf n d \<Longrightarrow> wf_cbuf n (set_field d s)"
  by (erule wf_cbufE) (auto simp: wf_cbuf_def set_field_def strncpy_def)

lemma wf_print_field [wf_rules, simp]: "wf_cbuf n d \<Longrightarrow> wf_cbuf n (print_field d s)"
  by (erule wf_cbufE) (auto simp: wf_cbuf_def print_field_def snprintf_def)

lemma takeWhile_stop:
  "x \<notin> set s \<Longrightarrow> takeWhile (\<lambda>c. c \<noteq> x) (take k s @ x # r) = take k s"
  by (subst takeWhile_append2) (auto dest: in_set_takeD)

lemma cstr_set_field [cbuf_simps]:
  assumes "wf_cbuf n d" "NUL \<notin> set s"
  shows "cstr (set_field d s) = take (n - 1) s"
proof -
  from assms(1) obtain e where d: "d = e @ [NUL]" "length e = n - 1"
    by (rule wf_cbufE)
  then have "set_field d s = take (n - 1) s @ NUL # replicate (n - 1 - length s) NUL"
    by (simp add: set_field_def strncpy_def replicate_app_Cons_same)
  then show ?thesis
    using assms(2) by (simp add: cstr_def takeWhile_stop)
qed

lemma cstr_print_field [cbuf_simps]:
  assumes "wf_cbuf n d" "NUL \<notin> set s"
  shows "cstr (print_field d s) = take (n - 1) s"
  using assms by (auto simp: cstr_def print_field_def snprintf_def takeWhile_stop wf_cbuf_def)

lemma cstr_set_label [cbuf_simps, simp]:
  "NUL \<notin> set s \<Longrightarrow> length s < n \<Longrightarrow> cstr (set_field (zbuf n) s) = s"
  by (subst cstr_set_field [of n]) simp_all

lemma cstr_zbuf [cbuf_simps, simp]: "cstr (zbuf n) = []"
  by (cases n) (simp_all add: cstr_def zbuf_def)

lemma NUL_notin_cstr [simp]: "NUL \<notin> set (cstr b)"
  by (auto simp: cstr_def dest: set_takeWhileD)

lemma c_string_wf: "wf_cbuf n b \<Longrightarrow> c_string b = Some (cstr b)"
  unfolding c_string_def wf_cbuf_def using last_in_set [of b] by auto

lemma length_cstr_less: "wf_cbuf n b \<Longrightarrow> length (cstr b) < n"
proof (erule wf_cbufE)
  fix d assume d: "b = d @ [NUL]" "length d = n - 1" "0 < n"
  have "length (cstr b) \<le> length d"
    by (simp add: d(1) cstr_def takeWhile_append length_takeWhile_le)
  then show ?thesis using d by simp
qed

section \<open>Lemmas on decimal numbers\<close>

fun dec_val :: "string \<Rightarrow> nat \<Rightarrow> nat" where
  "dec_val [] acc = acc"
| "dec_val (c # cs) acc = dec_val cs (10 * acc + (of_char c - 48))"

definition is_digit :: "char \<Rightarrow> bool" where
  "is_digit c \<longleftrightarrow> c \<in> set ''0123456789''"

lemma digit_cases: "(d::nat) < 10 \<Longrightarrow> d \<in> {0, 1, 2, 3, 4, 5, 6, 7, 8, 9}"
  by auto

lemma digit_char_digit [simp]: "d < 10 \<Longrightarrow> is_digit (digit_char d)"
  by (drule digit_cases) (auto simp: digit_char_def is_digit_def)

lemma digit_char_val [simp]: "d < 10 \<Longrightarrow> of_char (digit_char d) = 48 + d"
  by (drule digit_cases) (auto simp: digit_char_def)

lemma dec_val_append: "dec_val (xs @ ys) a = dec_val ys (dec_val xs a)"
  by (induction xs arbitrary: a) auto

lemma show_nat_digits: "list_all is_digit (show_nat n)"
proof (induction n rule: show_nat.induct)
  case (1 n)
  then show ?case by (cases "n < 10") (auto simp: show_nat.simps [of n])
qed

lemma show_nat_nonempty [simp]: "show_nat n \<noteq> []"
  by (simp add: show_nat.simps [of n])

lemma dec_val_show_nat [simp]: "dec_val (show_nat n) 0 = n"
proof (induction n rule: show_nat.induct)
  case (1 n)
  then show ?case by (cases "n < 10") (auto simp: show_nat.simps [of n] dec_val_append)
qed

lemma show_nat_inject [simp]: "show_nat m = show_nat n \<longleftrightarrow> m = n"
  by (metis dec_val_show_nat)

lemma length_show_nat: "n < 10 ^ k \<Longrightarrow> 0 < k \<Longrightarrow> length (show_nat n) \<le> k"
proof (induction k arbitrary: n)
  case 0
  then show ?case by simp
next
  case (Suc k)
  show ?case
  proof (cases "n < 10")
    case True
    then show ?thesis by (simp add: show_nat.simps [of n])
  next
    case False
    with Suc.prems have "n div 10 < 10 ^ k" "0 < k"
      by (auto intro: Suc_leI gr0I)
    with Suc.IH have "length (show_nat (n div 10)) \<le> k" by simp
    with False show ?thesis by (simp add: show_nat.simps [of n])
  qed
qed

lemma digit_not_in_show_nat: "\<not> is_digit c \<Longrightarrow> c \<notin> set (show_nat n)"
  using show_nat_digits [of n] by (auto simp: list_all_iff)

lemma NUL_notin_show [simp]:
  "NUL \<notin> set (show_nat n)" "NUL \<notin> set (show_word w)" "NUL \<notin> set (show_int i)"
  by (simp_all add: show_word_def show_int_def digit_not_in_show_nat is_digit_def)

section \<open>Lemmas on linear search\<close>

lemma unat_of_nat_less: "n < 2 ^ LENGTH('a) \<Longrightarrow> unat (of_nat n :: 'a::len word) = n"
  by (simp add: unsigned_of_nat take_bit_nat_eq_self)

lemma find_idx_Some:
  "find_idx P xs = Some i \<longleftrightarrow> i < length xs \<and> P (xs ! i) \<and> (\<forall>j<i. \<not> P (xs ! j))"
proof (induction xs arbitrary: i)
  case Nil
  then show ?case by simp
next
  case (Cons x xs)
  then show ?case by (cases i) (auto simp: nth_Cons split: nat.splits)
qed

lemma find_idx_cong:
  "length xs = length ys \<Longrightarrow> (\<And>j. j < length xs \<Longrightarrow> P (xs ! j) = Q (ys ! j)) \<Longrightarrow> find_idx P xs = find_idx Q ys"
proof (induction xs ys rule: list_induct2)
  case (Cons x xs y ys)
  from Cons.prems [of 0] have "P x = Q y" by simp
  moreover from Cons.prems [of "Suc j" for j] have "find_idx P xs = find_idx Q ys" by (intro Cons.IH) simp
  ultimately show ?case by simp
qed simp

lemma find_idx_None: "find_idx P xs = None \<longleftrightarrow> (\<forall>x \<in> set xs. \<not> P x)"
  by (induction xs) auto

lemma find_idx_SomeD:
  assumes "find_idx P xs = Some i"
  shows "i < length xs" "P (xs ! i)"
  using assms by (simp_all add: find_idx_Some)

section \<open>Lemmas on lists\<close>

lemma length_filter_update:
  "i < length xs \<Longrightarrow>
   length (filter P (xs[i := y])) + (if P (xs ! i) then 1 else 0) =
   length (filter P xs) + (if P y then 1 else 0)"
proof (induction xs arbitrary: i)
  case Nil
  then show ?case by simp
next
  case (Cons x xs)
  then show ?case by (cases i) auto
qed

end
