(* ===== verification/Stb_Common.thy ===== *)
theory Stb_Common
  imports Complex_Main Stb_Prelude
begin

text \<open>
  \<open>include/common.h\<close>: the constants, the records every component exchanges (flow keys, flow
  values, flow events, host metrics, \<open>/proc/net\<close> entries) and the macros on them.  A record field
  carries a prefix (\<open>fk_\<close>, \<open>fv_\<close>, \<open>fe_\<close>, \<open>hm_\<close>, \<open>pn_\<close>) because HOL record selectors are global.
  Character arrays keep their exact size; a \<open>double\<close> is the rational number it denotes.
  \<open>wf_flow_event\<close> says that every character array of an event is NUL-terminated.
\<close>

section \<open>Constants\<close>

definition CAT_NETWORK :: string where [simp]: "CAT_NETWORK = ''network''"
definition CAT_IPTV :: string where [simp]: "CAT_IPTV = ''iptv''"
definition CAT_DNS :: string where [simp]: "CAT_DNS = ''dns''"
definition CAT_ICMP :: string where [simp]: "CAT_ICMP = ''icmp''"

definition EVT_FLOW :: string where [simp]: "EVT_FLOW = ''flow''"
definition EVT_CONNECT :: string where [simp]: "EVT_CONNECT = ''connect''"
definition EVT_DISCONNECT :: string where [simp]: "EVT_DISCONNECT = ''disconnect''"
definition EVT_DNS_QUERY :: string where [simp]: "EVT_DNS_QUERY = ''dns_query''"
definition EVT_DNS_REPLY :: string where [simp]: "EVT_DNS_REPLY = ''dns_reply''"
definition EVT_ICMP_ECHO :: string where [simp]: "EVT_ICMP_ECHO = ''icmp_echo''"

definition PROTO_TCP :: string where [simp]: "PROTO_TCP = ''TCP''"
definition PROTO_UDP :: string where [simp]: "PROTO_UDP = ''UDP''"
definition PROTO_ICMP :: string where [simp]: "PROTO_ICMP = ''ICMP''"

definition PAYLOAD_NONE :: u8 where [simp]: "PAYLOAD_NONE = 0"
definition PAYLOAD_HTTP_REQ :: u8 where [simp]: "PAYLOAD_HTTP_REQ = 1"
definition PAYLOAD_HTTP_RESP :: u8 where [simp]: "PAYLOAD_HTTP_RESP = 2"

definition ANOMALY_NONE :: u8 where [simp]: "ANOMALY_NONE = 0"
definition ANOMALY_SPIKE :: u8 where [simp]: "ANOMALY_SPIKE = 1"
definition ANOMALY_SCAN :: u8 where [simp]: "ANOMALY_SCAN = 2"
definition ANOMALY_DROP :: u8 where [simp]: "ANOMALY_DROP = 3"

definition TCP_FLAG_SYN :: u8 where [simp]: "TCP_FLAG_SYN = 0x02"
definition TCP_FLAG_ACK :: u8 where [simp]: "TCP_FLAG_ACK = 0x10"
definition TCP_FLAG_FIN :: u8 where [simp]: "TCP_FLAG_FIN = 0x01"
definition TCP_FLAG_RST :: u8 where [simp]: "TCP_FLAG_RST = 0x04"
definition TCP_FLAG_PSH :: u8 where [simp]: "TCP_FLAG_PSH = 0x08"
definition TCP_FLAG_URG :: u8 where [simp]: "TCP_FLAG_URG = 0x20"

definition PORT_DNS :: u16 where [simp]: "PORT_DNS = 53"
definition PORT_HTTP :: u16 where [simp]: "PORT_HTTP = 80"
definition PORT_HTTPS :: u16 where [simp]: "PORT_HTTPS = 443"

definition MAX_FLOWS :: nat where "MAX_FLOWS = 4096"
definition MAX_JSON_LEN :: nat where "MAX_JSON_LEN = 8192"
definition FLOW_CLEANUP_INTERVAL_S :: u64 where "FLOW_CLEANUP_INTERVAL_S = 60"

text \<open>IP protocol numbers, from the system headers.\<close>

definition IPPROTO_ICMP :: u8 where [simp]: "IPPROTO_ICMP = 1"
definition IPPROTO_TCP :: u8 where [simp]: "IPPROTO_TCP = 6"
definition IPPROTO_UDP :: u8 where [simp]: "IPPROTO_UDP = 17"
definition IPPROTO_ICMPV6 :: u8 where [simp]: "IPPROTO_ICMPV6 = 58"

section \<open>Records\<close>

record flow_key_t =
  fk_src_ip :: u32
  fk_dst_ip :: u32
  fk_src_port :: u16
  fk_dst_port :: u16
  fk_protocol :: u8
  fk_ip_version :: u8

record flow_value_t =
  fv_bytes :: u64
  fv_packets :: u64
  fv_first_seen_ns :: u64
  fv_last_seen_ns :: u64
  fv_pid :: u32
  fv_comm :: cbuf
  fv_max_pkt_size :: u16
  fv_min_pkt_size :: u16
  fv_tcp_flags_seen :: u32
  fv_retransmits :: u32
  fv_dup_acks :: u32
  fv_out_of_order :: u32
  fv_seq_expected :: u32

record flow_event_t =
  fe_timestamp_ns :: u64
  fe_probe_id :: cbuf
  fe_category :: cbuf
  fe_event_type :: cbuf
  fe_src_ip :: u32
  fe_dst_ip :: u32
  fe_src_port :: u16
  fe_dst_port :: u16
  fe_protocol :: cbuf
  fe_ip_version :: u8
  fe_tcp_flags :: u8
  fe_payload_type :: u8
  fe_anomaly :: u8
  fe_pkt_len :: u16
  fe_bytes :: u64
  fe_packets :: u64
  fe_latency_us :: u64
  fe_bandwidth_bps :: u64
  fe_retransmits :: u32
  fe_dup_acks :: u32
  fe_pid :: u32
  fe_service :: cbuf
  fe_details :: cbuf
  fe_tags :: cbuf

record host_metric_t =
  hm_timestamp_ns :: u64
  hm_probe_id :: cbuf
  hm_cpu_percent :: rat
  hm_memory_percent :: rat
  hm_disk_percent :: rat
  hm_net_rx_bytes :: u64
  hm_net_tx_bytes :: u64
  hm_disk_read_bytes :: u64
  hm_disk_write_bytes :: u64

record proc_net_entry =
  pn_local_ip :: u32
  pn_local_port :: u16
  pn_remote_ip :: u32
  pn_remote_port :: u16
  pn_state :: u8
  pn_protocol :: u8
  pn_ip_version :: u8
  pn_rx_queue :: u64
  pn_tx_queue :: u64
  pn_uid :: u32
  pn_inode :: u32

section \<open>Zero-initialised records\<close>

text \<open>\<open>calloc\<close>, \<open>memset(.., 0, ..)\<close> and \<open>= \{0\}\<close> of the sources.\<close>

definition zero_flow_key :: flow_key_t where
  "zero_flow_key = \<lparr>fk_src_ip = 0, fk_dst_ip = 0, fk_src_port = 0, fk_dst_port = 0,
     fk_protocol = 0, fk_ip_version = 0\<rparr>"

definition zero_flow_value :: flow_value_t where
  "zero_flow_value = \<lparr>fv_bytes = 0, fv_packets = 0, fv_first_seen_ns = 0, fv_last_seen_ns = 0,
     fv_pid = 0, fv_comm = zbuf 16, fv_max_pkt_size = 0, fv_min_pkt_size = 0,
     fv_tcp_flags_seen = 0, fv_retransmits = 0, fv_dup_acks = 0, fv_out_of_order = 0,
     fv_seq_expected = 0\<rparr>"

definition zero_flow_event :: flow_event_t where
  "zero_flow_event = \<lparr>fe_timestamp_ns = 0, fe_probe_id = zbuf 64, fe_category = zbuf 16,
     fe_event_type = zbuf 16, fe_src_ip = 0, fe_dst_ip = 0, fe_src_port = 0, fe_dst_port = 0,
     fe_protocol = zbuf 8, fe_ip_version = 0, fe_tcp_flags = 0, fe_payload_type = 0,
     fe_anomaly = 0, fe_pkt_len = 0, fe_bytes = 0, fe_packets = 0, fe_latency_us = 0,
     fe_bandwidth_bps = 0, fe_retransmits = 0, fe_dup_acks = 0, fe_pid = 0,
     fe_service = zbuf 32, fe_details = zbuf 128, fe_tags = zbuf 64\<rparr>"

definition wf_flow_event :: "flow_event_t \<Rightarrow> bool" where
  "wf_flow_event e \<longleftrightarrow>
     wf_cbuf 64 (fe_probe_id e) \<and> wf_cbuf 16 (fe_category e) \<and> wf_cbuf 16 (fe_event_type e) \<and>
     wf_cbuf 8 (fe_protocol e) \<and> wf_cbuf 32 (fe_service e) \<and> wf_cbuf 128 (fe_details e) \<and>
     wf_cbuf 64 (fe_tags e)"

section \<open>Macros\<close>

definition NS_TO_SEC :: "u64 \<Rightarrow> u64" where "NS_TO_SEC ns = ns div 1000000000"
definition NS_TO_MS :: "u64 \<Rightarrow> u64" where "NS_TO_MS ns = ns div 1000000"
definition MS_TO_NS :: "u64 \<Rightarrow> u64" where "MS_TO_NS ms = ms * 1000000"

definition IS_MULTICAST :: "u32 \<Rightarrow> bool" where
  "IS_MULTICAST ip \<longleftrightarrow> ip AND 0xF0000000 = 0xE0000000"

definition IS_LOOPBACK :: "u32 \<Rightarrow> bool" where
  "IS_LOOPBACK ip \<longleftrightarrow> ip AND 0xFF000000 = 0x7F000000"

text \<open>The bytes of an address as they lie in memory, and the dotted form printed from them.\<close>

definition ip_bytes :: "u32 \<Rightarrow> byte list" where
  "ip_bytes ip = [ucast ip, ucast (drop_bit 8 ip), ucast (drop_bit 16 ip), ucast (drop_bit 24 ip)]"

definition dotted :: "byte list \<Rightarrow> string" where
  "dotted b = show_word (b ! 0) @ ''.'' @ show_word (b ! 1) @ ''.'' @ show_word (b ! 2) @ ''.'' @
     show_word (b ! 3)"

definition ip_to_str :: "u32 \<Rightarrow> cbuf \<Rightarrow> nat \<Rightarrow> cbuf" where
  "ip_to_str ip buf buflen = snprintf buf buflen (dotted (ip_bytes ip))"

section \<open>Lemmas\<close>

lemma wf_zero_flow_event [wf_rules, simp]: "wf_flow_event zero_flow_event"
  by (simp add: wf_flow_event_def zero_flow_event_def)

lemma ip_bytes_le32 [endian_simps]: "ip_bytes (le32 b0 b1 b2 b3) = [b0, b1, b2, b3]"
  unfolding ip_bytes_def le32_def
  by (auto intro!: bit_word_eqI simp: bit_simps)

lemma le32_ip_bytes:
  "le32 (ip_bytes ip ! 0) (ip_bytes ip ! 1) (ip_bytes ip ! 2) (ip_bytes ip ! 3) = ip"
proof (rule bit_word_eqI)
  fix n :: nat
  assume "n < LENGTH(32)"
  then consider "n < 8" | "8 \<le> n" "n < 16" | "16 \<le> n" "n < 24" | "24 \<le> n" "n < 32"
    by fastforce
  then show "bit (le32 (ip_bytes ip ! 0) (ip_bytes ip ! 1) (ip_bytes ip ! 2) (ip_bytes ip ! 3)) n
      = bit ip n"
    by cases (auto simp: ip_bytes_def le32_def bit_simps)
qed

lemma length_dotted_le: "length (dotted b) \<le> 15"
proof -
  have "length (show_word (x :: byte)) \<le> 3" for x
    unfolding show_word_def using unat_byte_less [of x] by (intro length_show_nat) auto
  note l = this [of "b ! 0"] this [of "b ! 1"] this [of "b ! 2"] this [of "b ! 3"]
  show ?thesis using l by (simp add: dotted_def)
qed

lemma NUL_notin_dotted [simp]: "NUL \<notin> set (dotted b)"
  by (simp add: dotted_def)

end
