(* ===== verification/Packet_Parser.thy ===== *)
theory Packet_Parser
  imports Stb_Common
begin

text \<open>
  \<open>src/packet_parser.c\<close>: parsing a raw Ethernet frame into a \<open>pkt_event_t\<close> and classifying the
  packet into a \<open>flow_event_t\<close>.  Every access to the frame is a checked read, so a read past the
  buffer would make the parser return \<open>None\<close>; \<open>packet_parse_raw_safe\<close> shows that this never
  happens for a length that does not exceed the buffer.  \<open>eth_frame\<close>, \<open>ipv4_hdr\<close>, \<open>ipv6_hdr\<close>,
  \<open>tcp_hdr\<close>, \<open>udp_hdr\<close> and \<open>icmp_hdr\<close> are the wire formats, the specification the parser is
  proved against.
\<close>

section \<open>Data\<close>

record pkt_event_t =
  pe_timestamp_ns :: u64
  pe_src_ip :: u32
  pe_dst_ip :: u32
  pe_src_port :: u16
  pe_dst_port :: u16
  pe_protocol :: u8
  pe_tcp_flags :: u8
  pe_pkt_len :: u16
  pe_ifindex :: u32
  pe_pid :: u32
  pe_ip_version :: u8
  pe_payload_type :: u8
  pe_latency_us :: u16

definition zero_pkt_event :: pkt_event_t where
  "zero_pkt_event = \<lparr>pe_timestamp_ns = 0, pe_src_ip = 0, pe_dst_ip = 0, pe_src_port = 0,
     pe_dst_port = 0, pe_protocol = 0, pe_tcp_flags = 0, pe_pkt_len = 0, pe_ifindex = 0,
     pe_pid = 0, pe_ip_version = 0, pe_payload_type = 0, pe_latency_us = 0\<rparr>"

definition ETH_P_IP :: u16 where [simp]: "ETH_P_IP = 0x0800"
definition ETH_P_IPV6 :: u16 where [simp]: "ETH_P_IPV6 = 0x86DD"

section \<open>packet_parse_raw\<close>

text \<open>
  The flag bits of byte 13 of a TCP header are \<open>fin\<close> (bit 0), \<open>syn\<close>, \<open>rst\<close>, \<open>psh\<close>, \<open>ack\<close> and
  \<open>urg\<close> (bit 5).  The IPv4 branch collects six of them, the IPv6 branch four.
\<close>

definition tcp_flags_v4 :: "byte \<Rightarrow> u8" where
  "tcp_flags_v4 b =
     (let flags = 0;
          flags = (if bit b 1 then flags OR TCP_FLAG_SYN else flags);
          flags = (if bit b 4 then flags OR TCP_FLAG_ACK else flags);
          flags = (if bit b 0 then flags OR TCP_FLAG_FIN else flags);
          flags = (if bit b 2 then flags OR TCP_FLAG_RST else flags);
          flags = (if bit b 3 then flags OR TCP_FLAG_PSH else flags);
          flags = (if bit b 5 then flags OR TCP_FLAG_URG else flags)
      in flags)"

definition tcp_flags_v6 :: "byte \<Rightarrow> u8" where
  "tcp_flags_v6 b =
     (let flags = 0;
          flags = (if bit b 1 then flags OR TCP_FLAG_SYN else flags);
          flags = (if bit b 4 then flags OR TCP_FLAG_ACK else flags);
          flags = (if bit b 0 then flags OR TCP_FLAG_FIN else flags);
          flags = (if bit b 2 then flags OR TCP_FLAG_RST else flags)
      in flags)"

definition parse_ipv4 ::
  "byte list \<Rightarrow> int \<Rightarrow> nat \<Rightarrow> pkt_event_t \<Rightarrow> (int \<times> pkt_event_t) ub" where
  "parse_ipv4 p len eth_offset evt =
     (if len < int (eth_offset + 20) then Some (0, evt)
      else do {
        ip \<leftarrow> rd_bytes p eth_offset 20;
        if ntohs (ld16 ip 6) AND 0x1FFF \<noteq> 0 then Some (0, evt)
        else
          let protocol = ip ! 9;
              evt = evt\<lparr>pe_src_ip := ld32 ip 12, pe_dst_ip := ld32 ip 16,
                        pe_protocol := protocol, pe_ip_version := 4\<rparr>;
              ip_hdr_len = unat (ip ! 0 AND 0x0F) * 4;
              transport_offset = eth_offset + ip_hdr_len
          in if protocol = IPPROTO_TCP then
               (if len < int (transport_offset + 20) then Some (0, evt)
                else do {
                  tcp \<leftarrow> rd_bytes p transport_offset 20;
                  Some (1, evt\<lparr>pe_src_port := ntohs (ld16 tcp 0), pe_dst_port := ntohs (ld16 tcp 2),
                               pe_tcp_flags := tcp_flags_v4 (tcp ! 13)\<rparr>)
                })
             else if protocol = IPPROTO_UDP then
               (if len < int (transport_offset + 8) then Some (0, evt)
                else do {
                  udp \<leftarrow> rd_bytes p transport_offset 8;
                  Some (1, evt\<lparr>pe_src_port := ntohs (ld16 udp 0), pe_dst_port := ntohs (ld16 udp 2)\<rparr>)
                })
             else if protocol = IPPROTO_ICMP then
               (if len < int (transport_offset + 8) then Some (0, evt)
                else do {
                  icmp \<leftarrow> rd_bytes p transport_offset 8;
                  Some (1, evt\<lparr>pe_src_port := 0, pe_dst_port := ucast (icmp ! 0)\<rparr>)
                })
             else Some (1, evt\<lparr>pe_src_port := 0, pe_dst_port := 0\<rparr>)
      })"

definition parse_ipv6 ::
  "byte list \<Rightarrow> int \<Rightarrow> nat \<Rightarrow> pkt_event_t \<Rightarrow> (int \<times> pkt_event_t) ub" where
  "parse_ipv6 p len eth_offset evt =
     (if len < int (eth_offset + 40) then Some (0, evt)
      else do {
        ip6 \<leftarrow> rd_bytes p eth_offset 40;
        let nexthdr = ip6 ! 6;
            evt = evt\<lparr>pe_src_ip := ld32 ip6 8 XOR ld32 ip6 12 XOR ld32 ip6 16 XOR ld32 ip6 20,
                      pe_dst_ip := ld32 ip6 24 XOR ld32 ip6 28 XOR ld32 ip6 32 XOR ld32 ip6 36,
                      pe_protocol := nexthdr, pe_ip_version := 6\<rparr>;
            transport_offset = eth_offset + 40
        in if nexthdr = IPPROTO_TCP then
             (if len < int (transport_offset + 20) then Some (0, evt)
              else do {
                tcp \<leftarrow> rd_bytes p transport_offset 20;
                Some (1, evt\<lparr>pe_src_port := ntohs (ld16 tcp 0), pe_dst_port := ntohs (ld16 tcp 2),
                             pe_tcp_flags := tcp_flags_v6 (tcp ! 13)\<rparr>)
              })
           else if nexthdr = IPPROTO_UDP then
             (if len < int (transport_offset + 8) then Some (0, evt)
              else do {
                udp \<leftarrow> rd_bytes p transport_offset 8;
                Some (1, evt\<lparr>pe_src_port := ntohs (ld16 udp 0), pe_dst_port := ntohs (ld16 udp 2)\<rparr>)
              })
           else if nexthdr = IPPROTO_ICMPV6 then Some (1, evt\<lparr>pe_src_port := 0, pe_dst_port := 0\<rparr>)
           else Some (1, evt\<lparr>pe_src_port := 0, pe_dst_port := 0\<rparr>)
      })"

definition packet_parse_raw ::
  "byte list ptr \<Rightarrow> int \<Rightarrow> pkt_event_t ptr \<Rightarrow> (int \<times> pkt_event_t ptr) ub" where
  "packet_parse_raw data len evt =
     (case (data, evt) of
        (Some p, Some e) \<Rightarrow>
          if len < 14 then Some (0, evt)
          else do {
            b12 \<leftarrow> rd p 12;
            b13 \<leftarrow> rd p 13;
            let eth_proto = be16 b12 b13;
            if eth_proto = 0x8100 \<and> len < 18 then Some (0, evt)
            else do {
              (eth_proto, eth_offset) \<leftarrow>
                (if eth_proto = 0x8100 then do {
                   b16 \<leftarrow> rd p 16;
                   b17 \<leftarrow> rd p 17;
                   Some (be16 b16 b17, 18)
                 } else Some (eth_proto, 14));
              if eth_proto = ETH_P_IP then map_option (map_prod id Some) (parse_ipv4 p len eth_offset e)
              else if eth_proto = ETH_P_IPV6 then map_option (map_prod id Some) (parse_ipv6 p len eth_offset e)
              else Some (0, evt)
            }
          }
      | _ \<Rightarrow> Some (0, evt))"

section \<open>packet_to_flow_event\<close>

definition proto_field :: "u8 \<Rightarrow> cbuf \<Rightarrow> cbuf" where
  "proto_field protocol buf =
     (if protocol = IPPROTO_TCP then set_field buf PROTO_TCP
      else if protocol = IPPROTO_UDP then set_field buf PROTO_UDP
      else if protocol = IPPROTO_ICMP then set_field buf PROTO_ICMP
      else print_field buf (show_word protocol))"

definition detect_http :: "pkt_event_t \<Rightarrow> flow_event_t \<Rightarrow> flow_event_t" where
  "detect_http pkt flow =
     (if pe_payload_type pkt = PAYLOAD_HTTP_REQ then
        flow\<lparr>fe_service := set_field (fe_service flow) ''HTTP'',
             fe_tags := set_field (fe_tags flow) ''http,request''\<rparr>
      else if pe_payload_type pkt = PAYLOAD_HTTP_RESP then
        flow\<lparr>fe_service := set_field (fe_service flow) ''HTTP'',
             fe_tags := set_field (fe_tags flow) ''http,response''\<rparr>
      else if pe_protocol pkt = IPPROTO_TCP \<and>
              (pe_src_port pkt = PORT_HTTP \<or> pe_dst_port pkt = PORT_HTTP \<or>
               pe_src_port pkt = PORT_HTTPS \<or> pe_dst_port pkt = PORT_HTTPS) then
        flow\<lparr>fe_service := set_field (fe_service flow) ''HTTP''\<rparr>
      else flow)"

definition packet_to_flow_event :: "pkt_event_t \<Rightarrow> string \<Rightarrow> flow_event_t" where
  "packet_to_flow_event pkt probe_id =
     (let flow = zero_flow_event\<lparr>
            fe_timestamp_ns := pe_timestamp_ns pkt,
            fe_probe_id := set_field (fe_probe_id zero_flow_event) probe_id,
            fe_src_ip := pe_src_ip pkt,
            fe_dst_ip := pe_dst_ip pkt,
            fe_src_port := pe_src_port pkt,
            fe_dst_port := pe_dst_port pkt,
            fe_tcp_flags := pe_tcp_flags pkt,
            fe_pkt_len := pe_pkt_len pkt,
            fe_bytes := ucast (pe_pkt_len pkt),
            fe_packets := 1,
            fe_pid := pe_pid pkt,
            fe_ip_version := pe_ip_version pkt,
            fe_payload_type := pe_payload_type pkt,
            fe_latency_us := ucast (pe_latency_us pkt),
            fe_protocol := proto_field (pe_protocol pkt) (fe_protocol zero_flow_event)\<rparr>
      in if pe_protocol pkt = IPPROTO_UDP \<and>
            (pe_src_port pkt = PORT_DNS \<or> pe_dst_port pkt = PORT_DNS) then
           flow\<lparr>fe_category := set_field (fe_category flow) CAT_DNS,
                fe_event_type := set_field (fe_event_type flow)
                  (if pe_dst_port pkt = PORT_DNS then EVT_DNS_QUERY else EVT_DNS_REPLY),
                fe_tags := set_field (fe_tags flow) ''dns'',
                fe_service := set_field (fe_service flow) ''DNS''\<rparr>
         else if pe_protocol pkt = IPPROTO_ICMP then
           (let flow = flow\<lparr>fe_category := set_field (fe_category flow) CAT_ICMP\<rparr>;
                flow = (if pe_dst_port pkt = 8 then
                          flow\<lparr>fe_event_type := set_field (fe_event_type flow) EVT_ICMP_ECHO,
                               fe_service := set_field (fe_service flow) ''ping''\<rparr>
                        else flow)
            in flow\<lparr>fe_tags := set_field (fe_tags flow) ''icmp''\<rparr>)
         else if IS_MULTICAST (pe_dst_ip pkt) then
           flow\<lparr>fe_tags := set_field (fe_tags flow) ''iptv,multicast'',
                fe_service := set_field (fe_service flow) ''IPTV'',
                fe_category := set_field (fe_category flow) CAT_IPTV\<rparr>
         else
           (let flow = detect_http pkt flow
            in if pe_tcp_flags pkt AND TCP_FLAG_SYN \<noteq> 0 then
                 flow\<lparr>fe_event_type := set_field (fe_event_type flow) EVT_CONNECT\<rparr>
               else if pe_tcp_flags pkt AND TCP_FLAG_FIN \<noteq> 0 \<or> pe_tcp_flags pkt AND TCP_FLAG_RST \<noteq> 0 then
                 flow\<lparr>fe_event_type := set_field (fe_event_type flow) EVT_DISCONNECT\<rparr>
               else
                 flow\<lparr>fe_category := set_field (fe_category flow) CAT_NETWORK,
                      fe_event_type := set_field (fe_event_type flow) EVT_FLOW\<rparr>))"

section \<open>Wire formats\<close>

text \<open>The formats as the network defines them, independent of the parser.\<close>

definition u16_bytes :: "u16 \<Rightarrow> byte list" where
  "u16_bytes x = [ucast (drop_bit 8 x), ucast x]"

definition eth_frame :: "byte list \<Rightarrow> (byte \<times> byte) option \<Rightarrow> u16 \<Rightarrow> byte list \<Rightarrow> byte list" where
  "eth_frame macs vlan proto payload =
     macs @ (case vlan of None \<Rightarrow> [] | Some (t0, t1) \<Rightarrow> [0x81, 0x00, t0, t1]) @
     u16_bytes proto @ payload"

type_synonym addr4 = "byte \<times> byte \<times> byte \<times> byte"

fun addr4_bytes :: "addr4 \<Rightarrow> byte list" where
  "addr4_bytes (a, b, c, d) = [a, b, c, d]"

fun addr4_mem :: "addr4 \<Rightarrow> u32" where
  "addr4_mem (a, b, c, d) = le32 a b c d"

definition u32_bytes :: "u32 \<Rightarrow> byte list" where
  "u32_bytes x = [ucast (drop_bit 24 x), ucast (drop_bit 16 x), ucast (drop_bit 8 x), ucast x]"

record ipv4_fields =
  v4_ihl :: nat
  v4_tos :: byte
  v4_tot_len :: u16
  v4_id :: u16
  v4_frag :: u16
  v4_ttl :: byte
  v4_proto :: byte
  v4_check :: u16
  v4_src :: addr4
  v4_dst :: addr4

definition ipv4_hdr :: "ipv4_fields \<Rightarrow> byte list \<Rightarrow> byte list" where
  "ipv4_hdr h opts =
     [0x40 OR of_nat (v4_ihl h), v4_tos h] @ u16_bytes (v4_tot_len h) @ u16_bytes (v4_id h) @
     u16_bytes (v4_frag h) @ [v4_ttl h, v4_proto h] @ u16_bytes (v4_check h) @
     addr4_bytes (v4_src h) @ addr4_bytes (v4_dst h) @ opts"

definition wf_ipv4 :: "ipv4_fields \<Rightarrow> byte list \<Rightarrow> bool" where
  "wf_ipv4 h opts \<longleftrightarrow>
     5 \<le> v4_ihl h \<and> v4_ihl h < 16 \<and> length opts = 4 * v4_ihl h - 20 \<and> v4_frag h AND 0x1FFF = 0"

record ipv6_fields =
  v6_flow :: u32
  v6_plen :: u16
  v6_next :: byte
  v6_hop :: byte
  v6_src :: "addr4 \<times> addr4 \<times> addr4 \<times> addr4"
  v6_dst :: "addr4 \<times> addr4 \<times> addr4 \<times> addr4"

fun addr6_bytes :: "addr4 \<times> addr4 \<times> addr4 \<times> addr4 \<Rightarrow> byte list" where
  "addr6_bytes (a, b, c, d) = addr4_bytes a @ addr4_bytes b @ addr4_bytes c @ addr4_bytes d"

fun addr6_fold :: "addr4 \<times> addr4 \<times> addr4 \<times> addr4 \<Rightarrow> u32" where
  "addr6_fold (a, b, c, d) = addr4_mem a XOR addr4_mem b XOR addr4_mem c XOR addr4_mem d"

definition ipv6_hdr :: "ipv6_fields \<Rightarrow> byte list" where
  "ipv6_hdr h = u32_bytes (v6_flow h) @ u16_bytes (v6_plen h) @ [v6_next h, v6_hop h] @
     addr6_bytes (v6_src h) @ addr6_bytes (v6_dst h)"

record tcp_fields =
  th_source :: u16
  th_dest :: u16
  th_seq :: u32
  th_ack_seq :: u32
  th_doff :: byte
  th_flags :: byte
  th_window :: u16
  th_check :: u16
  th_urg_ptr :: u16

definition tcp_hdr :: "tcp_fields \<Rightarrow> byte list" where
  "tcp_hdr t = u16_bytes (th_source t) @ u16_bytes (th_dest t) @ u32_bytes (th_seq t) @
     u32_bytes (th_ack_seq t) @ [th_doff t, th_flags t] @ u16_bytes (th_window t) @
     u16_bytes (th_check t) @ u16_bytes (th_urg_ptr t)"

definition udp_hdr :: "u16 \<Rightarrow> u16 \<Rightarrow> u16 \<Rightarrow> u16 \<Rightarrow> byte list" where
  "udp_hdr source dest len check = u16_bytes source @ u16_bytes dest @ u16_bytes len @ u16_bytes check"

definition icmp_hdr :: "byte \<Rightarrow> byte \<Rightarrow> u16 \<Rightarrow> u32 \<Rightarrow> byte list" where
  "icmp_hdr ty code check rest = [ty, code] @ u16_bytes check @ u32_bytes rest"

definition eth_off :: "(byte \<times> byte) option \<Rightarrow> nat" where
  "eth_off vlan = (case vlan of None \<Rightarrow> 14 | Some _ \<Rightarrow> 18)"

section \<open>Classification, as a table\<close>

text \<open>Category, event type, service and tags of a packet as plain strings.\<close>

definition classify :: "pkt_event_t \<Rightarrow> string \<times> string \<times> string \<times> string" where
  "classify pkt =
     (let proto = pe_protocol pkt; sp = pe_src_port pkt; dp = pe_dst_port pkt;
          http = (if pe_payload_type pkt = 1 then (''HTTP'', ''http,request'')
                  else if pe_payload_type pkt = 2 then (''HTTP'', ''http,response'')
                  else if proto = 6 \<and> (sp = 80 \<or> dp = 80 \<or> sp = 443 \<or> dp = 443) then (''HTTP'', [])
                  else ([], []))
      in if proto = 17 \<and> dp = 53 then (''dns'', ''dns_query'', ''DNS'', ''dns'')
         else if proto = 17 \<and> sp = 53 then (''dns'', ''dns_reply'', ''DNS'', ''dns'')
         else if proto = 1 \<and> dp = 8 then (''icmp'', ''icmp_echo'', ''ping'', ''icmp'')
         else if proto = 1 then (''icmp'', [], [], ''icmp'')
         else if IS_MULTICAST (pe_dst_ip pkt) then (''iptv'', [], ''IPTV'', ''iptv,multicast'')
         else if bit (pe_tcp_flags pkt) 1 then ([], ''connect'', http)
         else if bit (pe_tcp_flags pkt) 0 \<or> bit (pe_tcp_flags pkt) 2 then ([], ''disconnect'', http)
         else (''network'', ''flow'', http))"

section \<open>Example packets\<close>

definition ex_ipv4 :: ipv4_fields where
  "ex_ipv4 = \<lparr>v4_ihl = 6, v4_tos = 0, v4_tot_len = 44, v4_id = 7, v4_frag = 0x4000, v4_ttl = 64,
     v4_proto = 6, v4_check = 0, v4_src = (10, 0, 0, 1), v4_dst = (93, 184, 216, 34)\<rparr>"

definition ex_tcp :: tcp_fields where
  "ex_tcp = \<lparr>th_source = 40000, th_dest = 80, th_seq = 1000, th_ack_seq = 0, th_doff = 0x50,
     th_flags = 0x02, th_window = 512, th_check = 0, th_urg_ptr = 0\<rparr>"

definition ex_ipv6 :: ipv6_fields where
  "ex_ipv6 = \<lparr>v6_flow = 0x60000000, v6_plen = 20, v6_next = 6, v6_hop = 64,
     v6_src = ((0x20, 1, 0xd, 0xb8), (0, 0, 0, 0), (0, 0, 0, 0), (0, 0, 0, 1)),
     v6_dst = ((0x20, 1, 0xd, 0xb8), (0, 0, 0, 0), (0, 0, 0, 0), (0, 0, 0, 2))\<rparr>"

section \<open>Lemmas: bits and layouts\<close>

lemma less_8_cases: "(n::nat) < 8 \<Longrightarrow> n \<in> {0, 1, 2, 3, 4, 5, 6, 7}"
  by auto

lemma flag_step: "bit (if c then f OR k else f) n \<longleftrightarrow> bit f n \<or> c \<and> bit (k :: u8) n"
  by (simp add: bit_or_iff)

lemma tcp_flags_v4_eq: "tcp_flags_v4 b = b AND 0x3F"
proof (rule bit_word_eqI)
  fix n assume "n < LENGTH(8)"
  then have "n \<in> {0, 1, 2, 3, 4, 5, 6, 7}" by (intro less_8_cases) simp
  then show "bit (tcp_flags_v4 b) n = bit (b AND 0x3F) n"
    by (auto simp: tcp_flags_v4_def Let_def flag_step bit_and_iff simp del: bit_or_iff)
qed

lemma tcp_flags_v6_eq: "tcp_flags_v6 b = b AND 0x17"
proof (rule bit_word_eqI)
  fix n assume "n < LENGTH(8)"
  then have "n \<in> {0, 1, 2, 3, 4, 5, 6, 7}" by (intro less_8_cases) simp
  then show "bit (tcp_flags_v6 b) n = bit (b AND 0x17) n"
    by (auto simp: tcp_flags_v6_def Let_def flag_step bit_and_iff simp del: bit_or_iff)
qed

lemma multicast_bits:
  "(x :: u32) AND 0xF0000000 = 0xE0000000 \<longleftrightarrow> \<not> bit x 28 \<and> bit x 29 \<and> bit x 30 \<and> bit x 31"
  (is "?l \<longleftrightarrow> ?r")
proof
  assume "?l"
  then have "bit (x AND 0xF0000000) n = bit (0xE0000000 :: u32) n" for n by simp
  from this [of 28] this [of 29] this [of 30] this [of 31] show "?r"
    by (simp add: bit_and_iff)
next
  assume r: "?r"
  have m: "(0xF0000000 :: u32) = push_bit 28 (mask 4)" "(0xE0000000 :: u32) = push_bit 29 (mask 3)"
    by (simp_all add: mask_numeral)
  show "?l" unfolding m
  proof (rule bit_word_eqI)
    fix n assume "n < LENGTH(32)"
    then consider "n < 28" | "n = 28" | "n = 29" | "n = 30" | "n = 31" by fastforce
    then show "bit (x AND push_bit 28 (mask 4)) n = bit (push_bit 29 (mask 3) :: u32) n"
      using r by cases (auto simp: bit_simps)
  qed
qed

lemma nibble_bits:
  "(x :: byte) AND 0xF0 = 0xE0 \<longleftrightarrow> \<not> bit x 4 \<and> bit x 5 \<and> bit x 6 \<and> bit x 7"
  (is "?l \<longleftrightarrow> ?r")
proof
  assume "?l"
  then have "bit (x AND 0xF0) n = bit (0xE0 :: byte) n" for n by simp
  from this [of 4] this [of 5] this [of 6] this [of 7] show "?r"
    by (simp add: bit_and_iff)
next
  assume r: "?r"
  show "?l"
  proof (rule bit_word_eqI)
    fix n assume "n < LENGTH(8)"
    then have "n \<in> {0, 1, 2, 3, 4, 5, 6, 7}" by (intro less_8_cases) simp
    then show "bit (x AND 0xF0) n = bit (0xE0 :: byte) n"
      using r by (auto simp: bit_and_iff)
  qed
qed

lemma IS_MULTICAST_le32: "IS_MULTICAST (le32 d0 d1 d2 d3) \<longleftrightarrow> d3 AND 0xF0 = 0xE0"
  unfolding IS_MULTICAST_def multicast_bits nibble_bits by (simp add: le32_def bit_simps)
lemma be16_u16_bytes [endian_simps]: "be16 (ucast (drop_bit 8 x)) (ucast x) = (x :: u16)"
proof (rule bit_word_eqI)
  fix n assume "n < LENGTH(16)"
  then consider "n < 8" | "8 \<le> n" "n < 16" by fastforce
  then show "bit (be16 (ucast (drop_bit 8 x)) (ucast x)) n = bit x n"
    by cases (auto simp: be16_def bit_simps)
qed

lemma length_u16_bytes [simp]: "length (u16_bytes x) = 2"
  by (simp add: u16_bytes_def)

lemma length_u32_bytes [simp]: "length (u32_bytes x) = 4"
  by (simp add: u32_bytes_def)

lemma rd_bytes_append:
  "off = length pre \<Longrightarrow> n \<le> length q \<Longrightarrow> rd_bytes (pre @ q) off n = Some (take n q)"
  by (simp add: rd_bytes_def)

lemma less_4_cases: "(n::nat) < 4 \<Longrightarrow> n \<in> {0, 1, 2, 3}"
  by auto

lemma ld16_take [simp]: "i + 1 < n \<Longrightarrow> ld16 (take n h) i = ld16 h i"
  by (simp add: ld16_def)

lemma ihl_nibble: "k < 16 \<Longrightarrow> unat ((0x40 OR of_nat k) AND 0x0F :: byte) = k"
proof -
  assume k: "k < 16"
  have "(0x0F :: byte) = mask 4" by (simp add: mask_numeral)
  moreover have "(0x40 OR of_nat k) AND mask 4 = take_bit 4 (of_nat k :: byte)"
  proof (rule bit_word_eqI)
    fix n assume "n < LENGTH(8)"
    have "\<not> bit (0x40 :: byte) n" if "n < 4"
      using that by (elim less_4_cases [elim_format]) auto
    then show "bit ((0x40 OR of_nat k) AND mask 4 :: byte) n = bit (take_bit 4 (of_nat k :: byte)) n"
      by (auto simp: bit_simps)
  qed
  moreover have "unat (take_bit 4 (of_nat k :: byte)) = k"
    using k by (simp add: unsigned_take_bit_eq unat_of_nat take_bit_nat_eq_self)
  ultimately show ?thesis by simp
qed

lemma length_addr4_bytes [simp]: "length (addr4_bytes a) = 4"
  by (cases a) simp

lemma length_ipv4_hdr: "wf_ipv4 h opts \<Longrightarrow> length (ipv4_hdr h opts) = 4 * v4_ihl h"
  unfolding ipv4_hdr_def wf_ipv4_def by auto

lemma length_tcp_hdr [simp]: "length (tcp_hdr t) = 20"
  by (simp add: tcp_hdr_def)

lemma length_udp_hdr [simp]: "length (udp_hdr s d l c) = 8"
  by (simp add: udp_hdr_def)

lemma length_icmp_hdr [simp]: "length (icmp_hdr t c k r) = 8"
  by (simp add: icmp_hdr_def)

lemma ipv4_hdr_loads:
  assumes "wf_ipv4 h opts"
  defines "ip \<equiv> take 20 (ipv4_hdr h opts)"
  shows "ntohs (ld16 ip 6) = v4_frag h" "ip ! 9 = v4_proto h"
    "ld32 ip 12 = addr4_mem (v4_src h)" "ld32 ip 16 = addr4_mem (v4_dst h)"
    "unat (ip ! 0 AND 0x0F) = v4_ihl h"
proof -
  obtain s0 s1 s2 s3 where s: "v4_src h = (s0, s1, s2, s3)" by (cases "v4_src h")
  obtain d0 d1 d2 d3 where d: "v4_dst h = (d0, d1, d2, d3)" by (cases "v4_dst h")
  show "ntohs (ld16 ip 6) = v4_frag h" "ip ! 9 = v4_proto h"
    "ld32 ip 12 = addr4_mem (v4_src h)" "ld32 ip 16 = addr4_mem (v4_dst h)"
    using s d by (simp_all add: ip_def ipv4_hdr_def u16_bytes_def ld16_def ld32_def endian_simps)
  show "unat (ip ! 0 AND 0x0F) = v4_ihl h"
    using assms(1) by (simp add: ip_def ipv4_hdr_def wf_ipv4_def ihl_nibble)
qed


lemma parse_ipv4_transport:
  fixes pre tr opts :: "byte list" and evt :: pkt_event_t
  assumes "wf_ipv4 h opts" "off = length pre" and p_def: "p = pre @ ipv4_hdr h opts @ tr"
  defines "e \<equiv> evt\<lparr>pe_src_ip := addr4_mem (v4_src h), pe_dst_ip := addr4_mem (v4_dst h),
                   pe_protocol := v4_proto h, pe_ip_version := 4\<rparr>"
  shows "parse_ipv4 p (int (length p)) off evt =
     Some (if v4_proto h = IPPROTO_TCP then
        (if length tr < 20 then (0, e)
         else (1, e\<lparr>pe_src_port := ntohs (ld16 tr 0), pe_dst_port := ntohs (ld16 tr 2),
                   pe_tcp_flags := tcp_flags_v4 (tr ! 13)\<rparr>))
      else if v4_proto h = IPPROTO_UDP then
        (if length tr < 8 then (0, e)
         else (1, e\<lparr>pe_src_port := ntohs (ld16 tr 0), pe_dst_port := ntohs (ld16 tr 2)\<rparr>))
      else if v4_proto h = IPPROTO_ICMP then
        (if length tr < 8 then (0, e)
         else (1, e\<lparr>pe_src_port := 0, pe_dst_port := ucast (tr ! 0)\<rparr>))
      else (1, e\<lparr>pe_src_port := 0, pe_dst_port := 0\<rparr>))"
proof -
  note len = length_ipv4_hdr [OF assms(1)]
  have ihl: "5 \<le> v4_ihl h" "v4_frag h AND 0x1FFF = 0"
    using assms(1) by (simp_all add: wf_ipv4_def)
  define ip where "ip = take 20 (ipv4_hdr h opts)"
  have hdr: "rd_bytes p off 20 = Some ip"
    unfolding p_def ip_def using assms(2) len ihl by (subst rd_bytes_append) auto
  have tr: "rd_bytes p (off + v4_ihl h * 4) n = Some (take n tr)" if "n \<le> length tr" for n
    unfolding p_def using assms(2) len that
    by (subst append_assoc [symmetric], subst rd_bytes_append) (auto simp: mult.commute)
  have lp: "length p = off + 4 * v4_ihl h + length tr"
    unfolding p_def using assms(2) len by simp
  note step = parse_ipv4_def hdr ipv4_hdr_loads [OF assms(1), folded ip_def] lp tr e_def Let_def
  show ?thesis using ihl by (simp add: step del: rd_bytes_Some)
qed

lemma parse_ipv4_fragment:
  assumes "off = length pre" "v4_frag h AND 0x1FFF \<noteq> 0"
  shows "parse_ipv4 (pre @ ipv4_hdr h opts @ tr) len off evt = Some (0, evt)"
proof -
  obtain s0 s1 s2 s3 where s: "v4_src h = (s0, s1, s2, s3)" by (cases "v4_src h")
  obtain d0 d1 d2 d3 where d: "v4_dst h = (d0, d1, d2, d3)" by (cases "v4_dst h")
  have "rd_bytes (pre @ ipv4_hdr h opts @ tr) off 20 = Some (take 20 (ipv4_hdr h opts @ tr))"
    using assms(1) by (intro rd_bytes_append) (simp_all add: ipv4_hdr_def)
  moreover have "ntohs (ld16 (take 20 (ipv4_hdr h opts @ tr)) 6) = v4_frag h"
    using s d by (simp add: ipv4_hdr_def u16_bytes_def ld16_def endian_simps)
  ultimately show ?thesis using assms(2) by (simp add: parse_ipv4_def del: rd_bytes_Some)
qed

lemma length_addr6_bytes [simp]: "length (addr6_bytes a) = 16"
  by (cases a) simp

lemma length_ipv6_hdr [simp]: "length (ipv6_hdr h) = 40"
  by (simp add: ipv6_hdr_def)

lemma ld32_addr4:
  "ld32 (addr4_bytes a @ r) 0 = addr4_mem a"
  by (cases a) (simp add: ld32_def)

lemma ipv6_hdr_loads:
  "ipv6_hdr h ! 6 = v6_next h"
  "ld32 (ipv6_hdr h) 8 XOR ld32 (ipv6_hdr h) 12 XOR ld32 (ipv6_hdr h) 16 XOR ld32 (ipv6_hdr h) 20 =
     addr6_fold (v6_src h)"
  "ld32 (ipv6_hdr h) 24 XOR ld32 (ipv6_hdr h) 28 XOR ld32 (ipv6_hdr h) 32 XOR ld32 (ipv6_hdr h) 36 =
     addr6_fold (v6_dst h)"
proof -
  show "ipv6_hdr h ! 6 = v6_next h"
    by (simp add: ipv6_hdr_def u16_bytes_def u32_bytes_def)
  obtain a b c d where s: "v6_src h = (a, b, c, d)" by (cases "v6_src h")
  obtain a' b' c' d' where d: "v6_dst h = (a', b', c', d')" by (cases "v6_dst h")
  show "ld32 (ipv6_hdr h) 8 XOR ld32 (ipv6_hdr h) 12 XOR ld32 (ipv6_hdr h) 16 XOR
      ld32 (ipv6_hdr h) 20 = addr6_fold (v6_src h)"
    by (cases a; cases b; cases c; cases d)
       (simp add: s ipv6_hdr_def u16_bytes_def u32_bytes_def ld32_def)
  show "ld32 (ipv6_hdr h) 24 XOR ld32 (ipv6_hdr h) 28 XOR ld32 (ipv6_hdr h) 32 XOR
      ld32 (ipv6_hdr h) 36 = addr6_fold (v6_dst h)"
    by (cases a'; cases b'; cases c'; cases d'; cases a; cases b; cases c; cases d)
       (simp add: s d ipv6_hdr_def u16_bytes_def u32_bytes_def ld32_def)
qed

lemma parse_ipv6_transport:
  fixes pre tr :: "byte list" and evt :: pkt_event_t and h :: ipv6_fields
  assumes "off = length pre" and p_def: "p = pre @ ipv6_hdr h @ tr"
  defines "e \<equiv> evt\<lparr>pe_src_ip := addr6_fold (v6_src h), pe_dst_ip := addr6_fold (v6_dst h),
                   pe_protocol := v6_next h, pe_ip_version := 6\<rparr>"
  shows "parse_ipv6 p (int (length p)) off evt =
     Some (if v6_next h = IPPROTO_TCP then
        (if length tr < 20 then (0, e)
         else (1, e\<lparr>pe_src_port := ntohs (ld16 tr 0), pe_dst_port := ntohs (ld16 tr 2),
                   pe_tcp_flags := tcp_flags_v6 (tr ! 13)\<rparr>))
      else if v6_next h = IPPROTO_UDP then
        (if length tr < 8 then (0, e)
         else (1, e\<lparr>pe_src_port := ntohs (ld16 tr 0), pe_dst_port := ntohs (ld16 tr 2)\<rparr>))
      else (1, e\<lparr>pe_src_port := 0, pe_dst_port := 0\<rparr>))"
proof -
  have hdr: "rd_bytes p off 40 = Some (ipv6_hdr h)"
    unfolding p_def using assms(1) by (subst rd_bytes_append) auto
  have tr: "rd_bytes p (off + 40) n = Some (take n tr)" if "n \<le> length tr" for n
    unfolding p_def using assms(1) that
    by (subst append_assoc [symmetric], subst rd_bytes_append) auto
  have lp: "length p = off + 40 + length tr"
    unfolding p_def using assms(1) by simp
  show ?thesis
    by (simp add: parse_ipv6_def hdr ipv6_hdr_loads lp tr e_def Let_def del: rd_bytes_Some)
qed

lemma parse_ipv4_safe: "len \<le> int (length p) \<Longrightarrow> parse_ipv4 p len off evt \<noteq> None"
  by (auto simp: parse_ipv4_def Let_def rd_bytes_def simp del: of_nat_unat)

lemma parse_ipv6_safe: "len \<le> int (length p) \<Longrightarrow> parse_ipv6 p len off evt \<noteq> None"
  by (auto simp: parse_ipv6_def Let_def rd_bytes_def)

lemma packet_parse_raw_eth:
  assumes "length macs = 12" "proto \<noteq> 0x8100"
  shows "packet_parse_raw (Some (eth_frame macs vlan proto payload))
           (int (length (eth_frame macs vlan proto payload))) (Some e) =
     (if proto = ETH_P_IP then map_option (map_prod id Some)
        (parse_ipv4 (eth_frame macs vlan proto payload)
           (int (length (eth_frame macs vlan proto payload))) (eth_off vlan) e)
      else if proto = ETH_P_IPV6 then map_option (map_prod id Some)
        (parse_ipv6 (eth_frame macs vlan proto payload)
           (int (length (eth_frame macs vlan proto payload))) (eth_off vlan) e)
      else Some (0, Some e))"
proof -
  have b: "be16 0x81 0 = 0x8100" by (simp add: be16_def)
  show ?thesis
  proof (cases vlan)
    case None
    with assms show ?thesis
      by (simp add: packet_parse_raw_def eth_frame_def u16_bytes_def nth_append rd_def eth_off_def
          endian_simps Let_def)
  next
    case (Some t)
    then obtain t0 t1 where "vlan = Some (t0, t1)" by (cases t) auto
    with assms b show ?thesis
      by (simp add: packet_parse_raw_def eth_frame_def u16_bytes_def nth_append rd_def eth_off_def
          endian_simps Let_def)
  qed
qed

lemma eth_frame_split:
  assumes "length macs = 12" "f = eth_frame macs vlan proto q"
  obtains pre where "f = pre @ q" "eth_off vlan = length pre"
  by (rule that [of "macs @ (case vlan of None \<Rightarrow> [] | Some (t0, t1) \<Rightarrow> [0x81, 0x00, t0, t1]) @
        u16_bytes proto"])
     (simp_all add: eth_frame_def eth_off_def assms split: option.splits prod.splits)

lemma packet_parse_raw_v4:
  assumes "length macs = 12" "f = eth_frame macs vlan ETH_P_IP q"
  obtains pre where "f = pre @ q"
    "\<And>e. packet_parse_raw (Some f) (int (length f)) (Some e) =
       map_option (map_prod id Some) (parse_ipv4 f (int (length f)) (length pre) e)"
  by (rule eth_frame_split [OF assms])
     (use assms packet_parse_raw_eth [OF assms(1), of ETH_P_IP vlan q] in \<open>auto intro: that\<close>)

lemma packet_parse_raw_v6:
  assumes "length macs = 12" "f = eth_frame macs vlan ETH_P_IPV6 q"
  obtains pre where "f = pre @ q"
    "\<And>e. packet_parse_raw (Some f) (int (length f)) (Some e) =
       map_option (map_prod id Some) (parse_ipv6 f (int (length f)) (length pre) e)"
  by (rule eth_frame_split [OF assms])
     (use assms packet_parse_raw_eth [OF assms(1), of ETH_P_IPV6 vlan q] in \<open>auto intro: that\<close>)

lemma flag_bits [simp]:
  "(f :: u8) AND 2 = 0 \<longleftrightarrow> \<not> bit f 1" "f AND 1 = 0 \<longleftrightarrow> \<not> bit f 0" "f AND 4 = 0 \<longleftrightarrow> \<not> bit f 2"
  using and_exp_eq_0_iff_not_bit [of f 1] and_exp_eq_0_iff_not_bit [of f 0]
    and_exp_eq_0_iff_not_bit [of f 2]
  by simp_all

lemma tcp_hdr_loads:
  "ntohs (ld16 (tcp_hdr t @ r) 0) = th_source t" "ntohs (ld16 (tcp_hdr t @ r) 2) = th_dest t"
  "(tcp_hdr t @ r) ! 13 = th_flags t"
  by (simp_all add: tcp_hdr_def u16_bytes_def u32_bytes_def ld16_def endian_simps)

lemma udp_hdr_loads:
  "ntohs (ld16 (udp_hdr sp dp l c @ r) 0) = sp" "ntohs (ld16 (udp_hdr sp dp l c @ r) 2) = dp"
  by (simp_all add: udp_hdr_def u16_bytes_def ld16_def endian_simps)

lemma wf_proto_field [wf_rules, simp]: "wf_cbuf n b \<Longrightarrow> wf_cbuf n (proto_field p b)"
  by (simp add: proto_field_def)

lemma wf_detect_http [wf_rules, simp]: "wf_flow_event f \<Longrightarrow> wf_flow_event (detect_http pkt f)"
  by (simp add: detect_http_def wf_flow_event_def)

lemma octet_nibble: "(d :: byte) AND 0xF0 = 0xE0 \<longleftrightarrow> 224 \<le> unat d \<and> unat d \<le> 239"
proof -
  have "d AND 0xF0 = push_bit 4 (drop_bit 4 d)"
  proof (rule bit_word_eqI)
    fix n assume "n < LENGTH(8)"
    then have "n \<in> {0, 1, 2, 3, 4, 5, 6, 7}" by (intro less_8_cases) simp
    then show "bit (d AND 0xF0) n = bit (push_bit 4 (drop_bit 4 d)) n"
      by (auto simp: bit_simps)
  qed
  moreover have "unat (push_bit 4 (drop_bit 4 d)) = unat d div 16 * 16"
    using unat_byte_less [of d]
    by (simp add: push_bit_eq_mult unat_word_ariths drop_bit_eq_div unat_div)
  ultimately have "d AND 0xF0 = 0xE0 \<longleftrightarrow> unat d div 16 * 16 = 224"
    by (simp add: word_unat_eq_iff)
  also have "\<dots> \<longleftrightarrow> 224 \<le> unat d \<and> unat d \<le> 239"
    by auto
  finally show ?thesis .
qed

lemma packet_to_flow_event_fields:
  "fe_src_ip (packet_to_flow_event pkt probe_id) = pe_src_ip pkt"
  "fe_dst_ip (packet_to_flow_event pkt probe_id) = pe_dst_ip pkt"
  "fe_src_port (packet_to_flow_event pkt probe_id) = pe_src_port pkt"
  "fe_dst_port (packet_to_flow_event pkt probe_id) = pe_dst_port pkt"
  "fe_bytes (packet_to_flow_event pkt probe_id) = ucast (pe_pkt_len pkt)"
  "fe_packets (packet_to_flow_event pkt probe_id) = 1"
  "fe_tcp_flags (packet_to_flow_event pkt probe_id) = pe_tcp_flags pkt"
  by (simp_all add: packet_to_flow_event_def Let_def detect_http_def)

section \<open>Properties\<close>

text \<open>
  C9: Parsing never reads outside the frame: for every buffer, every length up to the buffer's
  size and every output event, each of the reads of \<open>packet_parse_raw\<close> is inside the buffer,
  whatever the header length fields of the packet say.
\<close>

theorem packet_parse_raw_safe:
  "len \<le> int (length p) \<Longrightarrow> packet_parse_raw (Some p) len evt \<noteq> None"
  using parse_ipv4_safe [of len p] parse_ipv6_safe [of len p]
  by (auto simp: packet_parse_raw_def rd_def Let_def split: option.splits)

theorem packet_parse_raw_safe_witness:
  "14 \<le> int (length (replicate 14 (0::byte))) \<and>
   packet_parse_raw (Some (replicate 14 0)) 14 (Some zero_pkt_event) \<noteq> None"
  using packet_parse_raw_safe [of 14 "replicate 14 0" "Some zero_pkt_event"] by simp

text \<open>
  C10: Round trip for IPv4/TCP: a well-formed frame, with or without an 802.1Q tag and with any
  IP options, is accepted, and the event receives the addresses, ports and the six flag bits
  that were encoded; every other field of the event is unchanged.
\<close>

theorem parse_ipv4_tcp_frame:
  assumes "length macs = 12" "wf_ipv4 h opts" "v4_proto h = IPPROTO_TCP"
    and "f = eth_frame macs vlan ETH_P_IP (ipv4_hdr h opts @ tcp_hdr t @ payload)"
  shows "packet_parse_raw (Some f) (int (length f)) (Some e) =
     Some (1, Some (e\<lparr>pe_src_ip := addr4_mem (v4_src h), pe_dst_ip := addr4_mem (v4_dst h),
                      pe_protocol := IPPROTO_TCP, pe_ip_version := 4,
                      pe_src_port := th_source t, pe_dst_port := th_dest t,
                      pe_tcp_flags := th_flags t AND 0x3F\<rparr>))"
proof (rule packet_parse_raw_v4 [OF assms(1,4)])
  fix pre
  assume f: "f = pre @ ipv4_hdr h opts @ tcp_hdr t @ payload"
    and parse: "\<And>e. packet_parse_raw (Some f) (int (length f)) (Some e) =
      map_option (map_prod id Some) (parse_ipv4 f (int (length f)) (length pre) e)"
  show ?thesis
    unfolding parse parse_ipv4_transport [OF assms(2) refl f]
    by (simp add: assms(3) tcp_hdr_loads tcp_flags_v4_eq)
qed

theorem parse_ipv4_tcp_frame_witness:
  "packet_parse_raw (Some (eth_frame (replicate 12 1) (Some (0, 5)) ETH_P_IP
       (ipv4_hdr ex_ipv4 [1, 1, 1, 1] @ tcp_hdr ex_tcp @ [])))
     62 (Some zero_pkt_event) =
   Some (1, Some (zero_pkt_event\<lparr>pe_src_ip := le32 10 0 0 1, pe_dst_ip := le32 93 184 216 34,
     pe_protocol := 6, pe_ip_version := 4, pe_src_port := 40000, pe_dst_port := 80,
     pe_tcp_flags := 2\<rparr>))"
  using parse_ipv4_tcp_frame [of "replicate 12 1" ex_ipv4 "[1, 1, 1, 1]"
      "eth_frame (replicate 12 1) (Some (0, 5)) ETH_P_IP
       (ipv4_hdr ex_ipv4 [1, 1, 1, 1] @ tcp_hdr ex_tcp @ [])" "Some (0, 5)" ex_tcp "[]" zero_pkt_event]
  by (simp add: wf_ipv4_def ex_ipv4_def ex_tcp_def eth_frame_def u16_bytes_def ipv4_hdr_def)

text \<open>
  Round trip for IPv4/UDP and IPv4/ICMP: ports of a datagram, type of an ICMP message.
\<close>

theorem parse_ipv4_datagram_frame:
  assumes "length macs = 12" "wf_ipv4 h opts"
    and "f = eth_frame macs vlan ETH_P_IP (ipv4_hdr h opts @ tr @ payload)"
    and "v4_proto h = IPPROTO_UDP \<and> tr = udp_hdr sp dp l c \<or>
         v4_proto h = IPPROTO_ICMP \<and> tr = icmp_hdr ty code c r \<and> sp = 0 \<and> dp = ucast ty"
  shows "packet_parse_raw (Some f) (int (length f)) (Some e) =
     Some (1, Some (e\<lparr>pe_src_ip := addr4_mem (v4_src h), pe_dst_ip := addr4_mem (v4_dst h),
                      pe_protocol := v4_proto h, pe_ip_version := 4,
                      pe_src_port := sp, pe_dst_port := dp\<rparr>))"
proof (rule packet_parse_raw_v4 [OF assms(1,3)])
  fix pre
  assume f: "f = pre @ ipv4_hdr h opts @ tr @ payload"
    and parse: "\<And>e. packet_parse_raw (Some f) (int (length f)) (Some e) =
      map_option (map_prod id Some) (parse_ipv4 f (int (length f)) (length pre) e)"
  show ?thesis
    unfolding parse parse_ipv4_transport [OF assms(2) refl f]
    using assms(4) by (auto simp: udp_hdr_loads icmp_hdr_def)
qed

theorem parse_ipv4_datagram_frame_witness:
  "packet_parse_raw (Some (eth_frame (replicate 12 1) None ETH_P_IP
       (ipv4_hdr (ex_ipv4\<lparr>v4_proto := 17\<rparr>) [1, 1, 1, 1] @ udp_hdr 5353 53 12 0 @ [1, 2, 3, 4])))
     50 (Some zero_pkt_event) =
   Some (1, Some (zero_pkt_event\<lparr>pe_src_ip := le32 10 0 0 1, pe_dst_ip := le32 93 184 216 34,
     pe_protocol := 17, pe_ip_version := 4, pe_src_port := 5353, pe_dst_port := 53\<rparr>))"
  using parse_ipv4_datagram_frame [of "replicate 12 1" "ex_ipv4\<lparr>v4_proto := 17\<rparr>" "[1, 1, 1, 1]"
      "eth_frame (replicate 12 1) None ETH_P_IP
       (ipv4_hdr (ex_ipv4\<lparr>v4_proto := 17\<rparr>) [1, 1, 1, 1] @ udp_hdr 5353 53 12 0 @ [1, 2, 3, 4])"
      None "udp_hdr 5353 53 12 0" "[1, 2, 3, 4]" 5353 53 12 0 0 0 0 zero_pkt_event]
  by (simp add: wf_ipv4_def ex_ipv4_def eth_frame_def u16_bytes_def ipv4_hdr_def)

text \<open>
  C11: Round trip for IPv6/TCP: the 128-bit addresses are folded by XOR of their four words, and
  only the four flag bits FIN, SYN, RST and ACK survive.
\<close>

theorem parse_ipv6_tcp_frame:
  assumes "length macs = 12" "v6_next h = IPPROTO_TCP"
    and "f = eth_frame macs vlan ETH_P_IPV6 (ipv6_hdr h @ tcp_hdr t @ payload)"
  shows "packet_parse_raw (Some f) (int (length f)) (Some e) =
     Some (1, Some (e\<lparr>pe_src_ip := addr6_fold (v6_src h), pe_dst_ip := addr6_fold (v6_dst h),
                      pe_protocol := IPPROTO_TCP, pe_ip_version := 6,
                      pe_src_port := th_source t, pe_dst_port := th_dest t,
                      pe_tcp_flags := th_flags t AND 0x17\<rparr>))"
proof (rule packet_parse_raw_v6 [OF assms(1,3)])
  fix pre
  assume f: "f = pre @ ipv6_hdr h @ tcp_hdr t @ payload"
    and parse: "\<And>e. packet_parse_raw (Some f) (int (length f)) (Some e) =
      map_option (map_prod id Some) (parse_ipv6 f (int (length f)) (length pre) e)"
  show ?thesis
    unfolding parse parse_ipv6_transport [OF refl f]
    by (simp add: assms(2) tcp_hdr_loads tcp_flags_v6_eq)
qed

theorem parse_ipv6_tcp_frame_witness:
  "packet_parse_raw (Some (eth_frame (replicate 12 1) None ETH_P_IPV6
       (ipv6_hdr ex_ipv6 @ tcp_hdr ex_tcp @ []))) 74 (Some zero_pkt_event) =
   Some (1, Some (zero_pkt_event\<lparr>pe_src_ip := le32 0x20 1 0xd 0xb8 XOR le32 0 0 0 1,
     pe_dst_ip := le32 0x20 1 0xd 0xb8 XOR le32 0 0 0 2, pe_protocol := 6, pe_ip_version := 6,
     pe_src_port := 40000, pe_dst_port := 80, pe_tcp_flags := 2\<rparr>))"
  using parse_ipv6_tcp_frame [of "replicate 12 1" ex_ipv6
      "eth_frame (replicate 12 1) None ETH_P_IPV6 (ipv6_hdr ex_ipv6 @ tcp_hdr ex_tcp @ [])"
      None ex_tcp "[]" zero_pkt_event]
  by (simp add: ex_ipv6_def ex_tcp_def eth_frame_def u16_bytes_def le32_def)

text \<open>
  A non-first fragment (fragment offset not 0) is rejected without touching the event, since
  its transport header is not in this frame.
\<close>

theorem parse_ipv4_fragment_rejected:
  assumes "length macs = 12" "v4_frag h AND 0x1FFF \<noteq> 0"
    and "f = eth_frame macs vlan ETH_P_IP (ipv4_hdr h opts @ tr)"
  shows "packet_parse_raw (Some f) (int (length f)) (Some e) = Some (0, Some e)"
  by (rule packet_parse_raw_v4 [OF assms(1,3)]) (simp add: parse_ipv4_fragment assms(2))

theorem parse_ipv4_fragment_rejected_witness:
  "packet_parse_raw (Some (eth_frame (replicate 12 1) None ETH_P_IP
       (ipv4_hdr (ex_ipv4\<lparr>v4_frag := 0x2001\<rparr>) [] @ [1, 2, 3])))
     37 (Some zero_pkt_event) = Some (0, Some zero_pkt_event)"
  using parse_ipv4_fragment_rejected [of "replicate 12 1" "ex_ipv4\<lparr>v4_frag := 0x2001\<rparr>"
      "eth_frame (replicate 12 1) None ETH_P_IP
       (ipv4_hdr (ex_ipv4\<lparr>v4_frag := 0x2001\<rparr>) [] @ [1, 2, 3])" None "[]" "[1, 2, 3]"]
  by (simp add: ex_ipv4_def eth_frame_def u16_bytes_def ipv4_hdr_def)

text \<open>
  C12: Classification: the event is well-formed (every character array NUL-terminated), it carries
  the numeric fields of the packet, and its category, event type, service and tags, read back as
  C strings, are exactly those of the table \<open>classify\<close>: no label is truncated, overwritten or left
  from an earlier branch.
\<close>

theorem packet_to_flow_event_classify:
  "let f = packet_to_flow_event pkt probe_id in
     wf_flow_event f \<and>
     (cstr (fe_category f), cstr (fe_event_type f), cstr (fe_service f), cstr (fe_tags f)) = classify pkt \<and>
     (fe_src_ip f, fe_dst_ip f, fe_src_port f, fe_dst_port f) =
       (pe_src_ip pkt, pe_dst_ip pkt, pe_src_port pkt, pe_dst_port pkt) \<and>
     unat (fe_bytes f) = unat (pe_pkt_len pkt) \<and> fe_packets f = 1"
proof -
  have wf: "wf_flow_event (packet_to_flow_event pkt probe_id)"
    by (simp add: packet_to_flow_event_def Let_def wf_flow_event_def zero_flow_event_def
        detect_http_def)
  have cl: "(cstr (fe_category f), cstr (fe_event_type f), cstr (fe_service f), cstr (fe_tags f)) =
      classify pkt" if "f = packet_to_flow_event pkt probe_id" for f
  proof -
    note defs = packet_to_flow_event_def Let_def classify_def zero_flow_event_def
    consider (dns) "pe_protocol pkt = 17" "pe_src_port pkt = 53 \<or> pe_dst_port pkt = 53"
      | (icmp) "pe_protocol pkt = 1"
      | (other) "pe_protocol pkt \<noteq> 1" "\<not> (pe_protocol pkt = 17 \<and> (pe_src_port pkt = 53 \<or> pe_dst_port pkt = 53))"
      by blast
    then show ?thesis
    proof cases
      case dns
      then show ?thesis unfolding that by (auto simp: defs)
    next
      case icmp
      then show ?thesis unfolding that by (simp add: defs)
    next
      case other
      then show ?thesis unfolding that
        by (cases "IS_MULTICAST (pe_dst_ip pkt)") (auto simp: defs detect_http_def)
    qed
  qed
  show ?thesis
    using wf cl [OF refl] by (simp add: Let_def packet_to_flow_event_fields)
qed

text \<open>
  The multicast test looks at the wrong octet.  Addresses are kept in network byte order, so on
  the little-endian target the top byte of the word is the last octet of the address: the IPTV
  label is given exactly to destinations whose \<^emph>\<open>last\<close> octet lies in 224..239, and the group
  224.0.0.1 is not recognised.
\<close>

theorem multicast_tests_last_octet:
  "(IS_MULTICAST (addr4_mem (a, b, c, d)) \<longleftrightarrow> 224 \<le> unat d \<and> unat d \<le> 239) \<and>
   \<not> IS_MULTICAST (addr4_mem (224, 0, 0, 1)) \<and> IS_MULTICAST (addr4_mem (10, 0, 0, 224))"
  using octet_nibble [of d] octet_nibble [of 1] octet_nibble [of 224]
  by (simp add: IS_MULTICAST_le32)

end
