(* ===== verification/Table_Interfaces.thy ===== *)
theory Table_Interfaces
  imports Stb_Prelude
begin

text \<open>
  The interfaces that several components share, as locales.  \<open>slot_table\<close> is the find-or-create
  contract of the three tables of the program (flow records, port-scan sources, bandwidth
  records), which \<open>append_table\<close> refines for the last two, \<open>event_queue\<close> the contract of a bounded event buffer that drops what does not fit,
  \<open>step_system\<close> the contract of a state machine whose every step keeps an invariant,
  \<open>request_matcher\<close> the contract of the tables that pair responses with requests.  Each is
  interpreted on the model's definitions in the theory of the component that provides it.
\<close>

section \<open>Find-or-create tables\<close>

locale slot_table =
  fixes slots :: "'t \<Rightarrow> 's list"
    and active :: "'s \<Rightarrow> bool"
    and key :: "'s \<Rightarrow> 'k"
    and find :: "'t \<Rightarrow> 'k \<Rightarrow> nat option \<times> 't"
    and inv :: "'t \<Rightarrow> bool"
  assumes find_hit:
      "inv t \<Longrightarrow> i < length (slots t) \<Longrightarrow> active (slots t ! i) \<Longrightarrow> key (slots t ! i) = k \<Longrightarrow>
       find t k = (Some i, t)"
    and find_inv: "inv t \<Longrightarrow> find t k = (r, t') \<Longrightarrow> inv t'"
    and find_slot:
      "inv t \<Longrightarrow> find t k = (Some i, t') \<Longrightarrow>
       i < length (slots t') \<and> active (slots t' ! i) \<and> key (slots t' ! i) = k"
    and find_frame:
      "inv t \<Longrightarrow> find t k = (Some i, t') \<Longrightarrow>
       length (slots t') = length (slots t) \<and>
       (\<forall>j. j < length (slots t) \<longrightarrow> j \<noteq> i \<longrightarrow> slots t' ! j = slots t ! j)"
    and find_fresh:
      "inv t \<Longrightarrow> find t k = (Some i, t') \<Longrightarrow> active (slots t ! i) \<Longrightarrow> key (slots t ! i) = k \<and> t' = t"
    and find_full: "inv t \<Longrightarrow> find t k = (None, t') \<Longrightarrow> t' = t"
begin

definition keys :: "'t \<Rightarrow> 'k set" where
  "keys t = {key (slots t ! i) | i. i < length (slots t) \<and> active (slots t ! i)}"

lemma unique_slot:
  assumes "inv t" "i < length (slots t)" "j < length (slots t)"
    "active (slots t ! i)" "active (slots t ! j)" "key (slots t ! i) = key (slots t ! j)"
  shows "i = j"
proof -
  have "find t (key (slots t ! j)) = (Some i, t)" using assms by (intro find_hit) auto
  moreover have "find t (key (slots t ! j)) = (Some j, t)" using assms by (intro find_hit) auto
  ultimately show ?thesis by simp
qed

lemma find_idem:
  assumes "inv t" "find t k = (Some i, t')"
  shows "find t' k = (Some i, t')"
  using find_slot [OF assms] find_inv [OF assms] by (intro find_hit) auto

lemma find_stable:
  assumes "inv t" "find t k = (Some i, t')"
    and j: "j < length (slots t)" "active (slots t ! j)" "key (slots t ! j) = k'"
  shows "find t' k' = (Some j, t')"
proof (cases "j = i")
  case True
  with assms find_fresh [OF assms(1,2)] show ?thesis by (auto intro: find_hit)
next
  case False
  with assms find_frame [OF assms(1,2)] find_inv [OF assms(1,2)] show ?thesis
    by (intro find_hit) auto
qed

lemma keys_find:
  assumes "inv t" "find t k = (Some i, t')"
  shows "keys t' = insert k (keys t)"
proof -
  note fr = find_frame [OF assms] and sl = find_slot [OF assms]
  have same: "slots t' ! j = slots t ! j" if "j < length (slots t)" "j \<noteq> i" for j
    using fr that by blast
  show ?thesis
  proof (intro set_eqI iffI)
    fix x assume "x \<in> keys t'"
    then obtain j where j: "j < length (slots t')" "active (slots t' ! j)" "x = key (slots t' ! j)"
      by (auto simp: keys_def)
    show "x \<in> insert k (keys t)"
    proof (cases "j = i")
      case False
      with j fr same [of j] show ?thesis by (auto simp: keys_def)
    qed (use j sl in simp)
  next
    fix x assume "x \<in> insert k (keys t)"
    then consider "x = k" | j where "j < length (slots t)" "active (slots t ! j)" "x = key (slots t ! j)"
      by (auto simp: keys_def)
    then show "x \<in> keys t'"
    proof cases
      case 1
      with sl show ?thesis by (auto simp: keys_def)
    next
      case (2 j)
      show ?thesis
      proof (cases "j = i")
        case True
        with 2 find_fresh [OF assms] show ?thesis by (auto simp: keys_def)
      next
        case False
        with 2 fr have "j < length (slots t')" "active (slots t' ! j)" "x = key (slots t' ! j)"
          by simp_all
        then show ?thesis by (auto simp: keys_def)
      qed
    qed
  qed
qed

definition lookup :: "'t \<Rightarrow> 'k \<Rightarrow> 's option" where
  "lookup t k = map_option (\<lambda>i. slots t ! i) (find_idx (\<lambda>s. active s \<and> key s = k) (slots t))"

lemma slot_idx:
  assumes "inv t" "i < length (slots t)" "active (slots t ! i)" "key (slots t ! i) = k"
  shows "find_idx (\<lambda>s. active s \<and> key s = k) (slots t) = Some i"
  unfolding find_idx_Some
proof (intro conjI allI impI)
  fix j assume "j < i"
  with assms unique_slot [OF assms(1), of i j] show "\<not> (active (slots t ! j) \<and> key (slots t ! j) = k)" by auto
qed (use assms in simp_all)

lemma lookup_Some_iff:
  assumes "inv t"
  shows "lookup t k = Some s \<longleftrightarrow> (\<exists>i < length (slots t). active (slots t ! i) \<and> key (slots t ! i) = k \<and> slots t ! i = s)"
proof
  assume "lookup t k = Some s"
  then show "\<exists>i < length (slots t). active (slots t ! i) \<and> key (slots t ! i) = k \<and> slots t ! i = s"
    by (auto simp: lookup_def find_idx_Some)
next
  assume "\<exists>i < length (slots t). active (slots t ! i) \<and> key (slots t ! i) = k \<and> slots t ! i = s"
  then obtain i where i: "i < length (slots t)" "active (slots t ! i)" "key (slots t ! i) = k" "slots t ! i = s" by blast
  have "find_idx (\<lambda>s. active s \<and> key s = k) (slots t) = Some i"
    using assms i(1-3) by (rule slot_idx)
  with i show "lookup t k = Some s" by (simp add: lookup_def)
qed

lemma lookup_None_iff: "lookup t k = None \<longleftrightarrow> k \<notin> keys t"
  by (auto simp: lookup_def keys_def find_idx_None in_set_conv_nth; metis nth_mem)

lemma lookup_update:
  assumes "inv t" "i < length (slots t)" "active (slots t ! i)" "active s" "key s = key (slots t ! i)"
    "slots t' = (slots t)[i := s]"
  shows "lookup t' = (lookup t)(key s \<mapsto> s)"
proof
  fix k
  have "(active ((slots t)[i := s] ! j) \<and> key ((slots t)[i := s] ! j) = k) = (active (slots t ! j) \<and> key (slots t ! j) = k)"
    if "j < length (slots t)" for j using assms that by (cases "j = i") auto
  then have same: "find_idx (\<lambda>s. active s \<and> key s = k) (slots t') = find_idx (\<lambda>s. active s \<and> key s = k) (slots t)"
    unfolding assms(6) by (intro find_idx_cong) auto
  show "lookup t' k = ((lookup t)(key s \<mapsto> s)) k"
  proof (cases "k = key s")
    case True
    have "find_idx (\<lambda>s. active s \<and> key s = k) (slots t) = Some i"
      using assms True by (intro slot_idx) auto
    with True same assms show ?thesis by (simp add: lookup_def)
  next
    case False
    then have "\<And>j. find_idx (\<lambda>s. active s \<and> key s = k) (slots t) = Some j \<Longrightarrow> j \<noteq> i"
      using assms by (auto dest: find_idx_SomeD)
    with False same assms show ?thesis
      by (cases "find_idx (\<lambda>s. active s \<and> key s = k) (slots t)") (auto simp: lookup_def)
  qed
qed

lemma lookup_find:
  assumes "inv t" "find t k = (Some i, t')"
  shows "lookup t' = (lookup t)(k \<mapsto> slots t' ! i)"
proof
  fix k'
  note inv' = find_inv [OF assms] and slot = find_slot [OF assms] and frame = find_frame [OF assms]
  show "lookup t' k' = ((lookup t)(k \<mapsto> slots t' ! i)) k'"
  proof (cases "k' = k")
    case True
    have "lookup t' k = Some (slots t' ! i)" using slot by (auto simp: lookup_Some_iff [OF inv'])
    with True show ?thesis by simp
  next
    case False
    have "lookup t' k' = Some s \<longleftrightarrow> lookup t k' = Some s" for s
      unfolding lookup_Some_iff [OF inv'] lookup_Some_iff [OF assms(1)]
      using False slot frame find_fresh [OF assms] by metis
    then have "lookup t' k' = lookup t k'" by (metis option.exhaust)
    with False show ?thesis by simp
  qed
qed

lemma find_hit_lookup:
  assumes "inv t" "lookup t k = Some s" "find t k = (r, t')"
  shows "t' = t \<and> (\<exists>i < length (slots t). r = Some i \<and> slots t ! i = s)"
  using assms find_hit [OF assms(1)] by (auto simp: lookup_Some_iff [OF assms(1)])

lemma find_full_absent:
  assumes "inv t" "find t k = (None, t')"
  shows "k \<notin> keys t"
  using assms find_hit [OF assms(1)] by (auto simp: keys_def)

end

section \<open>Append-only tables\<close>

text \<open>
  A table whose first \<open>count\<close> slots are in use and which is extended at the end: the contract of
  the port-scan and the bandwidth table.  It gives the find-or-create contract.
\<close>

locale append_table =
  fixes slots :: "'t \<Rightarrow> 's list"
    and count :: "'t \<Rightarrow> nat"
    and cap :: nat
    and active :: "'s \<Rightarrow> bool"
    and key :: "'s \<Rightarrow> 'k"
    and claim :: "'s \<Rightarrow> 'k \<Rightarrow> 's"
    and find :: "'t \<Rightarrow> 'k \<Rightarrow> nat option \<times> 't"
    and inv :: "'t \<Rightarrow> bool"
  assumes layout:
      "inv t \<Longrightarrow> length (slots t) = cap \<and> count t \<le> cap \<and> (\<forall>i<cap. active (slots t ! i) \<longleftrightarrow> i < count t)"
    and uniq: "inv t \<Longrightarrow> distinct (map key (take (count t) (slots t)))"
    and claimed: "active (claim s k) \<and> key (claim s k) = k"
    and hit:
      "inv t \<Longrightarrow> find_idx (\<lambda>s. active s \<and> key s = k) (take (count t) (slots t)) = Some i \<Longrightarrow>
       find t k = (Some i, t)"
    and extend:
      "inv t \<Longrightarrow> find_idx (\<lambda>s. active s \<and> key s = k) (take (count t) (slots t)) = None \<Longrightarrow> count t < cap \<Longrightarrow>
       \<exists>t'. find t k = (Some (count t), t') \<and> inv t' \<and>
            slots t' = (slots t)[count t := claim (slots t ! count t) k]"
    and full:
      "inv t \<Longrightarrow> find_idx (\<lambda>s. active s \<and> key s = k) (take (count t) (slots t)) = None \<Longrightarrow> count t = cap \<Longrightarrow>
       find t k = (None, t)"
begin

lemma find_cases:
  assumes "inv t"
  obtains (Hit) i where "find t k = (Some i, t)" "i < count t" "i < cap" "active (slots t ! i)" "key (slots t ! i) = k"
  | (Extend) t' where "find t k = (Some (count t), t')" "inv t'" "count t < cap"
      "slots t' = (slots t)[count t := claim (slots t ! count t) k]"
      "\<forall>i < cap. active (slots t ! i) \<longrightarrow> key (slots t ! i) \<noteq> k"
  | (Full) "find t k = (None, t)" "\<forall>i < cap. active (slots t ! i) \<longrightarrow> key (slots t ! i) \<noteq> k"
proof (cases "find_idx (\<lambda>s. active s \<and> key s = k) (take (count t) (slots t))")
  case None
  have absent: "\<forall>i < cap. active (slots t ! i) \<longrightarrow> key (slots t ! i) \<noteq> k"
  proof (intro allI impI)
    fix i assume i: "i < cap" "active (slots t ! i)"
    with layout [OF assms] have "slots t ! i \<in> set (take (count t) (slots t))"
      by (auto simp: in_set_conv_nth)
    with None i show "key (slots t ! i) \<noteq> k" by (auto simp: find_idx_None)
  qed
  show thesis
  proof (cases "count t < cap")
    case True
    with extend [OF assms None] absent show thesis by (auto intro: that(2))
  next
    case False
    with layout [OF assms] full [OF assms None] absent show thesis by (auto intro: that(3))
  qed
next
  case (Some i)
  with layout [OF assms] find_idx_SomeD [OF Some] hit [OF assms Some] show thesis by (auto intro: that(1))
qed

lemma key_unique:
  assumes "inv t" "i < cap" "j < cap" "active (slots t ! i)" "active (slots t ! j)"
    "key (slots t ! i) = key (slots t ! j)"
  shows "i = j"
  using assms layout [OF assms(1)] uniq [OF assms(1)] by (auto simp: distinct_conv_nth)

end

sublocale append_table \<subseteq> slot_table slots active key find inv
proof
  fix t i k assume a: "inv t" "i < length (slots t)" "active (slots t ! i)" "key (slots t ! i) = k"
  show "find t k = (Some i, t)"
    by (rule find_cases [OF a(1), of k]) (use a layout [OF a(1)] key_unique [OF a(1)] in auto)
next
  fix t k r t' assume a: "inv t" "find t k = (r, t')"
  show "inv t'" by (rule find_cases [OF a(1), of k]) (use a in auto)
next
  fix t k i t' assume a: "inv t" "find t k = (Some i, t')"
  show "i < length (slots t') \<and> active (slots t' ! i) \<and> key (slots t' ! i) = k"
    by (rule find_cases [OF a(1), of k]) (use a layout [OF a(1)] claimed in auto)
next
  fix t k i t' assume a: "inv t" "find t k = (Some i, t')"
  show "length (slots t') = length (slots t) \<and>
      (\<forall>j. j < length (slots t) \<longrightarrow> j \<noteq> i \<longrightarrow> slots t' ! j = slots t ! j)"
    by (rule find_cases [OF a(1), of k]) (use a in auto)
next
  fix t k i t' assume a: "inv t" "find t k = (Some i, t')" "active (slots t ! i)"
  show "key (slots t ! i) = k \<and> t' = t"
    by (rule find_cases [OF a(1), of k]) (use a layout [OF a(1)] in auto)
next
  fix t k t' assume a: "inv t" "find t k = (None, t')"
  show "t' = t" by (rule find_cases [OF a(1), of k]) (use a in auto)
qed

section \<open>Bounded event buffers\<close>

locale event_queue =
  fixes contents :: "'q \<Rightarrow> 'e list"
    and capacity :: "'q \<Rightarrow> nat"
    and add :: "'q \<Rightarrow> 'e \<Rightarrow> 'q"
    and flush :: "'q \<Rightarrow> 'q"
    and inv :: "'q \<Rightarrow> bool"
  assumes add_inv: "inv q \<Longrightarrow> inv (add q e)"
    and add_capacity: "inv q \<Longrightarrow> capacity (add q e) = capacity q"
    and add_contents:
      "inv q \<Longrightarrow> contents (add q e) =
         (if length (contents q) < capacity q then contents q @ [e] else contents q)"
    and bounded: "inv q \<Longrightarrow> length (contents q) \<le> capacity q"
    and flush_contents: "inv q \<Longrightarrow> contents (flush q) = []"
begin

lemma adds_contents:
  "inv q \<Longrightarrow> contents (foldl add q es) = contents q @ take (capacity q - length (contents q)) es"
proof (induction es arbitrary: q)
  case Nil
  then show ?case by simp
next
  case (Cons e es)
  have le: "length (contents q) \<le> capacity q" using Cons.prems by (rule bounded)
  have "contents (foldl add (add q e) es) =
      contents (add q e) @ take (capacity (add q e) - length (contents (add q e))) es"
    using Cons by (simp add: add_inv)
  then show ?case
    using Cons.prems le
    by (cases "capacity q - length (contents q)")
       (auto simp: add_capacity add_contents Suc_diff_Suc diff_Suc)
qed

end

section \<open>State machines with an invariant\<close>

locale step_system =
  fixes step :: "'s \<Rightarrow> 's \<Rightarrow> bool"
    and inv :: "'s \<Rightarrow> bool"
  assumes step_inv: "step s s' \<Longrightarrow> inv s \<Longrightarrow> inv s'"
begin

lemma reach_inv: "step\<^sup>*\<^sup>* s s' \<Longrightarrow> inv s \<Longrightarrow> inv s'"
  by (induction rule: rtranclp_induct) (auto intro: step_inv)

end

section \<open>Pairing responses with requests\<close>

datatype ('k, 'a) match_op = Note 'k 'a | Take 'k | Expire int

locale request_matcher =
  fixes view :: "'t \<Rightarrow> 'k \<Rightarrow> 'v option"
    and entry :: "'k \<Rightarrow> 'a \<Rightarrow> 'v"
    and stamp :: "'v \<Rightarrow> int"
    and note_op :: "'k \<Rightarrow> 'a \<Rightarrow> 't \<Rightarrow> 't"
    and take_op :: "'k \<Rightarrow> 't \<Rightarrow> 't"
    and expire :: "int \<Rightarrow> 't \<Rightarrow> 't"
  assumes view_note: "view (note_op k a t) = (view t)(k \<mapsto> entry k a)"
    and view_take: "view (take_op k t) = (view t)(k := None)"
    and view_expire: "view (expire b t) k = (case view t k of None \<Rightarrow> None | Some v \<Rightarrow> if stamp v < b then None else Some v)"
begin

fun apply_op :: "('k, 'a) match_op \<Rightarrow> 't \<Rightarrow> 't" where
  "apply_op (Note k a) t = note_op k a t"
| "apply_op (Take k) t = take_op k t"
| "apply_op (Expire b) t = expire b t"

text \<open>An entry stays while nobody takes or replaces it and no expiry reaches its time stamp.\<close>

lemma entry_stays:
  assumes "view t k = Some v"
    and "\<forall>op \<in> set ops. case op of Note k' a \<Rightarrow> k' \<noteq> k | Take k' \<Rightarrow> k' \<noteq> k | Expire b \<Rightarrow> b \<le> stamp v"
  shows "view (fold apply_op ops t) k = Some v"
  using assms
proof (induction ops arbitrary: t)
  case (Cons op ops)
  then have "view (apply_op op t) k = Some v"
    by (cases op) (auto simp: view_note view_take view_expire)
  with Cons show ?case by simp
qed simp

text \<open>A key that is gone stays gone until it is noted again.\<close>

lemma gone_stays:
  assumes "view t k = None" "\<forall>a. Note k a \<notin> set ops"
  shows "view (fold apply_op ops t) k = None"
  using assms
proof (induction ops arbitrary: t)
  case (Cons op ops)
  then have "view (apply_op op t) k = None"
    by (cases op) (auto simp: view_note view_take view_expire)
  with Cons show ?case by simp
qed simp

lemma taken_once:
  assumes "\<forall>a. Note k a \<notin> set ops"
  shows "view (fold apply_op ops (take_op k t)) k = None"
  using assms by (intro gone_stays) (simp_all add: view_take)

lemma expired_gone:
  assumes "view t k = Some v" "stamp v < b" "\<forall>a. Note k a \<notin> set ops"
  shows "view (fold apply_op ops (expire b t)) k = None"
  using assms by (intro gone_stays) (simp_all add: view_expire)

lemma entry_noted:
  assumes "view (fold apply_op ops t) k = Some v"
  shows "view t k = Some v \<or> (\<exists>a. Note k a \<in> set ops \<and> v = entry k a)"
  using assms
proof (induction ops arbitrary: t)
  case (Cons op ops)
  from Cons.IH [of "apply_op op t"] Cons.prems
  have "view (apply_op op t) k = Some v \<or> (\<exists>a. Note k a \<in> set ops \<and> v = entry k a)" by simp
  then show ?case
    by (cases op) (auto simp: view_note view_take view_expire split: if_split_asm option.split_asm)
qed simp

end

end
