(* ===== verification/Flow_Tracker.thy ===== *)
theory Flow_Tracker
  imports Stb_Common Table_Interfaces
begin

text \<open>
  \<open>src/flow_tracker.c\<close>: the table of flow records, the event buffer and the TCP sequence checks.
  The record array, the event array and the static array of \<open>flow_tracker_check_tcp_retransmit\<close>
  are lists of fixed length; \<open>active\<close> is a boolean.  Every call of \<open>now_ns()\<close> is an argument: \<open>ts\<close>
  for the reading at the start of an operation and \<open>now\<close> for the one inside \<open>find_record\<close>.
  \<open>ft_inv\<close> is the invariant, \<open>ft_abs\<close> the abstract view as a map from flow keys to flow values.
\<close>

section \<open>State\<close>

record flow_record =
  fr_key :: flow_key_t
  fr_value :: flow_value_t
  fr_prev_rx_queue :: u64
  fr_prev_tx_queue :: u64
  fr_active :: bool

record flow_tracker =
  ft_records :: "flow_record list"
  ft_max_flows :: nat
  ft_events :: "flow_event_t list"
  ft_event_count :: nat
  ft_max_events :: nat
  ft_active_count :: int

definition zero_flow_record :: flow_record where
  "zero_flow_record = \<lparr>fr_key = zero_flow_key, fr_value = zero_flow_value, fr_prev_rx_queue = 0,
     fr_prev_tx_queue = 0, fr_active = False\<rparr>"

definition now_ns :: "u64 \<Rightarrow> u64 \<Rightarrow> u64" where
  "now_ns tv_sec tv_nsec = tv_sec * 1000000000 + tv_nsec"

section \<open>Operations\<close>

text \<open>The three \<open>calloc\<close> calls may fail; \<open>alloc i\<close> says whether the \<open>i\<close>-th succeeds.\<close>

definition flow_tracker_create :: "(nat \<Rightarrow> bool) \<Rightarrow> nat \<Rightarrow> flow_tracker ptr" where
  "flow_tracker_create alloc max_flows =
     (if \<not> alloc 0 then None
      else if \<not> alloc 1 \<or> \<not> alloc 2 then None
      else Some \<lparr>ft_records = replicate max_flows zero_flow_record, ft_max_flows = max_flows,
                 ft_events = replicate (max_flows * 2) zero_flow_event, ft_event_count = 0,
                 ft_max_events = max_flows * 2, ft_active_count = 0\<rparr>)"

definition find_record :: "u64 \<Rightarrow> flow_tracker \<Rightarrow> flow_key_t \<Rightarrow> nat option \<times> flow_tracker" where
  "find_record now ft key =
     (case find_idx (\<lambda>r. fr_active r \<and> fr_key r = key) (take (ft_max_flows ft) (ft_records ft)) of
        Some i \<Rightarrow> (Some i, ft)
      | None \<Rightarrow>
          (case find_idx (\<lambda>r. \<not> fr_active r) (take (ft_max_flows ft) (ft_records ft)) of
             Some i \<Rightarrow>
               let r = ft_records ft ! i;
                   r = r\<lparr>fr_key := key, fr_active := True,
                         fr_value := (fr_value r)\<lparr>fv_first_seen_ns := now\<rparr>\<rparr>
               in (Some i, ft\<lparr>ft_records := (ft_records ft)[i := r],
                              ft_active_count := ft_active_count ft + 1\<rparr>)
           | None \<Rightarrow> (None, ft)))"

definition add_event :: "flow_tracker \<Rightarrow> flow_event_t \<Rightarrow> flow_tracker" where
  "add_event ft ev =
     (if ft_event_count ft < ft_max_events ft then
        ft\<lparr>ft_events := (ft_events ft)[ft_event_count ft := ev],
           ft_event_count := ft_event_count ft + 1\<rparr>
      else ft)"

definition set_record :: "flow_tracker \<Rightarrow> nat \<Rightarrow> flow_record \<Rightarrow> flow_tracker" where
  "set_record ft i r = ft\<lparr>ft_records := (ft_records ft)[i := r]\<rparr>"

text \<open>The \<open>switch\<close> on the protocol number and the event both update functions build.\<close>

definition proto_switch :: "u8 \<Rightarrow> cbuf \<Rightarrow> cbuf" where
  "proto_switch protocol buf =
     (if protocol = 6 then set_field buf PROTO_TCP
      else if protocol = 17 then set_field buf PROTO_UDP
      else if protocol = 1 then set_field buf PROTO_ICMP
      else print_field buf (show_word protocol))"

definition flow_event_of ::
  "u64 \<Rightarrow> flow_key_t \<Rightarrow> u8 \<Rightarrow> u64 \<Rightarrow> string option \<Rightarrow> flow_event_t" where
  "flow_event_of ts key protocol bytes probe_id =
     (let ev = zero_flow_event\<lparr>fe_timestamp_ns := ts\<rparr>;
          ev = (case probe_id of None \<Rightarrow> ev
                | Some s \<Rightarrow> ev\<lparr>fe_probe_id := set_field (fe_probe_id ev) s\<rparr>);
          ev = ev\<lparr>fe_category := set_field (fe_category ev) CAT_NETWORK,
                  fe_event_type := set_field (fe_event_type ev) EVT_FLOW,
                  fe_src_ip := fk_src_ip key, fe_dst_ip := fk_dst_ip key,
                  fe_src_port := fk_src_port key, fe_dst_port := fk_dst_port key,
                  fe_bytes := bytes, fe_packets := 1,
                  fe_protocol := proto_switch protocol (fe_protocol ev)\<rparr>
      in if IS_MULTICAST (fk_dst_ip key) then
           ev\<lparr>fe_tags := set_field (fe_tags ev) ''iptv,multicast'',
              fe_service := set_field (fe_service ev) ''IPTV''\<rparr>
         else ev)"

definition entry_key :: "proc_net_entry \<Rightarrow> flow_key_t" where
  "entry_key e = zero_flow_key\<lparr>fk_src_ip := pn_local_ip e, fk_dst_ip := pn_remote_ip e,
     fk_src_port := pn_local_port e, fk_dst_port := pn_remote_port e, fk_protocol := pn_protocol e\<rparr>"

definition queue_delta :: "u64 \<Rightarrow> u64 \<Rightarrow> u64" where
  "queue_delta queue prev = (if prev \<le> queue then queue - prev else 0)"

text \<open>The body of the loop of \<open>flow_tracker_update\<close> for one \<open>/proc/net\<close> entry.\<close>

definition update_entry :: "u64 \<Rightarrow> u64 \<Rightarrow> flow_tracker \<Rightarrow> proc_net_entry \<Rightarrow> flow_tracker" where
  "update_entry ts now ft e =
     (case find_record now ft (entry_key e) of
        (None, ft) \<Rightarrow> ft
      | (Some i, ft) \<Rightarrow>
          let r = ft_records ft ! i;
              rx_delta = queue_delta (pn_rx_queue e) (fr_prev_rx_queue r);
              tx_delta = queue_delta (pn_tx_queue e) (fr_prev_tx_queue r);
              delta_bytes = rx_delta + tx_delta;
              v = fr_value r;
              r = r\<lparr>fr_prev_rx_queue := pn_rx_queue e, fr_prev_tx_queue := pn_tx_queue e,
                    fr_value := v\<lparr>fv_bytes := fv_bytes v + delta_bytes,
                                  fv_packets := fv_packets v + (if delta_bytes > 0 then 1 else 0),
                                  fv_last_seen_ns := ts\<rparr>\<rparr>;
              ft = set_record ft i r
          in if delta_bytes > 0 then
               add_event ft (flow_event_of ts (entry_key e) (pn_protocol e) delta_bytes None)
             else ft)"

text \<open>\<open>now i\<close> is the clock reading inside \<open>find_record\<close> in iteration \<open>i\<close>.\<close>

fun update_loop ::
  "u64 \<Rightarrow> (nat \<Rightarrow> u64) \<Rightarrow> nat \<Rightarrow> flow_tracker \<Rightarrow> proc_net_entry list \<Rightarrow> flow_tracker" where
  "update_loop ts now i ft [] = ft"
| "update_loop ts now i ft (e # es) = update_loop ts now (Suc i) (update_entry ts (now i) ft e) es"

definition flow_tracker_update ::
  "u64 \<Rightarrow> (nat \<Rightarrow> u64) \<Rightarrow> flow_tracker \<Rightarrow> proc_net_entry list \<Rightarrow> int \<times> flow_tracker" where
  "flow_tracker_update ts now ft entries = (0, update_loop ts now 0 ft entries)"

definition flow_tracker_update_single ::
  "u64 \<Rightarrow> u64 \<Rightarrow> flow_tracker \<Rightarrow> flow_key_t \<Rightarrow> u64 \<Rightarrow> string \<Rightarrow> flow_tracker" where
  "flow_tracker_update_single ts now ft key bytes probe_id =
     (case find_record now ft key of
        (None, ft) \<Rightarrow> ft
      | (Some i, ft) \<Rightarrow>
          let r = ft_records ft ! i;
              v = fr_value r;
              r = r\<lparr>fr_value := v\<lparr>fv_bytes := fv_bytes v + bytes, fv_packets := fv_packets v + 1,
                                  fv_last_seen_ns := ts\<rparr>\<rparr>;
              ft = set_record ft i r
          in add_event ft (flow_event_of ts key (fk_protocol key) bytes (Some probe_id)))"

text \<open>Copies the pending events into the caller's array of \<open>max_events\<close> elements.\<close>

definition flow_tracker_get_events ::
  "flow_tracker \<Rightarrow> flow_event_t list \<Rightarrow> nat \<Rightarrow> nat \<times> flow_event_t list" where
  "flow_tracker_get_events ft events max_events =
     (let n = (if ft_event_count ft < max_events then ft_event_count ft else max_events)
      in (n, take n (ft_events ft) @ drop n events))"

definition flow_tracker_flush :: "flow_tracker \<Rightarrow> flow_tracker" where
  "flow_tracker_flush ft = ft\<lparr>ft_event_count := 0\<rparr>"

definition stale :: "u64 \<Rightarrow> u64 \<Rightarrow> flow_record \<Rightarrow> bool" where
  "stale ts max_age r \<longleftrightarrow>
     fr_active r \<and> fv_last_seen_ns (fr_value r) > 0 \<and> ts - fv_last_seen_ns (fr_value r) > max_age"

text \<open>The loop over the records: deactivates the stale ones and counts them.\<close>

fun cleanup_loop :: "u64 \<Rightarrow> u64 \<Rightarrow> flow_record list \<Rightarrow> flow_record list \<times> int" where
  "cleanup_loop ts max_age [] = ([], 0)"
| "cleanup_loop ts max_age (r # rs) =
     (let (rs', cleaned) = cleanup_loop ts max_age rs
      in if stale ts max_age r then (r\<lparr>fr_active := False\<rparr> # rs', cleaned + 1)
         else (r # rs', cleaned))"

definition flow_tracker_cleanup :: "u64 \<Rightarrow> flow_tracker ptr \<Rightarrow> u64 \<Rightarrow> flow_tracker ptr" where
  "flow_tracker_cleanup ts ft max_age =
     map_option (\<lambda>ft.
       let (rs, cleaned) = cleanup_loop ts max_age (take (ft_max_flows ft) (ft_records ft))
       in ft\<lparr>ft_records := rs @ drop (ft_max_flows ft) (ft_records ft),
             ft_active_count := ft_active_count ft - cleaned\<rparr>) ft"

definition flow_tracker_get_stats :: "flow_tracker \<Rightarrow> int ptr \<Rightarrow> int ptr \<Rightarrow> int ptr \<times> int ptr" where
  "flow_tracker_get_stats ft active_flows total_events =
     (map_option (\<lambda>_. ft_active_count ft) active_flows,
      map_option (\<lambda>_. int (ft_event_count ft)) total_events)"

section \<open>TCP retransmissions\<close>

text \<open>The function's static variables.  \<open>flow_idx\<close> is a C \<open>int\<close>.\<close>

record retx_statics =
  last_ack_per_flow :: "u32 list"
  flow_idx :: int

definition init_statics :: retx_statics where
  "init_statics = \<lparr>last_ack_per_flow = replicate 4096 0, flow_idx = 0\<rparr>"

definition upd_value :: "flow_tracker \<Rightarrow> nat \<Rightarrow> (flow_value_t \<Rightarrow> flow_value_t) \<Rightarrow> flow_tracker" where
  "upd_value ft i f =
     (let r = ft_records ft ! i in set_record ft i (r\<lparr>fr_value := f (fr_value r)\<rparr>))"

text \<open>
  The pure-ACK block.  A negative \<open>flow_idx\<close> would index the array out of bounds and an increment
  beyond \<open>INT_MAX\<close> is undefined: both are \<open>None\<close>.
\<close>

definition check_pure_ack ::
  "retx_statics \<Rightarrow> flow_tracker \<Rightarrow> nat \<Rightarrow> u32 \<Rightarrow> (int \<times> retx_statics \<times> flow_tracker) ub" where
  "check_pure_ack st ft i seq_num =
     (if flow_idx st < 0 \<or> INT_MAX \<le> flow_idx st then None
      else
        let idx = nat (flow_idx st mod 4096);
            dup = last_ack_per_flow st ! idx = seq_num \<and> seq_num \<noteq> 0;
            ft = (if dup then upd_value ft i (\<lambda>v. v\<lparr>fv_dup_acks := fv_dup_acks v + 1\<rparr>) else ft)
        in Some (if dup then 1 else 0,
                 \<lparr>last_ack_per_flow = (last_ack_per_flow st)[idx := seq_num],
                  flow_idx = flow_idx st + 1\<rparr>, ft))"

text \<open>Result: return value, \<open>*is_retransmit\<close>, \<open>*is_dup_ack\<close>, statics, tracker.\<close>

definition check_retransmit ::
  "u64 \<Rightarrow> retx_statics \<Rightarrow> flow_tracker \<Rightarrow> flow_key_t \<Rightarrow> u32 \<Rightarrow> u16 \<Rightarrow> u8 \<Rightarrow>
   (int \<times> int \<times> int \<times> retx_statics \<times> flow_tracker) ub" where
  "check_retransmit now st ft key seq_num pkt_len tcp_flags =
     (case find_record now ft key of
        (None, ft) \<Rightarrow> Some (-1, 0, 0, st, ft)
      | (Some i, ft) \<Rightarrow>
          let consumes_seq = (tcp_flags AND TCP_FLAG_SYN \<noteq> 0 \<or> tcp_flags AND TCP_FLAG_FIN \<noteq> 0);
              has_ack = (tcp_flags AND TCP_FLAG_ACK \<noteq> 0);
              has_data = ((pkt_len > 0 \<and> \<not> has_ack) \<or> (pkt_len > 0 \<and> has_ack));
              expected = fv_seq_expected (fr_value (ft_records ft ! i))
          in if consumes_seq then
               (if expected = 0 then
                  Some (0, 0, 0, st, upd_value ft i (\<lambda>v. v\<lparr>fv_seq_expected := seq_num + 1\<rparr>))
                else
                  Some (0, 0, 0, st, upd_value ft i (\<lambda>v. v\<lparr>fv_seq_expected := seq_num + 1\<rparr>)))
             else if (has_data \<or> (\<not> has_ack \<and> pkt_len > 0)) \<and> expected \<noteq> 0 \<and> seq_num < expected then
               Some (0, 1, 0, st, upd_value ft i (\<lambda>v. v\<lparr>fv_retransmits := fv_retransmits v + 1\<rparr>))
             else
               let ft = (if (has_data \<or> (\<not> has_ack \<and> pkt_len > 0)) \<and> pkt_len > 0
                         then upd_value ft i (\<lambda>v. v\<lparr>fv_seq_expected := seq_num + ucast pkt_len\<rparr>)
                         else ft)
               in if has_ack \<and> pkt_len = 0 then
                    map_option (\<lambda>(dup, st, ft). (0, 0, dup, st, ft)) (check_pure_ack st ft i seq_num)
                  else Some (0, 0, 0, st, ft))"

definition flow_tracker_check_tcp_retransmit ::
  "u64 \<Rightarrow> retx_statics \<Rightarrow> flow_tracker ptr \<Rightarrow> flow_key_t ptr \<Rightarrow> u32 \<Rightarrow> u16 \<Rightarrow> u8 \<Rightarrow> int ptr \<Rightarrow> int ptr \<Rightarrow>
   (int \<times> int ptr \<times> int ptr \<times> retx_statics \<times> flow_tracker ptr) ub" where
  "flow_tracker_check_tcp_retransmit now st ft key seq_num pkt_len tcp_flags is_retransmit is_dup_ack =
     (case (ft, key, is_retransmit, is_dup_ack) of
        (Some t, Some k, Some _, Some _) \<Rightarrow>
          map_option (\<lambda>(ret, retx, dup, st, t). (ret, Some retx, Some dup, st, Some t))
            (check_retransmit now st t k seq_num pkt_len tcp_flags)
      | _ \<Rightarrow> Some (-1, is_retransmit, is_dup_ack, st, ft))"

section \<open>Invariant and abstract view\<close>

definition ft_inv :: "flow_tracker \<Rightarrow> bool" where
  "ft_inv ft \<longleftrightarrow>
     length (ft_records ft) = ft_max_flows ft \<and>
     length (ft_events ft) = ft_max_events ft \<and> ft_max_events ft = ft_max_flows ft * 2 \<and>
     ft_event_count ft \<le> ft_max_events ft \<and>
     ft_active_count ft = int (length (filter fr_active (ft_records ft))) \<and>
     (\<forall>i < length (ft_records ft). \<forall>j < length (ft_records ft).
        fr_active (ft_records ft ! i) \<longrightarrow> fr_active (ft_records ft ! j) \<longrightarrow>
        fr_key (ft_records ft ! i) = fr_key (ft_records ft ! j) \<longrightarrow> i = j) \<and>
     (\<forall>e \<in> set (take (ft_event_count ft) (ft_events ft)). wf_flow_event e)"

definition ft_abs :: "flow_tracker \<Rightarrow> flow_key_t \<Rightarrow> flow_value_t option" where
  "ft_abs ft k =
     map_option (\<lambda>i. fr_value (ft_records ft ! i))
       (find_idx (\<lambda>r. fr_active r \<and> fr_key r = k) (ft_records ft))"

definition pending :: "flow_tracker \<Rightarrow> flow_event_t list" where
  "pending ft = take (ft_event_count ft) (ft_events ft)"

definition claim_slot :: "u64 \<Rightarrow> flow_tracker \<Rightarrow> flow_key_t \<Rightarrow> nat \<Rightarrow> flow_tracker" where
  "claim_slot now ft k i =
     ft\<lparr>ft_records := (ft_records ft)[i := (ft_records ft ! i)\<lparr>fr_key := k, fr_active := True,
          fr_value := (fr_value (ft_records ft ! i))\<lparr>fv_first_seen_ns := now\<rparr>\<rparr>],
        ft_active_count := ft_active_count ft + 1\<rparr>"

text \<open>One packet's worth of traffic added to a flow value; the invariant of the event buffer alone.\<close>

definition bump :: "u64 \<Rightarrow> u64 \<Rightarrow> flow_value_t \<Rightarrow> flow_value_t" where
  "bump ts b v = v\<lparr>fv_bytes := fv_bytes v + b, fv_packets := fv_packets v + 1, fv_last_seen_ns := ts\<rparr>"

definition evq_inv :: "flow_tracker \<Rightarrow> bool" where
  "evq_inv ft \<longleftrightarrow> length (ft_events ft) = ft_max_events ft \<and> ft_event_count ft \<le> ft_max_events ft"

text \<open>A batch of packets for \<open>flow_tracker_update_single\<close>: clock readings, key and size.\<close>

type_synonym packet = "(u64 \<times> u64) \<times> flow_key_t \<times> u64"

fun track :: "string \<Rightarrow> flow_tracker \<Rightarrow> packet \<Rightarrow> flow_tracker" where
  "track pid ft ((ts, now), k, b) = flow_tracker_update_single ts now ft k b pid"

text \<open>Abstract accounting: bytes and packets per key.\<close>

fun account :: "(flow_key_t \<Rightarrow> (u64 \<times> u64) option) \<Rightarrow> packet \<Rightarrow> (flow_key_t \<Rightarrow> (u64 \<times> u64) option)" where
  "account m (_, k, b) = m(k \<mapsto> (case m k of None \<Rightarrow> (b, 1) | Some (b0, p0) \<Rightarrow> (b0 + b, p0 + 1)))"

definition counters :: "flow_tracker \<Rightarrow> flow_key_t \<Rightarrow> (u64 \<times> u64) option" where
  "counters ft k = map_option (\<lambda>v. (fv_bytes v, fv_packets v)) (ft_abs ft k)"

definition fresh_slots :: "flow_tracker \<Rightarrow> bool" where
  "fresh_slots ft \<longleftrightarrow>
     (\<forall>r \<in> set (ft_records ft). \<not> fr_active r \<longrightarrow> fv_bytes (fr_value r) = 0 \<and> fv_packets (fr_value r) = 0)"

text \<open>
  The tracker as a state machine: one step is one call of one operation, with whatever the clock
  and the arguments are.  The state includes the static variables of
  \<open>flow_tracker_check_tcp_retransmit\<close>.
\<close>

inductive ft_step :: "retx_statics \<times> flow_tracker \<Rightarrow> retx_statics \<times> flow_tracker \<Rightarrow> bool" where
  update: "flow_tracker_update ts now ft entries = (r, ft') \<Longrightarrow> ft_step (st, ft) (st, ft')"
| update_single: "ft_step (st, ft) (st, flow_tracker_update_single ts t ft k b pid)"
| flush: "ft_step (st, ft) (st, flow_tracker_flush ft)"
| cleanup: "flow_tracker_cleanup ts (Some ft) age = Some ft' \<Longrightarrow> ft_step (st, ft) (st, ft')"
| check: "flow_tracker_check_tcp_retransmit t st (Some ft) k seq len flags (Some r) (Some d) =
            Some (ret, r', d', st', Some ft') \<Longrightarrow> ft_step (st, ft) (st', ft')"

definition ft_state_inv :: "retx_statics \<times> flow_tracker \<Rightarrow> bool" where
  "ft_state_inv s \<longleftrightarrow> ft_inv (snd s) \<and> length (last_ack_per_flow (fst s)) = 4096 \<and>
     0 \<le> flow_idx (fst s) \<and> flow_idx (fst s) \<le> INT_MAX"

definition packet_event :: "string \<Rightarrow> packet \<Rightarrow> flow_event_t" where
  "packet_event pid p = flow_event_of (fst (fst p)) (fst (snd p)) (fk_protocol (fst (snd p))) (snd (snd p)) (Some pid)"

definition ex_ft :: flow_tracker where
  "ex_ft = the (flow_tracker_create (\<lambda>_. True) 2)"

definition ex_key :: "u16 \<Rightarrow> flow_key_t" where
  "ex_key port = zero_flow_key\<lparr>fk_src_port := port, fk_dst_port := 80, fk_protocol := 6, fk_ip_version := 4\<rparr>"

definition ex_ft1 :: flow_tracker where
  "ex_ft1 = flow_tracker_update_single 50 40 ex_ft (ex_key 1000) 100 ''p''"

definition stale_value :: "u64 \<Rightarrow> u64 \<Rightarrow> flow_value_t \<Rightarrow> bool" where
  "stale_value ts age v \<longleftrightarrow> fv_last_seen_ns v > 0 \<and> ts - fv_last_seen_ns v > age"

text \<open>A segment that carries data: neither SYN nor FIN, with payload.\<close>

definition data_segment :: "u16 \<Rightarrow> u8 \<Rightarrow> bool" where
  "data_segment len flags \<longleftrightarrow> len > 0 \<and> flags AND TCP_FLAG_SYN = 0 \<and> flags AND TCP_FLAG_FIN = 0"

text \<open>A sequence of calls of the sequence check, collecting the reported \<open>is_dup_ack\<close> values.\<close>

type_synonym seq_check = "u64 \<times> flow_key_t \<times> u32 \<times> u16 \<times> u8"

fun run_checks :: "retx_statics \<Rightarrow> flow_tracker \<Rightarrow> seq_check list \<Rightarrow> (int list \<times> retx_statics \<times> flow_tracker) ub" where
  "run_checks st ft [] = Some ([], st, ft)"
| "run_checks st ft ((now, k, seq, len, flags) # cs) =
     do { (ret, retx, dup, st, ft) \<leftarrow> check_retransmit now st ft k seq len flags;
          (dups, st, ft) \<leftarrow> run_checks st ft cs;
          Some (dup # dups, st, ft) }"

text \<open>\<open>n\<close> is a bound on the entries of the ACK array that are in use.\<close>

definition acks_below :: "nat \<Rightarrow> retx_statics \<Rightarrow> bool" where
  "acks_below n st \<longleftrightarrow> length (last_ack_per_flow st) = 4096 \<and> 0 \<le> flow_idx st \<and> flow_idx st \<le> int n \<and>
     (\<forall>j < 4096. flow_idx st \<le> int j \<longrightarrow> last_ack_per_flow st ! j = 0)"

section \<open>Lemmas\<close>

lemma ft_invD:
  assumes "ft_inv ft"
  shows "length (ft_records ft) = ft_max_flows ft"
    and "length (ft_events ft) = ft_max_events ft"
    and "ft_max_events ft = ft_max_flows ft * 2"
    and "ft_event_count ft \<le> ft_max_events ft"
    and "ft_active_count ft = int (length (filter fr_active (ft_records ft)))"
    and "\<And>i j. i < length (ft_records ft) \<Longrightarrow> j < length (ft_records ft) \<Longrightarrow>
           fr_active (ft_records ft ! i) \<Longrightarrow> fr_active (ft_records ft ! j) \<Longrightarrow>
           fr_key (ft_records ft ! i) = fr_key (ft_records ft ! j) \<Longrightarrow> i = j"
    and "\<And>e. e \<in> set (pending ft) \<Longrightarrow> wf_flow_event e"
  using assms unfolding ft_inv_def pending_def by (blast+)

lemma find_record_cases:
  assumes "ft_inv ft"
  obtains (hit) i where "find_record now ft k = (Some i, ft)" "i < length (ft_records ft)"
      "fr_active (ft_records ft ! i)" "fr_key (ft_records ft ! i) = k"
    | (claim) i where "find_record now ft k = (Some i, claim_slot now ft k i)"
      "i < length (ft_records ft)" "\<not> fr_active (ft_records ft ! i)"
      "\<And>j. j < length (ft_records ft) \<Longrightarrow> fr_active (ft_records ft ! j) \<Longrightarrow> fr_key (ft_records ft ! j) \<noteq> k"
    | (full) "find_record now ft k = (None, ft)"
      "\<And>j. j < length (ft_records ft) \<Longrightarrow> fr_active (ft_records ft ! j) \<and> fr_key (ft_records ft ! j) \<noteq> k"
proof (cases "find_idx (\<lambda>r. fr_active r \<and> fr_key r = k) (ft_records ft)")
  case (Some i)
  then show thesis
    using ft_invD(1) [OF assms]
    by (intro hit [of i]) (auto simp: find_record_def dest: find_idx_SomeD)
next
  case None
  then have no: "\<And>j. j < length (ft_records ft) \<Longrightarrow> fr_active (ft_records ft ! j) \<Longrightarrow> fr_key (ft_records ft ! j) \<noteq> k"
    by (auto simp: find_idx_None)
  show thesis
  proof (cases "find_idx (\<lambda>r. \<not> fr_active r) (ft_records ft)")
    case (Some i)
    with None no show thesis
      using ft_invD(1) [OF assms]
      by (intro claim [of i]) (auto simp: find_record_def claim_slot_def Let_def dest: find_idx_SomeD)
  next
    case free: None
    show thesis
    proof (rule full)
      show "find_record now ft k = (None, ft)"
        by (simp add: find_record_def None free flip: ft_invD(1) [OF assms])
      fix j assume "j < length (ft_records ft)"
      then show "fr_active (ft_records ft ! j) \<and> fr_key (ft_records ft ! j) \<noteq> k"
        using no free by (auto simp: find_idx_None)
    qed
  qed
qed

lemma ft_inv_claim:
  assumes "ft_inv ft" "i < length (ft_records ft)" "\<not> fr_active (ft_records ft ! i)"
    and "\<And>j. j < length (ft_records ft) \<Longrightarrow> fr_active (ft_records ft ! j) \<Longrightarrow> fr_key (ft_records ft ! j) \<noteq> k"
  shows "ft_inv (claim_slot now ft k i)"
  using assms length_filter_update [OF assms(2), of fr_active
      "(ft_records ft ! i)\<lparr>fr_key := k, fr_active := True,
          fr_value := (fr_value (ft_records ft ! i))\<lparr>fv_first_seen_ns := now\<rparr>\<rparr>"]
  unfolding ft_inv_def claim_slot_def by (auto simp: nth_list_update)

lemma ft_inv_set_record:
  assumes "ft_inv ft" "i < length (ft_records ft)"
    "fr_key r = fr_key (ft_records ft ! i)" "fr_active r = fr_active (ft_records ft ! i)"
  shows "ft_inv (set_record ft i r)"
  using assms length_filter_update [OF assms(2), of fr_active r]
  unfolding ft_inv_def set_record_def by (auto simp: nth_list_update split: if_splits)

lemma ft_inv_add_event: "ft_inv ft \<Longrightarrow> wf_flow_event ev \<Longrightarrow> ft_inv (add_event ft ev)"
  by (auto simp: ft_inv_def add_event_def take_Suc_conv_app_nth)

lemma wf_flow_event_of [simp]: "wf_flow_event (flow_event_of ts k p b pid)"
  by (auto simp: flow_event_of_def wf_flow_event_def zero_flow_event_def Let_def proto_switch_def
      split: option.splits)

interpretation flow_slots: slot_table ft_records fr_active fr_key "find_record now" ft_inv for now
proof unfold_locales
  fix t i k assume a: "ft_inv t" "i < length (ft_records t)" "fr_active (ft_records t ! i)"
    "fr_key (ft_records t ! i) = k"
  show "find_record now t k = (Some i, t)"
    by (rule find_record_cases [OF a(1), of now k]) (use a ft_invD(6) [OF a(1)] in auto)
next
  fix t k r t' assume a: "ft_inv t" "find_record now t k = (r, t')"
  show "ft_inv t'"
    by (rule find_record_cases [OF a(1), of now k]) (use a in \<open>auto intro: ft_inv_claim\<close>)
next
  fix t k i t' assume "ft_inv t" "find_record now t k = (Some i, t')"
  then show "i < length (ft_records t') \<and> fr_active (ft_records t' ! i) \<and> fr_key (ft_records t' ! i) = k"
    by (cases rule: find_record_cases [where now = now and k = k]) (auto simp: claim_slot_def)
next
  fix t k i t' assume "ft_inv t" "find_record now t k = (Some i, t')"
  then show "length (ft_records t') = length (ft_records t) \<and>
      (\<forall>j. j < length (ft_records t) \<longrightarrow> j \<noteq> i \<longrightarrow> ft_records t' ! j = ft_records t ! j)"
    by (cases rule: find_record_cases [where now = now and k = k]) (auto simp: claim_slot_def)
next
  fix t k i t' assume "ft_inv t" "find_record now t k = (Some i, t')" "fr_active (ft_records t ! i)"
  then show "fr_key (ft_records t ! i) = k \<and> t' = t"
    by (cases rule: find_record_cases [where now = now and k = k]) auto
next
  fix t k t' assume "ft_inv t" "find_record now t k = (None, t')"
  then show "t' = t"
    by (cases rule: find_record_cases [where now = now and k = k]) auto
qed

lemma pending_add_event:
  assumes "ft_inv ft"
  shows "pending (add_event ft ev) =
    (if length (pending ft) < ft_max_events ft then pending ft @ [ev] else pending ft)"
  using ft_invD(2,4) [OF assms]
  by (auto simp: pending_def add_event_def take_Suc_conv_app_nth)

lemma length_pending: "ft_inv ft \<Longrightarrow> length (pending ft) = ft_event_count ft"
  using ft_invD(2,4) by (simp add: pending_def)

lemma ft_inv_update_single:
  assumes "ft_inv ft"
  shows "ft_inv (flow_tracker_update_single ts now ft k b pid)"
proof (cases "find_record now ft k")
  case (Pair r ft')
  note inv' = flow_slots.find_inv [OF assms Pair]
  show ?thesis
  proof (cases r)
    case None
    with Pair inv' show ?thesis by (simp add: flow_tracker_update_single_def)
  next
    case (Some i)
    with Pair flow_slots.find_slot [OF assms, of now k i ft'] inv' show ?thesis
      by (simp add: flow_tracker_update_single_def Let_def ft_inv_add_event ft_inv_set_record)
  qed
qed

lemma ft_inv_update_entry:
  assumes "ft_inv ft"
  shows "ft_inv (update_entry ts now ft e)"
proof (cases "find_record now ft (entry_key e)")
  case (Pair r ft')
  note inv' = flow_slots.find_inv [OF assms Pair]
  show ?thesis
  proof (cases r)
    case None
    with Pair inv' show ?thesis by (simp add: update_entry_def)
  next
    case (Some i)
    with Pair flow_slots.find_slot [OF assms, of now "entry_key e" i ft'] inv' show ?thesis
      by (simp add: update_entry_def Let_def ft_inv_add_event ft_inv_set_record)
  qed
qed

lemma ft_inv_update_loop: "ft_inv ft \<Longrightarrow> ft_inv (update_loop ts now i ft es)"
  by (induction ts now i ft es rule: update_loop.induct) (auto intro: ft_inv_update_entry)

lemma ft_inv_flush: "ft_inv ft \<Longrightarrow> ft_inv (flow_tracker_flush ft)"
  by (auto simp: ft_inv_def flow_tracker_flush_def)

lemma cleanup_loop_spec:
  "cleanup_loop ts a rs = (map (\<lambda>r. if stale ts a r then r\<lparr>fr_active := False\<rparr> else r) rs,
     int (length (filter (stale ts a) rs)))"
  by (induction rs) auto

lemma ft_inv_cleanup:
  assumes "ft_inv ft" "flow_tracker_cleanup ts (Some ft) a = Some ft'"
  shows "ft_inv ft'"
proof -
  let ?f = "\<lambda>r. if stale ts a r then r\<lparr>fr_active := False\<rparr> else r"
  have ft': "ft' = ft\<lparr>ft_records := map ?f (ft_records ft),
      ft_active_count := ft_active_count ft - int (length (filter (stale ts a) (ft_records ft)))\<rparr>"
    using assms(2) ft_invD(1) [OF assms(1)]
    by (simp add: flow_tracker_cleanup_def cleanup_loop_spec)
  have "int (length (filter fr_active (map ?f rs))) =
      int (length (filter fr_active rs)) - int (length (filter (stale ts a) rs))" for rs
    by (induction rs) (auto simp: stale_def)
  with ft' assms(1) show ?thesis
    unfolding ft_inv_def by (auto split: if_splits)
qed

lemma ft_inv_upd_value: "ft_inv ft \<Longrightarrow> i < length (ft_records ft) \<Longrightarrow> ft_inv (upd_value ft i f)"
  by (simp add: upd_value_def Let_def ft_inv_set_record)

lemma ft_inv_create: "flow_tracker_create alloc n = Some ft \<Longrightarrow> ft_inv ft"
  by (auto simp: flow_tracker_create_def ft_inv_def zero_flow_record_def split: if_splits)

lemma ft_inv_check_retransmit:
  assumes "ft_inv ft" "check_retransmit now st ft k seq len flags = Some (ret, retx, dup, st', ft')"
  shows "ft_inv ft'"
proof (cases "find_record now ft k")
  case (Pair r ft1)
  note inv1 = flow_slots.find_inv [OF assms(1) Pair]
  show ?thesis
  proof (cases r)
    case None
    with Pair inv1 assms(2) show ?thesis by (simp add: check_retransmit_def)
  next
    case (Some i)
    then have "i < length (ft_records ft1)"
      using Pair flow_slots.find_slot [OF assms(1), of now k i ft1] by simp
    with Pair Some inv1 assms(2) show ?thesis
      by (auto simp: check_retransmit_def check_pure_ack_def Let_def ft_inv_upd_value
          split: if_splits)
  qed
qed

interpretation flow_events: event_queue pending ft_max_events add_event flow_tracker_flush evq_inv
  by unfold_locales
     (auto simp: evq_inv_def pending_def add_event_def flow_tracker_flush_def take_Suc_conv_app_nth)

lemma ft_abs_slot:
  assumes "ft_inv ft" "i < length (ft_records ft)" "fr_active (ft_records ft ! i)"
  shows "ft_abs ft (fr_key (ft_records ft ! i)) = Some (fr_value (ft_records ft ! i))"
proof -
  have "\<not> (fr_active (ft_records ft ! j) \<and> fr_key (ft_records ft ! j) = fr_key (ft_records ft ! i))"
    if "j < i" for j
    using ft_invD(6) [OF assms(1), of j i] that assms by auto
  then have "find_idx (\<lambda>r. fr_active r \<and> fr_key r = fr_key (ft_records ft ! i)) (ft_records ft) = Some i"
    using assms by (simp add: find_idx_Some)
  then show ?thesis by (simp add: ft_abs_def)
qed

lemma ft_abs_SomeE:
  assumes "ft_abs ft k = Some v"
  obtains i where "i < length (ft_records ft)" "fr_active (ft_records ft ! i)"
    "fr_key (ft_records ft ! i) = k" "v = fr_value (ft_records ft ! i)"
  using assms by (auto simp: ft_abs_def dest: find_idx_SomeD)

lemma ft_abs_None_iff:
  "ft_abs ft k = None \<longleftrightarrow>
    (\<forall>j < length (ft_records ft). fr_active (ft_records ft ! j) \<longrightarrow> fr_key (ft_records ft ! j) \<noteq> k)"
  by (auto simp: ft_abs_def find_idx_None all_set_conv_all_nth)

lemma ft_abs_events [simp]: "ft_abs (add_event ft ev) = ft_abs ft" "ft_abs (flow_tracker_flush ft) = ft_abs ft"
  by (simp_all add: ft_abs_def add_event_def flow_tracker_flush_def fun_eq_iff)

lemma ft_abs_set_value:
  assumes "ft_inv ft" "i < length (ft_records ft)" "fr_active (ft_records ft ! i)"
  shows "ft_abs (set_record ft i ((ft_records ft ! i)\<lparr>fr_value := v\<rparr>)) =
    (ft_abs ft)(fr_key (ft_records ft ! i) \<mapsto> v)"
proof
  fix k
  let ?r = "ft_records ft ! i" and ?ft = "set_record ft i ((ft_records ft ! i)\<lparr>fr_value := v\<rparr>)"
  have inv: "ft_inv ?ft" using assms by (intro ft_inv_set_record) auto
  have rec: "ft_records ?ft ! j = (if j = i then ?r\<lparr>fr_value := v\<rparr> else ft_records ft ! j)"
    if "j < length (ft_records ft)" for j
    using that by (simp add: set_record_def)
  have len: "length (ft_records ?ft) = length (ft_records ft)" by (simp add: set_record_def)
  show "ft_abs ?ft k = ((ft_abs ft)(fr_key ?r \<mapsto> v)) k"
  proof (cases "k = fr_key ?r")
    case True
    with ft_abs_slot [OF inv, of i] assms rec [of i] len show ?thesis by simp
  next
    case False
    show ?thesis
    proof (cases "ft_abs ft k")
      case None
      then have "ft_abs ?ft k = None"
        using False rec len unfolding ft_abs_None_iff by auto
      with None False show ?thesis by simp
    next
      case (Some w)
      then obtain j where j: "j < length (ft_records ft)" "fr_active (ft_records ft ! j)"
        "fr_key (ft_records ft ! j) = k" "w = fr_value (ft_records ft ! j)"
        by (rule ft_abs_SomeE)
      then have "j \<noteq> i" using False by auto
      with j False rec [of j] len ft_abs_slot [OF inv, of j] Some show ?thesis by simp
    qed
  qed
qed

lemma ft_abs_claim:
  assumes "ft_inv ft" "i < length (ft_records ft)" "\<not> fr_active (ft_records ft ! i)" "ft_abs ft k = None"
  shows "ft_abs (claim_slot now ft k i) =
    (ft_abs ft)(k \<mapsto> (fr_value (ft_records ft ! i))\<lparr>fv_first_seen_ns := now\<rparr>)"
proof
  fix k'
  let ?ft = "claim_slot now ft k i"
  have inv: "ft_inv ?ft" using assms by (intro ft_inv_claim) (auto simp: ft_abs_None_iff)
  have len: "length (ft_records ?ft) = length (ft_records ft)" by (simp add: claim_slot_def)
  have rec: "ft_records ?ft ! j = (if j = i then (ft_records ft ! i)\<lparr>fr_key := k, fr_active := True,
          fr_value := (fr_value (ft_records ft ! i))\<lparr>fv_first_seen_ns := now\<rparr>\<rparr> else ft_records ft ! j)"
    if "j < length (ft_records ft)" for j
    using that by (simp add: claim_slot_def)
  show "ft_abs ?ft k' = ((ft_abs ft)(k \<mapsto> (fr_value (ft_records ft ! i))\<lparr>fv_first_seen_ns := now\<rparr>)) k'"
  proof (cases "k' = k")
    case True
    with ft_abs_slot [OF inv, of i] assms(2) rec [of i] len show ?thesis by simp
  next
    case False
    show ?thesis
    proof (cases "ft_abs ft k'")
      case None
      then have "ft_abs ?ft k' = None"
        using False rec len unfolding ft_abs_None_iff by auto
      with None False show ?thesis by simp
    next
      case (Some w)
      then obtain j where j: "j < length (ft_records ft)" "fr_active (ft_records ft ! j)"
        "fr_key (ft_records ft ! j) = k'" "w = fr_value (ft_records ft ! j)"
        by (rule ft_abs_SomeE)
      then have "j \<noteq> i" using assms(3) by auto
      with j False rec [of j] len ft_abs_slot [OF inv, of j] Some show ?thesis by simp
    qed
  qed
qed

lemma update_single_hit:
  assumes "ft_inv ft" "i < length (ft_records ft)" "fr_active (ft_records ft ! i)"
  shows "ft_abs (add_event (set_record ft i ((ft_records ft ! i)\<lparr>fr_value := bump ts b (fr_value (ft_records ft ! i))\<rparr>)) ev) =
    (ft_abs ft)(fr_key (ft_records ft ! i) \<mapsto> bump ts b (fr_value (ft_records ft ! i)))"
  using ft_abs_set_value [OF assms] by simp

lemma update_single_unfold:
  "flow_tracker_update_single ts now ft key b pid =
     (case find_record now ft key of
        (None, ft) \<Rightarrow> ft
      | (Some i, ft) \<Rightarrow>
          add_event (set_record ft i ((ft_records ft ! i)\<lparr>fr_value := bump ts b (fr_value (ft_records ft ! i))\<rparr>))
            (flow_event_of ts key (fk_protocol key) b (Some pid)))"
  by (simp add: flow_tracker_update_single_def bump_def Let_def split: prod.splits option.splits)

lemma update_single_some:
  assumes "ft_inv ft" "ft_abs ft k = Some v"
  shows "ft_abs (flow_tracker_update_single ts now ft k b pid) = (ft_abs ft)(k \<mapsto> bump ts b v)"
proof -
  from assms(2) obtain i where i: "i < length (ft_records ft)" "fr_active (ft_records ft ! i)"
    "fr_key (ft_records ft ! i) = k" "v = fr_value (ft_records ft ! i)"
    by (rule ft_abs_SomeE)
  have "find_record now ft k = (Some i, ft)"
    using assms(1) i by (intro flow_slots.find_hit) auto
  with i update_single_hit [OF assms(1) i(1,2)] show ?thesis
    by (simp add: update_single_unfold)
qed

lemma find_record_claim:
  assumes "ft_inv ft" "ft_abs ft k = None" "find_idx (\<lambda>r. \<not> fr_active r) (ft_records ft) = Some i"
  shows "find_record now ft k = (Some i, claim_slot now ft k i)"
proof -
  have "find_idx (\<lambda>r. fr_active r \<and> fr_key r = k) (ft_records ft) = None"
    using assms(2) by (simp add: ft_abs_def)
  then show ?thesis
    using assms(3) by (simp add: find_record_def claim_slot_def Let_def flip: ft_invD(1) [OF assms(1)])
qed

lemma update_single_none:
  assumes "ft_inv ft" "ft_abs ft k = None" "find_idx (\<lambda>r. \<not> fr_active r) (ft_records ft) = Some i"
  shows "ft_abs (flow_tracker_update_single ts now ft k b pid) =
    (ft_abs ft)(k \<mapsto> bump ts b ((fr_value (ft_records ft ! i))\<lparr>fv_first_seen_ns := now\<rparr>))"
proof -
  note find = find_record_claim [OF assms, of now]
  let ?ft = "claim_slot now ft k i"
  have i: "i < length (ft_records ft)" "\<not> fr_active (ft_records ft ! i)"
    using find_idx_SomeD [OF assms(3)] by auto
  have inv1: "ft_inv ?ft" using assms(1) find by (rule flow_slots.find_inv)
  have r: "ft_records ?ft ! i = (ft_records ft ! i)\<lparr>fr_key := k, fr_active := True,
        fr_value := (fr_value (ft_records ft ! i))\<lparr>fv_first_seen_ns := now\<rparr>\<rparr>" "i < length (ft_records ?ft)"
    using i by (simp_all add: claim_slot_def)
  have "ft_abs (flow_tracker_update_single ts now ft k b pid) =
      (ft_abs ?ft)(k \<mapsto> bump ts b (fr_value (ft_records ?ft ! i)))"
    using update_single_hit [OF inv1 r(2), of ts b] r find by (simp add: update_single_unfold)
  with ft_abs_claim [OF assms(1) i assms(2)] r show ?thesis by simp
qed

lemma update_single_full:
  assumes "ft_inv ft" "ft_abs ft k = None" "list_all fr_active (ft_records ft)"
  shows "flow_tracker_update_single ts now ft k b pid = ft"
proof -
  have "find_record now ft k = (None, ft)"
    by (rule find_record_cases [OF assms(1), of now k])
       (use assms in \<open>auto simp: ft_abs_None_iff list_all_length\<close>)
  then show ?thesis by (simp add: flow_tracker_update_single_def)
qed

lemma dom_ft_abs:
  "dom (ft_abs ft) = (\<lambda>i. fr_key (ft_records ft ! i)) ` {i. i < length (ft_records ft) \<and> fr_active (ft_records ft ! i)}"
proof -
  have "k \<in> dom (ft_abs ft) \<longleftrightarrow> (\<exists>i < length (ft_records ft). fr_active (ft_records ft ! i) \<and> fr_key (ft_records ft ! i) = k)" for k
    using ft_abs_None_iff [of ft k] by auto
  then show ?thesis by (intro set_eqI) (auto simp: image_iff)
qed

lemma card_dom_ft_abs:
  assumes "ft_inv ft"
  shows "finite (dom (ft_abs ft))" "int (card (dom (ft_abs ft))) = ft_active_count ft"
proof -
  let ?A = "{i. i < length (ft_records ft) \<and> fr_active (ft_records ft ! i)}"
  show "finite (dom (ft_abs ft))" by (simp add: dom_ft_abs)
  have "inj_on (\<lambda>i. fr_key (ft_records ft ! i)) ?A"
    using ft_invD(6) [OF assms] by (auto simp: inj_on_def)
  then have "card (dom (ft_abs ft)) = card ?A"
    unfolding dom_ft_abs by (rule card_image)
  also have "\<dots> = length (filter fr_active (ft_records ft))"
    by (simp add: length_filter_conv_card)
  finally show "int (card (dom (ft_abs ft))) = ft_active_count ft"
    using ft_invD(5) [OF assms] by simp
qed

lemma free_slot_exists:
  assumes "ft_inv ft" "card (dom (ft_abs ft)) < ft_max_flows ft"
  obtains i where "find_idx (\<lambda>r. \<not> fr_active r) (ft_records ft) = Some i"
proof (cases "find_idx (\<lambda>r. \<not> fr_active r) (ft_records ft)")
  case None
  then have "filter fr_active (ft_records ft) = ft_records ft"
    by (simp add: find_idx_None)
  with card_dom_ft_abs(2) [OF assms(1)] ft_invD(1,5) [OF assms(1)] assms(2) show thesis by simp
qed (use that in blast)

lemma max_flows_update_single [simp]:
  "ft_max_flows (flow_tracker_update_single ts now ft k b pid) = ft_max_flows ft"
  by (simp add: flow_tracker_update_single_def find_record_def add_event_def set_record_def Let_def
      split: prod.splits option.splits)

lemma fresh_slots_update_single:
  assumes "ft_inv ft" "fresh_slots ft"
  shows "fresh_slots (flow_tracker_update_single ts now ft k b pid)"
proof -
  have set_active: "fresh_slots (set_record ft i r)" if "fresh_slots ft" "fr_active r" for ft i r
    using that set_update_subset_insert [of "ft_records ft" i r]
    by (fastforce simp: fresh_slots_def set_record_def)
  have ev: "fresh_slots (add_event ft ev) = fresh_slots ft" for ft ev
    by (simp add: fresh_slots_def add_event_def)
  show ?thesis
  proof (rule find_record_cases [OF assms(1), of now k])
    fix i assume "find_record now ft k = (Some i, ft)" "fr_active (ft_records ft ! i)"
    with assms(2) show ?thesis by (simp add: update_single_unfold ev set_active)
  next
    fix i assume a: "find_record now ft k = (Some i, claim_slot now ft k i)" "i < length (ft_records ft)"
    have "fresh_slots (claim_slot now ft k i)"
      using assms(2) set_update_subset_insert [of "ft_records ft" i]
      by (fastforce simp: fresh_slots_def claim_slot_def)
    with a show ?thesis by (simp add: update_single_unfold ev set_active claim_slot_def)
  next
    assume "find_record now ft k = (None, ft)"
    with assms(2) show ?thesis by (simp add: update_single_unfold)
  qed
qed

lemma counters_update_single:
  assumes "ft_inv ft" "fresh_slots ft" "card (insert k (dom (ft_abs ft))) \<le> ft_max_flows ft"
  shows "counters (flow_tracker_update_single ts now ft k b pid) = account (counters ft) (t, k, b)"
proof (cases "ft_abs ft k")
  case (Some v)
  with update_single_some [OF assms(1) Some] show ?thesis
    by (simp add: counters_def fun_eq_iff bump_def)
next
  case None
  then have "card (dom (ft_abs ft)) < ft_max_flows ft"
    using assms(3) card_dom_ft_abs(1) [OF assms(1)] by (simp add: card_insert_if domIff)
  with assms(1) obtain i where i: "find_idx (\<lambda>r. \<not> fr_active r) (ft_records ft) = Some i"
    by (rule free_slot_exists)
  then have "fv_bytes (fr_value (ft_records ft ! i)) = 0" "fv_packets (fr_value (ft_records ft ! i)) = 0"
    using assms(2) find_idx_SomeD [OF i] by (auto simp: fresh_slots_def)
  with update_single_none [OF assms(1) None i] None show ?thesis
    by (simp add: counters_def fun_eq_iff bump_def)
qed

lemma dom_counters: "dom (counters ft) = dom (ft_abs ft)"
  by (auto simp: counters_def dom_def)

lemma dom_account: "dom (account m p) = insert (fst (snd p)) (dom m)"
  by (cases p) auto

lemma track_account:
  assumes "ft_inv ft" "fresh_slots ft"
    "card (dom (counters ft) \<union> (fst \<circ> snd) ` set ps) \<le> ft_max_flows ft"
  shows "counters (foldl (track pid) ft ps) = foldl account (counters ft) ps"
  using assms
proof (induction ps arbitrary: ft)
  case Nil
  then show ?case by simp
next
  case (Cons p ps)
  obtain ts now k b where p: "p = ((ts, now), k, b)" by (cases p) auto
  let ?ft = "flow_tracker_update_single ts now ft k b pid"
  have "card (insert k (dom (ft_abs ft))) \<le> card (dom (counters ft) \<union> (fst \<circ> snd) ` set (p # ps))"
    using card_dom_ft_abs(1) [OF Cons.prems(1)] by (intro card_mono) (auto simp: p dom_counters)
  then have step: "counters ?ft = account (counters ft) p"
    using Cons.prems counters_update_single [of ft k ts now b pid "(ts, now)"] by (simp add: p)
  have "dom (counters ?ft) \<union> (fst \<circ> snd) ` set ps = dom (counters ft) \<union> (fst \<circ> snd) ` set (p # ps)"
    unfolding step dom_account by (auto simp: p)
  then have "counters (foldl (track pid) ?ft ps) = foldl account (counters ?ft) ps"
    using Cons.prems by (intro Cons.IH) (simp_all add: ft_inv_update_single fresh_slots_update_single)
  then show ?case by (simp add: p step)
qed

lemma account_sums:
  "foldl account m ps k =
     (let qs = filter (\<lambda>p. fst (snd p) = k) ps
      in if qs = [] then m k
         else (case m k of
                 None \<Rightarrow> Some (sum_list (map (snd \<circ> snd) qs), of_nat (length qs))
               | Some (b0, p0) \<Rightarrow> Some (b0 + sum_list (map (snd \<circ> snd) qs), p0 + of_nat (length qs))))"
proof (induction ps arbitrary: m)
  case Nil
  then show ?case by (simp add: Let_def)
next
  case (Cons p ps)
  obtain t k' b where p: "p = (t, k', b)" by (cases p) auto
  show ?case
    by (auto simp: p Cons.IH Let_def ac_simps split: option.splits)
qed

inductive_cases ft_stepE: "ft_step (st, ft) s"

lemma statics_check_retransmit:
  assumes "check_retransmit now st ft k seq len flags = Some (ret, retx, dup, st', ft')"
    "length (last_ack_per_flow st) = 4096" "0 \<le> flow_idx st" "flow_idx st \<le> INT_MAX"
  shows "length (last_ack_per_flow st') = 4096 \<and> 0 \<le> flow_idx st' \<and> flow_idx st' \<le> INT_MAX"
  using assms
  by (auto simp: check_retransmit_def check_pure_ack_def Let_def split: if_splits prod.splits option.splits)

interpretation ft_machine: step_system ft_step ft_state_inv
proof
  fix s s' assume "ft_step s s'" "ft_state_inv s"
  then show "ft_state_inv s'"
  proof (induction rule: ft_step.induct)
    case (check t st ft k seq len flags r d ret r' d' st' ft')
    then consider "st' = st" "ft' = ft" | key retx dup where
      "check_retransmit t st ft key seq len flags = Some (ret, retx, dup, st', ft')"
      by (auto simp: flow_tracker_check_tcp_retransmit_def split: option.splits)
    then show ?case
    proof cases
      case 2
      with check.prems ft_inv_check_retransmit [OF _ 2] statics_check_retransmit [OF 2] show ?thesis
        by (simp add: ft_state_inv_def)
    qed (use check.prems in simp)
  next
    case (cleanup ts ft age ft' st)
    then show ?case by (simp add: ft_state_inv_def ft_inv_cleanup [of ft ts age ft'])
  qed (auto simp: ft_state_inv_def flow_tracker_update_def ft_inv_update_loop ft_inv_update_single ft_inv_flush)
qed

lemma ex_key_inject [simp]: "ex_key a = ex_key b \<longleftrightarrow> a = b"
  by (simp add: ex_key_def zero_flow_key_def)

lemma ft_inv_ex: "ft_inv ex_ft"
  by (rule ft_inv_create [of "\<lambda>_. True" 2]) (simp add: ex_ft_def flow_tracker_create_def)

lemma ft_inv_ex1: "ft_inv ex_ft1"
  unfolding ex_ft1_def by (intro ft_inv_update_single ft_inv_ex)

lemma fresh_slots_create:
  "flow_tracker_create alloc n = Some ft \<Longrightarrow>
   fresh_slots ft \<and> ft_abs ft = Map.empty \<and> ft_max_flows ft = n \<and> ft_max_events ft = n * 2 \<and> ft_event_count ft = 0"
  by (auto simp: flow_tracker_create_def fresh_slots_def ft_abs_None_iff zero_flow_record_def
      zero_flow_value_def fun_eq_iff split: if_splits)

lemma ex_ft_simps [simp]: "ft_abs ex_ft = Map.empty" "ft_max_flows ex_ft = 2" "fresh_slots ex_ft"
  using fresh_slots_create [of "\<lambda>_. True" 2 ex_ft] by (simp_all add: ex_ft_def flow_tracker_create_def)

lemma ex_ft_slot: "find_idx (\<lambda>r. \<not> fr_active r) (ft_records ex_ft) = Some 0"
    "fr_value (ft_records ex_ft ! 0) = zero_flow_value"
  by (simp_all add: ex_ft_def flow_tracker_create_def zero_flow_record_def numeral_2_eq_2)

lemma ex_ft1_abs:
  "ft_abs ex_ft1 = [ex_key 1000 \<mapsto> bump 50 100 (zero_flow_value\<lparr>fv_first_seen_ns := 40\<rparr>)]"
  unfolding ex_ft1_def by (subst update_single_none [OF ft_inv_ex _ ex_ft_slot(1)]) (simp_all add: ex_ft_slot)

text \<open>
  C13: Starting from a tracker that \<open>flow_tracker_create\<close> returns, no sequence of calls leaves the
  invariant: both arrays keep their allocated size, the event count stays within the event
  array, \<open>active_count\<close> is the number of active slots, no key is in two active slots, every
  queued event has terminated strings, and the static ACK array is always indexed within bounds.
\<close>

theorem flow_tracker_reachable_inv:
  assumes "flow_tracker_create alloc n = Some ft" "ft_step\<^sup>*\<^sup>* (init_statics, ft) (st', ft')"
  shows "ft_inv ft' \<and> length (last_ack_per_flow st') = 4096 \<and> 0 \<le> flow_idx st'"
proof -
  have "ft_state_inv (init_statics, ft)"
    using ft_inv_create [OF assms(1)] by (simp add: ft_state_inv_def init_statics_def)
  with assms(2) have "ft_state_inv (st', ft')" by (rule ft_machine.reach_inv)
  then show ?thesis by (simp add: ft_state_inv_def)
qed

theorem flow_tracker_reachable_inv_witness:
  "ft_inv (flow_tracker_flush (flow_tracker_update_single 50 40 ex_ft (ex_key 1000) 100 ''p''))"
proof -
  have "ft_step\<^sup>*\<^sup>* (init_statics, ex_ft)
      (init_statics, flow_tracker_flush (flow_tracker_update_single 50 40 ex_ft (ex_key 1000) 100 ''p''))"
    by (meson ft_step.update_single ft_step.flush rtranclp.rtrancl_refl rtranclp.rtrancl_into_rtrancl)
  moreover have "flow_tracker_create (\<lambda>_. True) 2 = Some ex_ft"
    by (simp add: ex_ft_def flow_tracker_create_def)
  ultimately show ?thesis using flow_tracker_reachable_inv by blast
qed

text \<open>
  C14: \<open>flow_tracker_update_single\<close> refines an update of the abstract map of flows: a known flow
  gains the bytes and one packet and its last-seen time; an unknown flow takes the first free
  slot; when no slot is free the call changes nothing, not even the event buffer.
\<close>

theorem update_single_refines:
  assumes "ft_inv ft" "ft' = flow_tracker_update_single ts now ft k b pid"
  shows "(\<forall>v. ft_abs ft k = Some v \<longrightarrow> ft_abs ft' = (ft_abs ft)(k \<mapsto> bump ts b v)) \<and>
    (\<forall>i. ft_abs ft k = None \<longrightarrow> find_idx (\<lambda>r. \<not> fr_active r) (ft_records ft) = Some i \<longrightarrow>
       ft_abs ft' = (ft_abs ft)(k \<mapsto>
         bump ts b ((fr_value (ft_records ft ! i))\<lparr>fv_first_seen_ns := now\<rparr>))) \<and>
    (ft_abs ft k = None \<longrightarrow> list_all fr_active (ft_records ft) \<longrightarrow> ft' = ft)"
  using assms update_single_some update_single_none update_single_full by simp

theorem update_single_refines_witness:
  "ft_abs (flow_tracker_update_single 50 40 ex_ft (ex_key 1000) 100 ''p'') (ex_key 1000) =
     Some (bump 50 100 (zero_flow_value\<lparr>fv_first_seen_ns := 40\<rparr>))"
proof -
  show ?thesis
    using update_single_refines [OF ft_inv_ex refl, of "ex_key 1000" 50 40 100 "''p''"] ex_ft_slot by simp
qed

text \<open>
  C15: Conservation of traffic.  After any batch of packets on a fresh tracker with at most
  \<open>max_flows\<close> different flows, the byte counter of every flow is the sum of its packets' sizes
  and the packet counter their number (both modulo \<open>2^64\<close>), and no other flow is in the table.
\<close>

theorem traffic_conserved:
  assumes "flow_tracker_create alloc n = Some ft" "card ((fst \<circ> snd) ` set ps) \<le> n"
  shows "counters (foldl (track pid) ft ps) k =
    (let qs = filter (\<lambda>p. fst (snd p) = k) ps
     in if qs = [] then None else Some (sum_list (map (snd \<circ> snd) qs), of_nat (length qs)))"
proof -
  have empty: "counters ft = Map.empty"
    using fresh_slots_create [OF assms(1)] by (simp add: counters_def fun_eq_iff)
  have "counters (foldl (track pid) ft ps) = foldl account (counters ft) ps"
    using assms ft_inv_create fresh_slots_create [OF assms(1)] by (intro track_account) (auto simp: empty)
  then show ?thesis by (simp add: account_sums empty Let_def)
qed

theorem traffic_conserved_witness:
  "counters (foldl (track ''p'') ex_ft
     [((1, 1), ex_key 1000, 60), ((2, 2), ex_key 2000, 40), ((3, 3), ex_key 1000, 1500)]) (ex_key 1000) = Some (1560, 2)"
proof -
  have "flow_tracker_create (\<lambda>_. True) 2 = Some ex_ft"
    by (simp add: ex_ft_def flow_tracker_create_def)
  from traffic_conserved [OF this, of "[((1, 1), ex_key 1000, 60), ((2, 2), ex_key 2000, 40), ((3, 3), ex_key 1000, 1500)]" "''p''" "ex_key 1000"]
  show ?thesis by (simp add: card_insert_if)
qed

lemma ft_inv_track: "ft_inv ft \<Longrightarrow> ft_inv (foldl (track pid) ft ps)"
  by (induction ps arbitrary: ft) (auto simp: ft_inv_update_single)

lemma evq_inv_ft: "ft_inv ft \<Longrightarrow> evq_inv ft"
  by (simp add: ft_inv_def evq_inv_def)

lemma pending_set_record [simp]:
  "pending (set_record ft i r) = pending ft" "pending (claim_slot now ft k i) = pending ft"
  "ft_max_events (set_record ft i r) = ft_max_events ft" "ft_max_events (claim_slot now ft k i) = ft_max_events ft"
  by (simp_all add: pending_def set_record_def claim_slot_def)

lemma max_events_update_single [simp]:
  "ft_max_events (flow_tracker_update_single ts now ft k b pid) = ft_max_events ft"
  by (simp add: flow_tracker_update_single_def find_record_def add_event_def set_record_def Let_def
      split: prod.splits option.splits)

lemma pending_update_single:
  assumes "ft_inv ft" "card (insert k (dom (ft_abs ft))) \<le> ft_max_flows ft"
  shows "pending (flow_tracker_update_single ts now ft k b pid) = pending (add_event ft (packet_event pid ((ts, now), k, b)))"
proof -
  obtain i ft1 where find: "find_record now ft k = (Some i, ft1)" "ft1 = ft \<or> ft1 = claim_slot now ft k i"
  proof (cases "ft_abs ft k")
    case (Some v)
    then obtain i where "i < length (ft_records ft)" "fr_active (ft_records ft ! i)" "fr_key (ft_records ft ! i) = k"
      by (rule ft_abs_SomeE)
    then show thesis using assms(1) that by (blast intro: flow_slots.find_hit)
  next
    case None
    then have "card (dom (ft_abs ft)) < ft_max_flows ft"
      using assms card_dom_ft_abs(1) [OF assms(1)] by (simp add: card_insert_if domIff)
    with assms(1) obtain i where "find_idx (\<lambda>r. \<not> fr_active r) (ft_records ft) = Some i"
      by (rule free_slot_exists)
    from find_record_claim [OF assms(1) None this] show thesis using that by blast
  qed
  from find(1) assms(1) have inv: "ft_inv ft1" by (auto intro: flow_slots.find_inv)
  then have inv2: "evq_inv (set_record ft1 i r)" for r
    by (simp add: evq_inv_def ft_inv_def set_record_def)
  show ?thesis
    using find flow_events.add_contents [OF inv2] flow_events.add_contents [OF evq_inv_ft [OF assms(1)]]
    by (auto simp: update_single_unfold packet_event_def)
qed

lemma track_pending:
  assumes "ft_inv ft" "fresh_slots ft"
    "card (dom (counters ft) \<union> (fst \<circ> snd) ` set ps) \<le> ft_max_flows ft"
  shows "pending (foldl (track pid) ft ps) =
    pending ft @ take (ft_max_events ft - length (pending ft)) (map (packet_event pid) ps)"
  using assms
proof (induction ps arbitrary: ft)
  case Nil
  then show ?case by simp
next
  case (Cons p ps)
  obtain ts now k b where p: "p = ((ts, now), k, b)" by (cases p) auto
  let ?ft = "flow_tracker_update_single ts now ft k b pid"
  have "card (insert k (dom (ft_abs ft))) \<le> card (dom (counters ft) \<union> (fst \<circ> snd) ` set (p # ps))"
    using card_dom_ft_abs(1) [OF Cons.prems(1)] by (intro card_mono) (auto simp: p dom_counters)
  then have room: "card (insert k (dom (ft_abs ft))) \<le> ft_max_flows ft" using Cons.prems by linarith
  note step = counters_update_single [OF Cons.prems(1,2) room, of ts now b pid "(ts, now)"]
  have "dom (counters ?ft) \<union> (fst \<circ> snd) ` set ps = dom (counters ft) \<union> (fst \<circ> snd) ` set (p # ps)"
    unfolding step dom_account by (auto simp: p)
  then have "pending (foldl (track pid) ?ft ps) =
      pending ?ft @ take (ft_max_events ?ft - length (pending ?ft)) (map (packet_event pid) ps)"
    using Cons.prems by (intro Cons.IH) (simp_all add: ft_inv_update_single fresh_slots_update_single)
  then show ?case
    using flow_events.bounded [OF evq_inv_ft [OF Cons.prems(1)]]
    by (cases "ft_max_events ft - length (pending ft)")
       (auto simp: p pending_update_single [OF Cons.prems(1) room] Suc_diff_Suc diff_Suc
             flow_events.add_contents [OF evq_inv_ft [OF Cons.prems(1)]])
qed

text \<open>
  The event buffer is a bounded FIFO.  After a batch of packets on a fresh tracker with at
  most \<open>n\<close> different flows, \<open>flow_tracker_get_events\<close> delivers one event per packet, in order, up
  to \<open>2 * n\<close> events and the size of the caller's array, and leaves the rest of that array alone.
\<close>

theorem get_events_fifo:
  assumes "flow_tracker_create alloc n = Some ft" "card ((fst \<circ> snd) ` set ps) \<le> n"
    "n * 2 \<le> m" "length out = m"
  shows "flow_tracker_get_events (foldl (track pid) ft ps) out m =
    (min (n * 2) (length ps),
     take (n * 2) (map (packet_event pid) ps) @ drop (min (n * 2) (length ps)) out)"
proof -
  let ?ft = "foldl (track pid) ft ps"
  have ft: "ft_max_events ft = n * 2" "pending ft = []" "counters ft = Map.empty"
    using fresh_slots_create [OF assms(1)] by (auto simp: pending_def counters_def fun_eq_iff)
  have pend: "pending ?ft = take (n * 2) (map (packet_event pid) ps)"
    using track_pending [of ft ps pid] assms(1,2) ft_inv_create fresh_slots_create [OF assms(1)]
    by (auto simp: ft)
  have "ft_inv ?ft" using ft_inv_create [OF assms(1)] by (rule ft_inv_track)
  then have "length (pending ?ft) = ft_event_count ?ft" by (rule length_pending)
  with pend have count: "ft_event_count ?ft = min (n * 2) (length ps)" by simp
  then show ?thesis
    using pend assms(3) by (auto simp: flow_tracker_get_events_def Let_def pending_def min_def)
qed

theorem get_events_fifo_witness:
  "flow_tracker_get_events (foldl (track ''p'') ex_ft [((1, 1), ex_key 1000, 60), ((2, 2), ex_key 2000, 40)])
     (replicate 4 zero_flow_event) 4 =
   (2, [packet_event ''p'' ((1, 1), ex_key 1000, 60), packet_event ''p'' ((2, 2), ex_key 2000, 40),
        zero_flow_event, zero_flow_event])"
proof -
  have "flow_tracker_create (\<lambda>_. True) 2 = Some ex_ft"
    by (simp add: ex_ft_def flow_tracker_create_def)
  from get_events_fifo [OF this, of "[((1, 1), ex_key 1000, 60), ((2, 2), ex_key 2000, 40)]" 4
      "replicate 4 zero_flow_event" "''p''"]
  show ?thesis by (simp add: card_insert_if numeral_eq_Suc)
qed

lemma cleanup_records:
  assumes "ft_inv ft" "flow_tracker_cleanup ts (Some ft) age = Some ft'"
  shows "ft_records ft' = map (\<lambda>r. if stale ts age r then r\<lparr>fr_active := False\<rparr> else r) (ft_records ft)"
    "pending ft' = pending ft"
  using assms ft_invD(1) [OF assms(1)]
  by (auto simp: flow_tracker_cleanup_def cleanup_loop_spec pending_def)

lemma cleanup_abs:
  assumes "ft_inv ft" "flow_tracker_cleanup ts (Some ft) age = Some ft'"
  shows "ft_abs ft' k = (case ft_abs ft k of None \<Rightarrow> None
    | Some v \<Rightarrow> if stale_value ts age v then None else Some v)"
proof -
  note recs = cleanup_records(1) [OF assms]
  have act: "fr_active (ft_records ft' ! i) \<longleftrightarrow> fr_active (ft_records ft ! i) \<and> \<not> stale_value ts age (fr_value (ft_records ft ! i))"
    and key: "fr_key (ft_records ft' ! i) = fr_key (ft_records ft ! i)"
    and val: "fr_value (ft_records ft' ! i) = fr_value (ft_records ft ! i)"
    if "i < length (ft_records ft)" for i
    using that by (auto simp: recs stale_def stale_value_def)
  have len: "length (ft_records ft') = length (ft_records ft)" by (simp add: recs)
  show ?thesis
  proof (cases "ft_abs ft k")
    case None
    then have "ft_abs ft' k = None" by (auto simp: ft_abs_None_iff len act key)
    with None show ?thesis by simp
  next
    case (Some v)
    from Some obtain i where i: "i < length (ft_records ft)" "fr_active (ft_records ft ! i)"
      "fr_key (ft_records ft ! i) = k" "v = fr_value (ft_records ft ! i)" by (rule ft_abs_SomeE)
    show ?thesis
    proof (cases "stale_value ts age v")
      case True
      have "ft_abs ft' k = None"
        using i True ft_invD(6) [OF assms(1)] by (auto simp: ft_abs_None_iff len act key)
      with Some True show ?thesis by simp
    next
      case False
      with i have "ft_abs ft' (fr_key (ft_records ft' ! i)) = Some (fr_value (ft_records ft' ! i))"
        by (intro ft_abs_slot ft_inv_cleanup [OF assms]) (simp_all add: len act)
      with i Some False show ?thesis by (simp add: key val)
    qed
  qed
qed

text \<open>
  C16: \<open>flow_tracker_cleanup\<close> drops exactly the flows whose last packet is older than the maximal
  age, keeps the counters of all others, leaves the queued events alone, and \<open>active_count\<close> is
  afterwards the number of flows that are left.
\<close>

theorem cleanup_drops_stale:
  assumes "ft_inv ft" "flow_tracker_cleanup ts (Some ft) age = Some ft'"
  shows "(\<forall>k. ft_abs ft' k = (case ft_abs ft k of None \<Rightarrow> None
            | Some v \<Rightarrow> if fv_last_seen_ns v > 0 \<and> ts - fv_last_seen_ns v > age then None else Some v)) \<and>
    ft_active_count ft' = int (card (dom (ft_abs ft'))) \<and> pending ft' = pending ft"
  using cleanup_abs [OF assms, unfolded stale_value_def] cleanup_records(2) [OF assms]
    card_dom_ft_abs(2) [OF ft_inv_cleanup [OF assms]] by simp

theorem cleanup_drops_stale_witness:
  "ft_abs (the (flow_tracker_cleanup 1000 (Some ex_ft1) 900)) (ex_key 1000) = None \<and>
   ft_abs (the (flow_tracker_cleanup 1000 (Some ex_ft1) 950)) (ex_key 1000) = ft_abs ex_ft1 (ex_key 1000)"
proof -
  have c: "flow_tracker_cleanup 1000 (Some ex_ft1) a = Some (the (flow_tracker_cleanup 1000 (Some ex_ft1) a))" for a
    by (simp add: flow_tracker_cleanup_def)
  show ?thesis
    using cleanup_drops_stale [OF ft_inv_ex1 c [of 900]] cleanup_drops_stale [OF ft_inv_ex1 c [of 950]]
    by (simp add: ex_ft1_abs bump_def)
qed

lemma find_record_known:
  assumes "ft_inv ft" "ft_abs ft k = Some v"
  obtains i where "find_record now ft k = (Some i, ft)" "i < length (ft_records ft)"
    "fr_active (ft_records ft ! i)" "fr_key (ft_records ft ! i) = k" "fr_value (ft_records ft ! i) = v"
proof -
  from assms(2) obtain i where "i < length (ft_records ft)" "fr_active (ft_records ft ! i)"
    "fr_key (ft_records ft ! i) = k" "v = fr_value (ft_records ft ! i)" by (rule ft_abs_SomeE)
  with assms(1) that show thesis by (blast intro: flow_slots.find_hit)
qed

lemma ft_abs_upd_value:
  assumes "ft_inv ft" "i < length (ft_records ft)" "fr_active (ft_records ft ! i)"
  shows "ft_abs (upd_value ft i f) = (ft_abs ft)(fr_key (ft_records ft ! i) \<mapsto> f (fr_value (ft_records ft ! i)))"
  using ft_abs_set_value [OF assms] by (simp add: upd_value_def Let_def)

text \<open>
  Retransmission detection on a known flow.  A data segment is a retransmission exactly when
  the flow has an expected sequence number and the segment's number is below it; then only the
  retransmission counter changes.  Otherwise the expected number becomes the one after the
  segment.  The statics, and all other flows, are untouched.
\<close>

theorem retransmission_decision:
  assumes "ft_inv ft" "ft_abs ft k = Some v" "data_segment len flags"
  shows "\<exists>ft'. flow_tracker_check_tcp_retransmit now st (Some ft) (Some k) seq len flags (Some r) (Some d) =
        Some (0, Some (if fv_seq_expected v \<noteq> 0 \<and> seq < fv_seq_expected v then 1 else 0), Some 0, st, Some ft') \<and>
      ft_abs ft' = (ft_abs ft)(k \<mapsto>
        (if fv_seq_expected v \<noteq> 0 \<and> seq < fv_seq_expected v
         then v\<lparr>fv_retransmits := fv_retransmits v + 1\<rparr>
         else v\<lparr>fv_seq_expected := seq + ucast len\<rparr>))"
proof -
  obtain i where i: "find_record now ft k = (Some i, ft)" "i < length (ft_records ft)"
    "fr_active (ft_records ft ! i)" "fr_key (ft_records ft ! i) = k" "fr_value (ft_records ft ! i) = v"
    by (rule find_record_known [OF assms(1,2)])
  note upd = ft_abs_upd_value [OF assms(1) i(2,3), unfolded i(4,5)]
  have "len \<noteq> 0" using assms(3) by (auto simp: data_segment_def)
  then show ?thesis
    using assms(3) i
    by (auto simp: flow_tracker_check_tcp_retransmit_def check_retransmit_def data_segment_def Let_def upd
        simp del: TCP_FLAG_SYN_def TCP_FLAG_FIN_def TCP_FLAG_ACK_def)
qed

theorem retransmission_decision_witness:
  "\<exists>ft'. flow_tracker_check_tcp_retransmit 60 init_statics (Some ex_ft1) (Some (ex_key 1000)) 7000 100 0x18
        (Some 0) (Some 0) = Some (0, Some 0, Some 0, init_statics, Some ft') \<and>
      map_option fv_seq_expected (ft_abs ft' (ex_key 1000)) = Some 7100"
proof -
  have "data_segment 100 0x18" by (simp add: data_segment_def)
  from retransmission_decision [OF ft_inv_ex1 _ this, of "ex_key 1000" _ 60 init_statics 7000 0 0] ex_ft1_abs
  show ?thesis by (auto simp: bump_def zero_flow_value_def)
qed

lemma check_no_dup:
  assumes "acks_below n st" "n < 4096"
  shows "\<exists>ret retx st' ft'. check_retransmit now st ft k seq len flags = Some (ret, retx, 0, st', ft') \<and>
    acks_below (Suc n) st'"
proof -
  have below: "acks_below (Suc n) st" using assms(1) by (simp add: acks_below_def)
  have idx: "flow_idx st mod 4096 = flow_idx st" "nat (flow_idx st) < 4096"
    using assms by (auto simp: acks_below_def)
  have pure: "\<exists>st'. check_pure_ack st ft i seq = Some (0, st', ft) \<and> acks_below (Suc n) st'" for ft i
    using assms idx by (auto simp: check_pure_ack_def acks_below_def Let_def nth_list_update)
  obtain r ft1 where find: "find_record now ft k = (r, ft1)" by (cases "find_record now ft k")
  show ?thesis
  proof (cases r)
    case None
    with find below show ?thesis by (simp add: check_retransmit_def)
  next
    case (Some i)
    with pure [of ft1 i] obtain st' where
      "check_pure_ack st ft1 i seq = Some (0, st', ft1)" "acks_below (Suc n) st'" by blast
    with find Some below show ?thesis
      by (cases "len = 0") (auto simp: check_retransmit_def Let_def
        simp del: TCP_FLAG_SYN_def TCP_FLAG_FIN_def TCP_FLAG_ACK_def)
  qed
qed

lemma acks_below_init: "acks_below 0 init_statics"
  by (auto simp: acks_below_def init_statics_def nth_replicate)

lemma run_checks_no_dup:
  assumes "acks_below n st" "n + length cs \<le> 4096"
  shows "\<exists>st' ft'. run_checks st ft cs = Some (replicate (length cs) 0, st', ft')"
  using assms
proof (induction cs arbitrary: n st ft)
  case Nil
  then show ?case by simp
next
  case (Cons c cs)
  obtain now k seq len flags where c: "c = (now, k, seq, len, flags)" by (cases c)
  from Cons.prems have "n < 4096" by simp
  from check_no_dup [OF Cons.prems(1) this] obtain ret retx st1 ft1 where
    1: "check_retransmit now st ft k seq len flags = Some (ret, retx, 0, st1, ft1)" "acks_below (Suc n) st1"
    by blast
  from Cons.IH [OF 1(2), of ft1] Cons.prems(2) obtain st' ft' where
    "run_checks st1 ft1 cs = Some (replicate (length cs) 0, st', ft')" by auto
  with 1 show ?case by (simp add: c)
qed

text \<open>
  Duplicate ACKs are looked up under a running index and not per flow, so the first 4096 checks
  report none, whatever the segments are: even the same pure ACK sent again and again.
\<close>

theorem no_dup_ack_in_first_4096:
  assumes "length cs \<le> 4096"
  shows "\<exists>st' ft'. run_checks init_statics ft cs = Some (replicate (length cs) 0, st', ft')"
  by (rule run_checks_no_dup [OF acks_below_init]) (use assms in simp)

theorem no_dup_ack_in_first_4096_witness:
  "\<exists>st' ft'. run_checks init_statics ex_ft (replicate 3 (1, ex_key 1000, 7000, 0, 0x10)) = Some ([0, 0, 0], st', ft')"
  using no_dup_ack_in_first_4096 [of "replicate 3 (1, ex_key 1000, 7000, 0, 0x10)" ex_ft]
  by (simp add: numeral_3_eq_3 del: run_checks.simps)

text \<open>
  A slot that is freed and taken again keeps its counters: in a tracker with one slot, after a
  flow of \<open>b1\<close> bytes has been cleaned up, a first packet of \<open>b2\<close> bytes of a different flow is
  accounted as \<open>b1 + b2\<close> bytes in two packets.
\<close>

theorem reused_slot_keeps_counters:
  assumes "flow_tracker_create alloc 1 = Some ft" "k1 \<noteq> k2" "t1 > 0" "t2 - t1 > age"
    "flow_tracker_cleanup t2 (Some (flow_tracker_update_single t1 n1 ft k1 b1 pid)) age = Some ft'"
  shows "ft_abs ft' k1 = None \<and> counters (flow_tracker_update_single t3 n3 ft' k2 b2 pid) = [k2 \<mapsto> (b1 + b2, 2)]"
proof -
  let ?ft1 = "flow_tracker_update_single t1 n1 ft k1 b1 pid"
  have recs: "ft_records ft = [zero_flow_record]" using assms(1) by (auto simp: flow_tracker_create_def split: if_splits)
  then have free: "find_idx (\<lambda>r. \<not> fr_active r) (ft_records ft) = Some 0" by (simp add: zero_flow_record_def)
  note inv = ft_inv_create [OF assms(1)]
  have none: "ft_abs ft k1 = None" using fresh_slots_create [OF assms(1)] by simp
  have inv1: "ft_inv ?ft1" by (rule ft_inv_update_single [OF inv])
  have "ft_records ?ft1 = [zero_flow_record\<lparr>fr_key := k1, fr_active := True,
      fr_value := bump t1 b1 (zero_flow_value\<lparr>fv_first_seen_ns := n1\<rparr>)\<rparr>]"
    using find_record_claim [OF inv none free, of n1]
    by (simp add: update_single_unfold claim_slot_def recs set_record_def add_event_def bump_def zero_flow_record_def)
  then have recs': "ft_records ft' = [zero_flow_record\<lparr>fr_key := k1,
      fr_value := bump t1 b1 (zero_flow_value\<lparr>fv_first_seen_ns := n1\<rparr>)\<rparr>]"
    using cleanup_records(1) [OF inv1 assms(5)] assms(3,4) by (simp add: stale_def bump_def zero_flow_record_def)
  have empty: "ft_abs ft' = Map.empty" by (simp add: ft_abs_def recs' zero_flow_record_def fun_eq_iff)
  have "find_idx (\<lambda>r. \<not> fr_active r) (ft_records ft') = Some 0" by (simp add: recs' zero_flow_record_def)
  from update_single_none [OF ft_inv_cleanup [OF inv1 assms(5)] _ this, of k2 t3 n3 b2 pid] empty
  show ?thesis
    by (simp add: counters_def fun_eq_iff recs' bump_def zero_flow_value_def)
qed

theorem reused_slot_keeps_counters_witness:
  "\<exists>ft'. flow_tracker_cleanup 1000 (Some (flow_tracker_update_single 50 40
        (the (flow_tracker_create (\<lambda>_. True) 1)) (ex_key 1000) 100 ''p'')) 900 = Some ft' \<and>
     counters (flow_tracker_update_single 1100 1100 ft' (ex_key 2000) 60 ''p'') (ex_key 2000) = Some (160, 2)"
proof -
  have c: "flow_tracker_create (\<lambda>_. True) 1 = Some (the (flow_tracker_create (\<lambda>_. True) 1))"
    by (simp add: flow_tracker_create_def)
  obtain ft' where ft': "flow_tracker_cleanup 1000 (Some (flow_tracker_update_single 50 40
        (the (flow_tracker_create (\<lambda>_. True) 1)) (ex_key 1000) 100 ''p'')) 900 = Some ft'"
    by (simp add: flow_tracker_cleanup_def)
  from reused_slot_keeps_counters [OF c _ _ _ ft', of "ex_key 2000" 1100 1100 60] ft' show ?thesis by simp
qed

end
