(* ===== verification/Anomaly.thy ===== *)
theory Anomaly
  imports Stb_Common Table_Interfaces
begin

text \<open>
  \<open>src/anomaly.c\<close>: the anomaly detector with its table of sources (port scans) and its table of
  flows (bandwidth).  The fixed arrays are lists of their declared length.  The three event
  counters are C \<open>int\<close>s whose overflow is undefined, so the check returns \<open>None\<close> there.  The clock
  reading of \<open>now_ns()\<close> is the argument \<open>ts\<close>.  \<open>ad_inv\<close> is the invariant; \<open>src_ports\<close> and \<open>bw_abs\<close>
  are the abstract views: ports seen per source, and byte total and last time per flow.
\<close>

section \<open>State\<close>

record src_stats =
  ss_src_ip :: u32
  ss_unique_ports :: "u16 list"
  ss_port_count :: nat
  ss_last_seen_ns :: u64
  ss_total_bytes :: u64
  ss_active :: bool

record bw_record =
  bw_key :: flow_key_t
  bw_last_bytes :: u64
  bw_last_time_ns :: u64
  bw_prev_bytes :: u64
  bw_prev_time_ns :: u64
  bw_active :: bool

record anomaly_detector =
  ad_sources :: "src_stats list"
  ad_bw_records :: "bw_record list"
  ad_src_count :: nat
  ad_bw_count :: nat
  ad_spike_threshold_bps :: u64
  ad_scan_port_threshold :: int
  ad_spike_count :: int
  ad_scan_count :: int
  ad_drop_count :: int

definition zero_src_stats :: src_stats where
  "zero_src_stats = \<lparr>ss_src_ip = 0, ss_unique_ports = replicate 256 0, ss_port_count = 0,
     ss_last_seen_ns = 0, ss_total_bytes = 0, ss_active = False\<rparr>"

definition zero_bw_record :: bw_record where
  "zero_bw_record = \<lparr>bw_key = zero_flow_key, bw_last_bytes = 0, bw_last_time_ns = 0,
     bw_prev_bytes = 0, bw_prev_time_ns = 0, bw_active = False\<rparr>"

section \<open>Operations\<close>

definition anomaly_detector_create :: "bool \<Rightarrow> anomaly_detector ptr" where
  "anomaly_detector_create alloc =
     (if \<not> alloc then None
      else Some \<lparr>ad_sources = replicate 1024 zero_src_stats, ad_bw_records = replicate 2048 zero_bw_record,
                 ad_src_count = 0, ad_bw_count = 0, ad_spike_threshold_bps = 100000000,
                 ad_scan_port_threshold = 20, ad_spike_count = 0, ad_scan_count = 0, ad_drop_count = 0\<rparr>)"

definition claim_src :: "src_stats \<Rightarrow> u32 \<Rightarrow> src_stats" where
  "claim_src s ip = s\<lparr>ss_src_ip := ip, ss_active := True\<rparr>"

definition find_src :: "anomaly_detector \<Rightarrow> u32 \<Rightarrow> nat option \<times> anomaly_detector" where
  "find_src ad src_ip =
     (case find_idx (\<lambda>s. ss_active s \<and> ss_src_ip s = src_ip) (take (ad_src_count ad) (ad_sources ad)) of
        Some i \<Rightarrow> (Some i, ad)
      | None \<Rightarrow>
          if ad_src_count ad < 1024 then
            (Some (ad_src_count ad),
             ad\<lparr>ad_sources := (ad_sources ad)[ad_src_count ad := claim_src (ad_sources ad ! ad_src_count ad) src_ip],
                ad_src_count := ad_src_count ad + 1\<rparr>)
          else (None, ad))"

definition port_seen :: "src_stats \<Rightarrow> u16 \<Rightarrow> bool" where
  "port_seen src port \<longleftrightarrow> port \<in> set (take (min (ss_port_count src) 256) (ss_unique_ports src))"

definition claim_bw :: "bw_record \<Rightarrow> flow_key_t \<Rightarrow> bw_record" where
  "claim_bw r k = r\<lparr>bw_key := k, bw_active := True\<rparr>"

definition find_bw :: "anomaly_detector \<Rightarrow> flow_key_t \<Rightarrow> nat option \<times> anomaly_detector" where
  "find_bw ad key =
     (case find_idx (\<lambda>r. bw_active r \<and> bw_key r = key) (take (ad_bw_count ad) (ad_bw_records ad)) of
        Some i \<Rightarrow> (Some i, ad)
      | None \<Rightarrow>
          if ad_bw_count ad < 2048 then
            (Some (ad_bw_count ad),
             ad\<lparr>ad_bw_records := (ad_bw_records ad)[ad_bw_count ad := claim_bw (ad_bw_records ad ! ad_bw_count ad) key],
                ad_bw_count := ad_bw_count ad + 1\<rparr>)
          else (None, ad))"

text \<open>
  The three blocks of \<open>anomaly_check_flow\<close>.  Each returns \<open>Some a\<close> when the source returns \<open>a\<close>
  there and \<open>None\<close> when control falls through.
\<close>

type_synonym check_result = "u8 option \<times> anomaly_detector \<times> flow_event_t"

definition record_port :: "u64 \<Rightarrow> src_stats \<Rightarrow> u16 \<Rightarrow> src_stats" where
  "record_port ts src port =
     (let src = (if ss_port_count src < 256
                 then src\<lparr>ss_unique_ports := (ss_unique_ports src)[ss_port_count src := port],
                          ss_port_count := ss_port_count src + 1\<rparr>
                 else src)
      in src\<lparr>ss_last_seen_ns := ts\<rparr>)"

definition check_scan :: "u64 \<Rightarrow> anomaly_detector \<Rightarrow> flow_event_t \<Rightarrow> check_result ub" where
  "check_scan ts ad flow =
     (case find_src ad (fe_src_ip flow) of
        (None, ad) \<Rightarrow> Some (None, ad, flow)
      | (Some i, ad) \<Rightarrow>
          let src = ad_sources ad ! i
          in if \<not> port_seen src (fe_dst_port flow) \<and> fe_dst_port flow > 0 then
               let src = record_port ts src (fe_dst_port flow);
                   ad = ad\<lparr>ad_sources := (ad_sources ad)[i := src]\<rparr>
               in if int (ss_port_count src) \<ge> ad_scan_port_threshold ad then
                    do { n \<leftarrow> inc_int (ad_scan_count ad);
                         Some (Some ANOMALY_SCAN, ad\<lparr>ad_scan_count := n\<rparr>,
                               flow\<lparr>fe_anomaly := ANOMALY_SCAN,
                                    fe_tags := set_field (fe_tags flow) ''anomaly,port_scan''\<rparr>) }
                  else Some (None, ad, flow)
             else Some (None, ad, flow))"

definition bw_flow_key :: "flow_event_t \<Rightarrow> flow_key_t" where
  "bw_flow_key flow = zero_flow_key\<lparr>fk_src_ip := fe_src_ip flow, fk_dst_ip := fe_dst_ip flow,
     fk_src_port := fe_src_port flow, fk_dst_port := fe_dst_port flow\<rparr>"

definition bw_bps :: "u64 \<Rightarrow> u64 \<Rightarrow> u64" where
  "bw_bps delta_bytes dt_ns = (delta_bytes * 8 * 1000000000) div dt_ns"

definition account_bw :: "u64 \<Rightarrow> flow_event_t \<Rightarrow> bw_record \<Rightarrow> bw_record" where
  "account_bw ts flow bw = bw\<lparr>bw_last_bytes := bw_last_bytes bw + fe_bytes flow, bw_last_time_ns := ts\<rparr>"

definition check_spike :: "u64 \<Rightarrow> anomaly_detector \<Rightarrow> flow_event_t \<Rightarrow> check_result ub" where
  "check_spike ts ad flow =
     (case find_bw ad (bw_flow_key flow) of
        (None, ad) \<Rightarrow> Some (None, ad, flow)
      | (Some i, ad) \<Rightarrow>
          let bw = ad_bw_records ad ! i;
              dt_ns = ts - bw_last_time_ns bw;
              bps = bw_bps (bw_last_bytes bw) dt_ns;
              measured = (dt_ns > 0 \<and> bw_last_time_ns bw > 0 \<and> bw_last_bytes bw > 0);
              flow = (if measured then flow\<lparr>fe_bandwidth_bps := bps\<rparr> else flow)
          in if measured \<and> bps > ad_spike_threshold_bps ad then
               do { n \<leftarrow> inc_int (ad_spike_count ad);
                    Some (Some ANOMALY_SPIKE, ad\<lparr>ad_spike_count := n\<rparr>,
                          flow\<lparr>fe_anomaly := ANOMALY_SPIKE,
                               fe_details := print_field (fe_details flow) (''bandwidth spike: '' @ show_word bps @ '' bps''),
                               fe_tags := set_field (fe_tags flow) ''anomaly,spike''\<rparr>) }
             else Some (None, ad\<lparr>ad_bw_records := (ad_bw_records ad)[i := account_bw ts flow bw]\<rparr>, flow))"

definition check_rst :: "anomaly_detector \<Rightarrow> flow_event_t \<Rightarrow> check_result ub" where
  "check_rst ad flow =
     (if fe_tcp_flags flow AND TCP_FLAG_RST \<noteq> 0 then
        do { n \<leftarrow> inc_int (ad_drop_count ad);
             Some (Some ANOMALY_DROP, ad\<lparr>ad_drop_count := n\<rparr>,
                   flow\<lparr>fe_anomaly := ANOMALY_DROP, fe_tags := set_field (fe_tags flow) ''anomaly,rst''\<rparr>) }
      else Some (None, ad, flow))"

definition check_flow :: "u64 \<Rightarrow> anomaly_detector \<Rightarrow> flow_event_t \<Rightarrow> (u8 \<times> anomaly_detector \<times> flow_event_t) ub" where
  "check_flow ts ad flow =
     do { (r, ad, flow) \<leftarrow> check_scan ts ad flow;
          case r of Some a \<Rightarrow> Some (a, ad, flow) | None \<Rightarrow>
            do { (r, ad, flow) \<leftarrow> check_spike ts ad flow;
                 case r of Some a \<Rightarrow> Some (a, ad, flow) | None \<Rightarrow>
                   do { (r, ad, flow) \<leftarrow> check_rst ad flow;
                        case r of Some a \<Rightarrow> Some (a, ad, flow) | None \<Rightarrow> Some (ANOMALY_NONE, ad, flow) } } }"

definition anomaly_check_flow ::
  "u64 \<Rightarrow> anomaly_detector ptr \<Rightarrow> flow_event_t ptr \<Rightarrow> (u8 \<times> anomaly_detector ptr \<times> flow_event_t ptr) ub" where
  "anomaly_check_flow ts ad flow =
     (case (ad, flow) of
        (Some a, Some f) \<Rightarrow> map_option (\<lambda>(r, a, f). (r, Some a, Some f)) (check_flow ts a f)
      | _ \<Rightarrow> Some (ANOMALY_NONE, ad, flow))"

text \<open>What \<open>anomaly_detector_print_stats\<close> prints.\<close>

definition anomaly_detector_print_stats :: "anomaly_detector ptr \<Rightarrow> string" where
  "anomaly_detector_print_stats ad =
     (case ad of None \<Rightarrow> ''''
      | Some a \<Rightarrow> ''[ANOMALY] spikes='' @ show_int (ad_spike_count a) @ '' scans='' @ show_int (ad_scan_count a) @
          '' drops='' @ show_int (ad_drop_count a) @ '' tracked_sources='' @ show_nat (ad_src_count a) @
          '' tracked_flows='' @ show_nat (ad_bw_count a) @ ''\<newline>'')"

section \<open>Invariant and abstract views\<close>

definition wf_src :: "src_stats \<Rightarrow> bool" where
  "wf_src s \<longleftrightarrow> length (ss_unique_ports s) = 256 \<and> ss_port_count s \<le> 256 \<and>
     distinct (take (ss_port_count s) (ss_unique_ports s)) \<and> 0 \<notin> set (take (ss_port_count s) (ss_unique_ports s))"

definition ad_inv :: "anomaly_detector \<Rightarrow> bool" where
  "ad_inv ad \<longleftrightarrow>
     length (ad_sources ad) = 1024 \<and> ad_src_count ad \<le> 1024 \<and>
     (\<forall>i < 1024. ss_active (ad_sources ad ! i) \<longleftrightarrow> i < ad_src_count ad) \<and>
     distinct (map ss_src_ip (take (ad_src_count ad) (ad_sources ad))) \<and>
     (\<forall>s \<in> set (ad_sources ad). wf_src s \<and> (\<not> ss_active s \<longrightarrow> ss_port_count s = 0)) \<and>
     length (ad_bw_records ad) = 2048 \<and> ad_bw_count ad \<le> 2048 \<and>
     (\<forall>i < 2048. bw_active (ad_bw_records ad ! i) \<longleftrightarrow> i < ad_bw_count ad) \<and>
     distinct (map bw_key (take (ad_bw_count ad) (ad_bw_records ad))) \<and>
     (\<forall>r \<in> set (ad_bw_records ad). \<not> bw_active r \<longrightarrow> bw_last_bytes r = 0 \<and> bw_last_time_ns r = 0) \<and>
     ad_spike_threshold_bps ad = 100000000 \<and> ad_scan_port_threshold ad = 20 \<and>
     0 \<le> ad_spike_count ad \<and> 0 \<le> ad_scan_count ad \<and> 0 \<le> ad_drop_count ad"

definition src_ports :: "anomaly_detector \<Rightarrow> u32 \<Rightarrow> u16 set option" where
  "src_ports ad ip =
     map_option (\<lambda>i. set (take (ss_port_count (ad_sources ad ! i)) (ss_unique_ports (ad_sources ad ! i))))
       (find_idx (\<lambda>s. ss_active s \<and> ss_src_ip s = ip) (ad_sources ad))"

definition bw_abs :: "anomaly_detector \<Rightarrow> flow_key_t \<Rightarrow> (u64 \<times> u64) option" where
  "bw_abs ad k =
     map_option (\<lambda>i. (bw_last_bytes (ad_bw_records ad ! i), bw_last_time_ns (ad_bw_records ad ! i)))
       (find_idx (\<lambda>r. bw_active r \<and> bw_key r = k) (ad_bw_records ad))"

text \<open>The three counters: scans, spikes, drops.\<close>

definition counts :: "anomaly_detector \<Rightarrow> int \<times> int \<times> int" where
  "counts ad = (ad_scan_count ad, ad_spike_count ad, ad_drop_count ad)"

text \<open>The ports seen of a source, and whether the table has or can get a slot for it.\<close>

definition known_ports :: "anomaly_detector \<Rightarrow> u32 \<Rightarrow> u16 set" where
  "known_ports ad ip = (case src_ports ad ip of None \<Rightarrow> {} | Some P \<Rightarrow> P)"

definition src_tracked :: "anomaly_detector \<Rightarrow> u32 \<Rightarrow> bool" where
  "src_tracked ad ip \<longleftrightarrow> src_ports ad ip \<noteq> None \<or> ad_src_count ad < 1024"

text \<open>A destination port that the scan detection counts as new.\<close>

definition new_port :: "anomaly_detector \<Rightarrow> flow_event_t \<Rightarrow> bool" where
  "new_port ad flow \<longleftrightarrow> src_tracked ad (fe_src_ip flow) \<and> fe_dst_port flow \<noteq> 0 \<and>
     fe_dst_port flow \<notin> known_ports ad (fe_src_ip flow)"

definition ports_after :: "anomaly_detector \<Rightarrow> flow_event_t \<Rightarrow> u32 \<Rightarrow> u16 set option" where
  "ports_after ad flow =
     (let ip = fe_src_ip flow; P = known_ports ad ip
      in if src_tracked ad ip
         then (src_ports ad)(ip \<mapsto> if new_port ad flow \<and> card P < 256 then insert (fe_dst_port flow) P else P)
         else src_ports ad)"

definition scanning :: "anomaly_detector \<Rightarrow> flow_event_t \<Rightarrow> bool" where
  "scanning ad flow \<longleftrightarrow> new_port ad flow \<and> 19 \<le> card (known_ports ad (fe_src_ip flow))"

text \<open>The byte total and last time of a flow, and whether the table has or can get a slot for it.\<close>

definition bw_known :: "anomaly_detector \<Rightarrow> flow_key_t \<Rightarrow> u64 \<times> u64" where
  "bw_known ad k = (case bw_abs ad k of None \<Rightarrow> (0, 0) | Some bt \<Rightarrow> bt)"

definition bw_tracked :: "anomaly_detector \<Rightarrow> flow_key_t \<Rightarrow> bool" where
  "bw_tracked ad k \<longleftrightarrow> bw_abs ad k \<noteq> None \<or> ad_bw_count ad < 2048"

definition spiking :: "u64 \<Rightarrow> u64 \<times> u64 \<Rightarrow> bool" where
  "spiking ts bt \<longleftrightarrow> ts \<noteq> snd bt \<and> snd bt \<noteq> 0 \<and> fst bt \<noteq> 0 \<and> bw_bps (fst bt) (ts - snd bt) > 100000000"

definition bw_after :: "u64 \<Rightarrow> anomaly_detector \<Rightarrow> flow_event_t \<Rightarrow> flow_key_t \<Rightarrow> (u64 \<times> u64) option" where
  "bw_after ts ad flow =
     (let k = bw_flow_key flow; bt = bw_known ad k
      in if bw_tracked ad k
         then (bw_abs ad)(k \<mapsto> if spiking ts bt then bt else (fst bt + fe_bytes flow, ts))
         else bw_abs ad)"

text \<open>The verdict on a flow event as a function of the abstract views.\<close>

definition verdict :: "u64 \<Rightarrow> anomaly_detector \<Rightarrow> flow_event_t \<Rightarrow> u8" where
  "verdict ts ad flow =
     (if scanning ad flow then ANOMALY_SCAN
      else if spiking ts (bw_known ad (bw_flow_key flow)) then ANOMALY_SPIKE
      else if fe_tcp_flags flow AND TCP_FLAG_RST \<noteq> 0 then ANOMALY_DROP
      else ANOMALY_NONE)"

definition counts_below :: "anomaly_detector \<Rightarrow> bool" where
  "counts_below ad \<longleftrightarrow> ad_scan_count ad < INT_MAX \<and> ad_spike_count ad < INT_MAX \<and> ad_drop_count ad < INT_MAX"

definition ex_ad :: anomaly_detector where
  "ex_ad = the (anomaly_detector_create True)"

text \<open>A sequence of checks with the verdicts collected.\<close>

fun check_all :: "anomaly_detector \<Rightarrow> (u64 \<times> flow_event_t) list \<Rightarrow> (u8 list \<times> anomaly_detector) ub" where
  "check_all ad [] = Some ([], ad)"
| "check_all ad ((ts, flow) # fs) =
     do { (r, ad, flow) \<leftarrow> check_flow ts ad flow;
          (rs, ad) \<leftarrow> check_all ad fs;
          Some (r # rs, ad) }"

definition counts_le :: "int \<Rightarrow> anomaly_detector \<Rightarrow> bool" where
  "counts_le c ad \<longleftrightarrow> ad_scan_count ad \<le> c \<and> ad_spike_count ad \<le> c \<and> ad_drop_count ad \<le> c"

definition steady :: "u64 \<Rightarrow> u64 \<Rightarrow> flow_event_t \<Rightarrow> nat \<Rightarrow> (u64 \<times> flow_event_t) list" where
  "steady t0 dt flow n = map (\<lambda>j. (t0 + of_nat j * dt, flow)) [0..<n]"

definition steady_state :: "flow_event_t \<Rightarrow> nat \<Rightarrow> u64 \<Rightarrow> anomaly_detector \<Rightarrow> bool" where
  "steady_state flow m t ad \<longleftrightarrow> ad_inv ad \<and> counts ad = (0, 0, 0) \<and>
     (fe_dst_port flow \<noteq> 0 \<longrightarrow> fe_dst_port flow \<in> known_ports ad (fe_src_ip flow)) \<and>
     bw_abs ad (bw_flow_key flow) = Some (of_nat m * fe_bytes flow, t)"

section \<open>Lemmas\<close>

lemma ad_invD:
  assumes "ad_inv ad"
  shows "length (ad_sources ad) = 1024" "ad_src_count ad \<le> 1024"
    "\<And>i. i < 1024 \<Longrightarrow> ss_active (ad_sources ad ! i) \<longleftrightarrow> i < ad_src_count ad"
    "distinct (map ss_src_ip (take (ad_src_count ad) (ad_sources ad)))"
    "\<And>s. s \<in> set (ad_sources ad) \<Longrightarrow> wf_src s \<and> (\<not> ss_active s \<longrightarrow> ss_port_count s = 0)"
    "length (ad_bw_records ad) = 2048" "ad_bw_count ad \<le> 2048"
    "\<And>i. i < 2048 \<Longrightarrow> bw_active (ad_bw_records ad ! i) \<longleftrightarrow> i < ad_bw_count ad"
    "distinct (map bw_key (take (ad_bw_count ad) (ad_bw_records ad)))"
    "ad_spike_threshold_bps ad = 100000000" "ad_scan_port_threshold ad = 20"
    "0 \<le> ad_spike_count ad" "0 \<le> ad_scan_count ad" "0 \<le> ad_drop_count ad"
    "\<And>r. r \<in> set (ad_bw_records ad) \<Longrightarrow> \<not> bw_active r \<Longrightarrow> bw_last_bytes r = 0 \<and> bw_last_time_ns r = 0"
  using assms unfolding ad_inv_def by auto

lemma take_Suc_update: "n < length xs \<Longrightarrow> take (Suc n) (xs[n := x]) = take n xs @ [x]"
  by (simp add: take_Suc_conv_app_nth)

lemma map_take_update: "f x = f (xs ! i) \<Longrightarrow> map f (take n (xs[i := x])) = map f (take n xs)"
  by (cases "i < length xs") (auto intro!: nth_equalityI simp: nth_list_update)

lemma wf_claim_src [simp]: "wf_src (claim_src s ip) = wf_src s"
  by (simp add: wf_src_def claim_src_def)

lemma ad_inv_extend_src:
  assumes "ad_inv ad" "ad_src_count ad < 1024"
    "find_idx (\<lambda>s. ss_active s \<and> ss_src_ip s = ip) (take (ad_src_count ad) (ad_sources ad)) = None"
  shows "ad_inv (ad\<lparr>ad_sources := (ad_sources ad)[ad_src_count ad := claim_src (ad_sources ad ! ad_src_count ad) ip],
                ad_src_count := ad_src_count ad + 1\<rparr>)"
proof -
  note inv = ad_invD [OF assms(1)]
  let ?n = "ad_src_count ad" and ?xs = "ad_sources ad"
  have "ss_active s" if "s \<in> set (take ?n ?xs)" for s
    using that inv(1-3) by (auto simp: in_set_conv_nth)
  then have "ip \<notin> ss_src_ip ` set (take ?n ?xs)" using assms(3) by (auto simp: find_idx_None)
  then have d: "distinct (map ss_src_ip (take (Suc ?n) (?xs[?n := claim_src (?xs ! ?n) ip])))"
    using inv(1,4) assms(2) by (simp add: take_Suc_update claim_src_def)
  have "wf_src (?xs ! ?n)" using inv(1,5) assms(2) by simp
  then have w: "wf_src s \<and> (\<not> ss_active s \<longrightarrow> ss_port_count s = 0)" if "s \<in> set (?xs[?n := claim_src (?xs ! ?n) ip])" for s
    using subsetD [OF set_update_subset_insert that] inv(5) by (auto simp: claim_src_def wf_src_def)
  have a: "ss_active (?xs[?n := claim_src (?xs ! ?n) ip] ! i) \<longleftrightarrow> i < Suc ?n" if "i < 1024" for i
    using that inv(1,3) by (cases "i = ?n") (auto simp: claim_src_def)
  show ?thesis using inv assms(2) d w a by (simp add: ad_inv_def)
qed

lemma ad_inv_extend_bw:
  assumes "ad_inv ad" "ad_bw_count ad < 2048"
    "find_idx (\<lambda>r. bw_active r \<and> bw_key r = k) (take (ad_bw_count ad) (ad_bw_records ad)) = None"
  shows "ad_inv (ad\<lparr>ad_bw_records := (ad_bw_records ad)[ad_bw_count ad := claim_bw (ad_bw_records ad ! ad_bw_count ad) k],
                ad_bw_count := ad_bw_count ad + 1\<rparr>)"
proof -
  note inv = ad_invD [OF assms(1)]
  let ?n = "ad_bw_count ad" and ?xs = "ad_bw_records ad"
  have "bw_active s" if "s \<in> set (take ?n ?xs)" for s
    using that inv(6-8) by (auto simp: in_set_conv_nth)
  then have "k \<notin> bw_key ` set (take ?n ?xs)" using assms(3) by (auto simp: find_idx_None)
  then have d: "distinct (map bw_key (take (Suc ?n) (?xs[?n := claim_bw (?xs ! ?n) k])))"
    using inv(6,9) assms(2) by (simp add: take_Suc_update claim_bw_def)
  have a: "bw_active (?xs[?n := claim_bw (?xs ! ?n) k] ! i) \<longleftrightarrow> i < Suc ?n" if "i < 2048" for i
    using that inv(6,8) by (cases "i = ?n") (auto simp: claim_bw_def)
  have z: "bw_last_bytes r = 0 \<and> bw_last_time_ns r = 0" if "r \<in> set (?xs[?n := claim_bw (?xs ! ?n) k])" "\<not> bw_active r" for r
    using subsetD [OF set_update_subset_insert that(1)] that(2) inv(15) by (auto simp: claim_bw_def)
  show ?thesis using inv assms(2) d a z by (simp add: ad_inv_def)
qed

interpretation src_table: append_table ad_sources ad_src_count 1024 ss_active ss_src_ip claim_src find_src ad_inv
proof
  show "length (ad_sources t) = 1024 \<and> ad_src_count t \<le> 1024 \<and>
    (\<forall>i<1024. ss_active (ad_sources t ! i) = (i < ad_src_count t))" if "ad_inv t" for t
    using ad_invD(1-3) [OF that] by simp
  show "\<exists>t'. find_src t k = (Some (ad_src_count t), t') \<and> ad_inv t' \<and>
      ad_sources t' = (ad_sources t)[ad_src_count t := claim_src (ad_sources t ! ad_src_count t) k]"
    if "ad_inv t" "find_idx (\<lambda>s. ss_active s \<and> ss_src_ip s = k) (take (ad_src_count t) (ad_sources t)) = None"
      "ad_src_count t < 1024" for t k
    using ad_inv_extend_src [OF that(1,3,2)] that by (simp add: find_src_def)
qed (simp_all add: ad_invD(4) claim_src_def find_src_def)

interpretation bw_table: append_table ad_bw_records ad_bw_count 2048 bw_active bw_key claim_bw find_bw ad_inv
proof
  show "length (ad_bw_records t) = 2048 \<and> ad_bw_count t \<le> 2048 \<and>
    (\<forall>i<2048. bw_active (ad_bw_records t ! i) = (i < ad_bw_count t))" if "ad_inv t" for t
    using ad_invD(6-8) [OF that] by simp
  show "\<exists>t'. find_bw t k = (Some (ad_bw_count t), t') \<and> ad_inv t' \<and>
      ad_bw_records t' = (ad_bw_records t)[ad_bw_count t := claim_bw (ad_bw_records t ! ad_bw_count t) k]"
    if "ad_inv t" "find_idx (\<lambda>s. bw_active s \<and> bw_key s = k) (take (ad_bw_count t) (ad_bw_records t)) = None"
      "ad_bw_count t < 2048" for t k
    using ad_inv_extend_bw [OF that(1,3,2)] that by (simp add: find_bw_def)
qed (simp_all add: ad_invD(9) claim_bw_def find_bw_def)

lemma wf_record_port:
  assumes "wf_src s" "\<not> port_seen s p" "0 < p"
  shows "wf_src (record_port ts s p)"
  using assms by (auto simp: wf_src_def record_port_def port_seen_def Let_def take_Suc_update)

lemma ad_inv_set_source:
  assumes "ad_inv ad" "i < 1024" "wf_src s" "ss_active s" "ss_active (ad_sources ad ! i)"
    "ss_src_ip s = ss_src_ip (ad_sources ad ! i)"
  shows "ad_inv (ad\<lparr>ad_sources := (ad_sources ad)[i := s]\<rparr>)"
proof -
  note inv = ad_invD [OF assms(1)]
  have "wf_src s' \<and> (\<not> ss_active s' \<longrightarrow> ss_port_count s' = 0)" if "s' \<in> set ((ad_sources ad)[i := s])" for s'
    using subsetD [OF set_update_subset_insert that] inv(5) assms(3,4) by blast
  with inv assms show ?thesis by (auto simp: ad_inv_def map_take_update nth_list_update)
qed

lemma ad_inv_set_bw:
  assumes "ad_inv ad" "i < 2048" "bw_active s" "bw_active (ad_bw_records ad ! i)"
    "bw_key s = bw_key (ad_bw_records ad ! i)"
  shows "ad_inv (ad\<lparr>ad_bw_records := (ad_bw_records ad)[i := s]\<rparr>)"
proof -
  have "bw_last_bytes r = 0 \<and> bw_last_time_ns r = 0" if "r \<in> set ((ad_bw_records ad)[i := s])" "\<not> bw_active r" for r
    using subsetD [OF set_update_subset_insert that(1)] that(2) assms(3) ad_invD(15) [OF assms(1)] by blast
  with ad_invD [OF assms(1)] assms show ?thesis by (auto simp: ad_inv_def map_take_update nth_list_update)
qed

lemma ad_inv_count [simp]:
  "0 \<le> n \<Longrightarrow> ad_inv ad \<Longrightarrow> ad_inv (ad\<lparr>ad_scan_count := n\<rparr>)"
  "0 \<le> n \<Longrightarrow> ad_inv ad \<Longrightarrow> ad_inv (ad\<lparr>ad_spike_count := n\<rparr>)"
  "0 \<le> n \<Longrightarrow> ad_inv ad \<Longrightarrow> ad_inv (ad\<lparr>ad_drop_count := n\<rparr>)"
  by (simp_all add: ad_inv_def)

lemma record_port_simps [simp]:
  "ss_active (record_port ts s p) = ss_active s" "ss_src_ip (record_port ts s p) = ss_src_ip s"
  by (simp_all add: record_port_def Let_def)

lemma account_bw_simps [simp]:
  "bw_active (account_bw ts flow r) = bw_active r" "bw_key (account_bw ts flow r) = bw_key r"
  by (simp_all add: account_bw_def)

lemma src_ports_lookup:
  "src_ports ad ip = map_option (\<lambda>s. set (take (ss_port_count s) (ss_unique_ports s))) (src_table.lookup ad ip)"
  by (simp add: src_ports_def src_table.lookup_def option.map_comp comp_def)

lemma bw_abs_lookup:
  "bw_abs ad k = map_option (\<lambda>r. (bw_last_bytes r, bw_last_time_ns r)) (bw_table.lookup ad k)"
  by (simp add: bw_abs_def bw_table.lookup_def option.map_comp comp_def)

lemma ports_record_port:
  assumes "wf_src s" "\<not> port_seen s p"
  shows "set (take (ss_port_count (record_port ts s p)) (ss_unique_ports (record_port ts s p))) =
      (if ss_port_count s < 256 then insert p (set (take (ss_port_count s) (ss_unique_ports s)))
       else set (take (ss_port_count s) (ss_unique_ports s)))"
    "ss_port_count (record_port ts s p) = (if ss_port_count s < 256 then Suc (ss_port_count s) else ss_port_count s)"
  using assms by (auto simp: wf_src_def record_port_def Let_def take_Suc_update)

lemma card_ports: "wf_src s \<Longrightarrow> card (set (take (ss_port_count s) (ss_unique_ports s))) = ss_port_count s"
  by (auto simp: wf_src_def distinct_card)

lemma port_seen_ports: "wf_src s \<Longrightarrow> port_seen s p \<longleftrightarrow> p \<in> set (take (ss_port_count s) (ss_unique_ports s))"
  by (auto simp: wf_src_def port_seen_def min_def)

lemma find_src_tracked:
  assumes "ad_inv ad" "src_tracked ad ip"
  obtains i ad1 where "find_src ad ip = (Some i, ad1)" "ad_inv ad1" "i < 1024"
    "wf_src (ad_sources ad1 ! i)" "ss_active (ad_sources ad1 ! i)"
    "ss_src_ip (ad_sources ad1 ! i) = ip"
    "src_table.lookup ad1 = (src_table.lookup ad)(ip \<mapsto> ad_sources ad1 ! i)"
    "known_ports ad ip = set (take (ss_port_count (ad_sources ad1 ! i)) (ss_unique_ports (ad_sources ad1 ! i)))"
    "ad_bw_records ad1 = ad_bw_records ad" "counts ad1 = counts ad" "ad_bw_count ad1 = ad_bw_count ad"
    "ad_scan_port_threshold ad1 = 20"
proof -
  obtain r ad1 where f: "find_src ad ip = (r, ad1)" by (cases "find_src ad ip")
  have fr: "ad_bw_records ad1 = ad_bw_records ad" "counts ad1 = counts ad" "ad_bw_count ad1 = ad_bw_count ad"
    using f by (auto simp: find_src_def counts_def split: option.splits if_splits)
  have "r \<noteq> None"
  proof
    assume "r = None"
    with f have "src_table.lookup ad ip = None" "ad_src_count ad \<ge> 1024"
      using src_table.find_full_absent [OF assms(1)]
      by (auto simp: src_table.lookup_None_iff find_src_def split: option.splits if_splits)
    with assms(2) show False by (simp add: src_tracked_def src_ports_lookup)
  qed
  then obtain i where fi: "find_src ad ip = (Some i, ad1)" using f by auto
  note slot = src_table.find_slot [OF assms(1) fi] and inv = src_table.find_inv [OF assms(1) fi]
  from slot ad_invD(1) [OF inv] have i: "i < 1024" by simp
  have "known_ports ad ip = set (take (ss_port_count (ad_sources ad1 ! i)) (ss_unique_ports (ad_sources ad1 ! i)))"
  proof (cases rule: src_table.find_cases [OF assms(1), of ip])
    case (1 j)
    then have "src_table.lookup ad ip = Some (ad_sources ad ! j)"
      using ad_invD(1) [OF assms(1)] by (auto simp: src_table.lookup_Some_iff [OF assms(1)])
    with 1 fi show ?thesis by (simp add: known_ports_def src_ports_lookup)
  next
    case (2 ad2)
    then have "src_table.lookup ad ip = None"
      using ad_invD(1) [OF assms(1)] by (auto simp: src_table.lookup_None_iff src_table.keys_def)
    with 2 fi ad_invD(1,3,5) [OF assms(1)] show ?thesis
      by (simp add: known_ports_def src_ports_lookup claim_src_def)
  qed (use fi in simp)
  with that [OF fi inv i] fr slot i ad_invD(1,5,11) [OF inv] src_table.lookup_find [OF assms(1) fi] show thesis by simp
qed

lemma check_scan_tracked:
  fixes flow :: flow_event_t
  assumes "ad_inv ad" "ad_scan_count ad < INT_MAX" and tr: "src_tracked ad (fe_src_ip flow)"
  shows "\<exists>ad'. check_scan ts ad flow =
      Some (if scanning ad flow
            then (Some ANOMALY_SCAN, ad', flow\<lparr>fe_anomaly := ANOMALY_SCAN,
                    fe_tags := set_field (fe_tags flow) ''anomaly,port_scan''\<rparr>)
            else (None, ad', flow)) \<and>
    ad_inv ad' \<and> ad_bw_records ad' = ad_bw_records ad \<and> ad_bw_count ad' = ad_bw_count ad \<and>
    ad_scan_count ad' = ad_scan_count ad + of_bool (scanning ad flow) \<and> snd (counts ad') = snd (counts ad) \<and>
    src_ports ad' = ports_after ad flow"
proof -
  let ?ip = "fe_src_ip flow" and ?p = "fe_dst_port flow" and ?P = "known_ports ad (fe_src_ip flow)"
  obtain i ad1 where f: "find_src ad ?ip = (Some i, ad1)" and inv1: "ad_inv ad1" and i: "i < 1024"
    and s: "wf_src (ad_sources ad1 ! i)" "ss_active (ad_sources ad1 ! i)" "ss_src_ip (ad_sources ad1 ! i) = ?ip"
    and lk: "src_table.lookup ad1 = (src_table.lookup ad)(?ip \<mapsto> ad_sources ad1 ! i)"
    and kp: "?P = set (take (ss_port_count (ad_sources ad1 ! i)) (ss_unique_ports (ad_sources ad1 ! i)))"
    and fr: "ad_bw_records ad1 = ad_bw_records ad" "counts ad1 = counts ad" "ad_bw_count ad1 = ad_bw_count ad"
      "ad_scan_port_threshold ad1 = 20"
    by (rule find_src_tracked [OF assms(1) tr])
  let ?s = "ad_sources ad1 ! i"
  have seen: "port_seen ?s ?p \<longleftrightarrow> ?p \<in> ?P" using s(1) by (simp add: port_seen_ports kp)
  have card: "card ?P = ss_port_count ?s" using s(1) by (simp add: kp card_ports)
  show ?thesis
  proof (cases "new_port ad flow")
    case False
    have "src_ports ad1 = (src_ports ad)(?ip \<mapsto> ?P)" by (simp add: src_ports_lookup lk fun_eq_iff kp)
    with False f inv1 fr tr show ?thesis
      by (auto simp: check_scan_def Let_def seen new_port_def scanning_def ports_after_def word_gt_0 counts_def)
  next
    case True
    let ?s' = "record_port ts ?s ?p"
    let ?ad2 = "ad1\<lparr>ad_sources := (ad_sources ad1)[i := ?s']\<rparr>"
    have ns: "\<not> port_seen ?s ?p" "0 < ?p" using True by (simp_all add: seen new_port_def word_gt_0)
    have inv2: "ad_inv ?ad2" using inv1 i s ns by (intro ad_inv_set_source) (simp_all add: wf_record_port)
    have "src_table.lookup ?ad2 = (src_table.lookup ad1)(ss_src_ip ?s' \<mapsto> ?s')"
      by (rule src_table.lookup_update [OF inv1, of i]) (use i s ad_invD(1) [OF inv1] in simp_all)
    then have ports: "src_ports ?ad2 = ports_after ad flow"
      using s True tr by (simp add: src_ports_lookup lk fun_eq_iff card ports_record_port(1) [OF s(1) ns(1)]
          ports_after_def Let_def flip: kp)
    have ports': "src_ports (?ad2\<lparr>ad_scan_count := n\<rparr>) = src_ports ?ad2" for n
      by (simp add: src_ports_def fun_eq_iff)
    have thr: "20 \<le> int (ss_port_count ?s') \<longleftrightarrow> scanning ad flow"
      using True by (simp add: ports_record_port(2) [OF s(1) ns(1)] card scanning_def)
    have "0 \<le> ad_scan_count ad1" by (rule ad_invD(13) [OF inv1])
    with f ns fr assms(2) inv2 ports ports' thr True show ?thesis
      by (auto simp: check_scan_def Let_def inc_int_def counts_def)
  qed
qed

lemma check_scan_spec:
  fixes flow :: flow_event_t
  assumes "ad_inv ad" "ad_scan_count ad < INT_MAX"
  shows "\<exists>ad'. check_scan ts ad flow =
      Some (if scanning ad flow
            then (Some ANOMALY_SCAN, ad', flow\<lparr>fe_anomaly := ANOMALY_SCAN,
                    fe_tags := set_field (fe_tags flow) ''anomaly,port_scan''\<rparr>)
            else (None, ad', flow)) \<and>
    ad_inv ad' \<and> ad_bw_records ad' = ad_bw_records ad \<and> ad_bw_count ad' = ad_bw_count ad \<and>
    ad_scan_count ad' = ad_scan_count ad + of_bool (scanning ad flow) \<and> snd (counts ad') = snd (counts ad) \<and>
    src_ports ad' = ports_after ad flow"
proof (cases "src_tracked ad (fe_src_ip flow)")
  case False
  have "find_src ad (fe_src_ip flow) = (None, ad)"
    using False ad_invD(1,2) [OF assms(1)]
    by (auto simp: src_tracked_def src_ports_def find_src_def)
  with False assms(1) show ?thesis
    by (simp add: check_scan_def scanning_def new_port_def ports_after_def Let_def)
qed (rule check_scan_tracked [OF assms])

lemma find_bw_tracked:
  assumes "ad_inv ad" "bw_tracked ad k"
  obtains i ad1 where "find_bw ad k = (Some i, ad1)" "ad_inv ad1" "i < 2048"
    "bw_active (ad_bw_records ad1 ! i)" "bw_key (ad_bw_records ad1 ! i) = k"
    "bw_table.lookup ad1 = (bw_table.lookup ad)(k \<mapsto> ad_bw_records ad1 ! i)"
    "bw_known ad k = (bw_last_bytes (ad_bw_records ad1 ! i), bw_last_time_ns (ad_bw_records ad1 ! i))"
    "ad_sources ad1 = ad_sources ad" "counts ad1 = counts ad"
    "ad_spike_threshold_bps ad1 = 100000000"
proof -
  obtain r ad1 where f: "find_bw ad k = (r, ad1)" by (cases "find_bw ad k")
  have fr: "ad_sources ad1 = ad_sources ad" "counts ad1 = counts ad"
    using f by (auto simp: find_bw_def counts_def split: option.splits if_splits)
  have "r \<noteq> None"
  proof
    assume "r = None"
    with f have "bw_table.lookup ad k = None" "ad_bw_count ad \<ge> 2048"
      using bw_table.find_full_absent [OF assms(1)]
      by (auto simp: bw_table.lookup_None_iff find_bw_def split: option.splits if_splits)
    with assms(2) show False by (simp add: bw_tracked_def bw_abs_lookup)
  qed
  then obtain i where fi: "find_bw ad k = (Some i, ad1)" using f by auto
  note slot = bw_table.find_slot [OF assms(1) fi] and inv = bw_table.find_inv [OF assms(1) fi]
  from slot ad_invD(6) [OF inv] have i: "i < 2048" by simp
  have "bw_known ad k = (bw_last_bytes (ad_bw_records ad1 ! i), bw_last_time_ns (ad_bw_records ad1 ! i))"
  proof (cases rule: bw_table.find_cases [OF assms(1), of k])
    case (1 j)
    then have "bw_table.lookup ad k = Some (ad_bw_records ad ! j)"
      using ad_invD(6) [OF assms(1)] by (auto simp: bw_table.lookup_Some_iff [OF assms(1)])
    with 1 fi show ?thesis by (simp add: bw_known_def bw_abs_lookup)
  next
    case (2 ad2)
    then have "bw_table.lookup ad k = None"
      using ad_invD(6) [OF assms(1)] by (auto simp: bw_table.lookup_None_iff bw_table.keys_def)
    with 2 fi ad_invD(6,8,15) [OF assms(1)] show ?thesis
      by (simp add: bw_known_def bw_abs_lookup claim_bw_def)
  qed (use fi in simp)
  with that [OF fi inv i] fr slot i ad_invD(10) [OF inv] bw_table.lookup_find [OF assms(1) fi] show thesis by simp
qed

lemma check_spike_tracked:
  fixes flow :: flow_event_t
  assumes "ad_inv ad" "ad_spike_count ad < INT_MAX" and sp: "sp = spiking ts (bw_known ad (bw_flow_key flow))"
    and tr: "bw_tracked ad (bw_flow_key flow)"
  shows "\<exists>ad' flow'. check_spike ts ad flow = Some (if sp then Some ANOMALY_SPIKE else None, ad', flow') \<and>
    ad_inv ad' \<and> ad_sources ad' = ad_sources ad \<and> fe_tcp_flags flow' = fe_tcp_flags flow \<and>
    (wf_flow_event flow \<longrightarrow> wf_flow_event flow') \<and>
    counts ad' = (ad_scan_count ad, ad_spike_count ad + of_bool sp, ad_drop_count ad) \<and>
    bw_abs ad' = bw_after ts ad flow"
proof -
  let ?k = "bw_flow_key flow"
  obtain i ad1 where f: "find_bw ad ?k = (Some i, ad1)" and inv1: "ad_inv ad1" and i: "i < 2048"
    and r: "bw_active (ad_bw_records ad1 ! i)" "bw_key (ad_bw_records ad1 ! i) = ?k"
    and lk: "bw_table.lookup ad1 = (bw_table.lookup ad)(?k \<mapsto> ad_bw_records ad1 ! i)"
    and kn: "bw_known ad ?k = (bw_last_bytes (ad_bw_records ad1 ! i), bw_last_time_ns (ad_bw_records ad1 ! i))"
    and fr: "ad_sources ad1 = ad_sources ad" "counts ad1 = counts ad" "ad_spike_threshold_bps ad1 = 100000000"
    by (rule find_bw_tracked [OF assms(1) tr])
  let ?r = "ad_bw_records ad1 ! i"
  have dt: "0 < ts - t \<longleftrightarrow> ts \<noteq> t" for t :: u64 by (simp add: word_gt_0)
  show ?thesis
  proof (cases sp)
    case True
    have "bw_abs (ad1\<lparr>ad_spike_count := n\<rparr>) = bw_after ts ad flow" for n
      using lk True sp tr by (simp add: bw_abs_lookup bw_table.lookup_def fun_eq_iff bw_after_def Let_def kn)
    with True f fr assms(2) sp inv1 ad_invD(12) [OF inv1] kn show ?thesis
      by (auto simp: check_spike_def Let_def inc_int_def spiking_def dt word_gt_0 wf_flow_event_def wf_rules counts_def)
  next
    case False
    let ?ad2 = "\<lambda>fl. ad1\<lparr>ad_bw_records := (ad_bw_records ad1)[i := account_bw ts fl ?r]\<rparr>"
    have inv2: "ad_inv (?ad2 fl)" for fl using inv1 i r by (intro ad_inv_set_bw) simp_all
    have "bw_table.lookup (?ad2 fl) = (bw_table.lookup ad1)(bw_key (account_bw ts fl ?r) \<mapsto> account_bw ts fl ?r)" for fl
      by (rule bw_table.lookup_update [OF inv1, of i]) (use i r ad_invD(6) [OF inv1] in simp_all)
    then have "bw_abs (?ad2 fl) = bw_after ts ad flow" if "fe_bytes fl = fe_bytes flow" for fl
      using False sp tr that by (simp add: bw_abs_lookup fun_eq_iff r lk account_bw_def bw_after_def Let_def kn)
    with False f fr sp inv2 kn show ?thesis
      by (auto simp: check_spike_def Let_def spiking_def dt word_gt_0 wf_flow_event_def counts_def)
  qed
qed

lemma check_spike_spec:
  fixes flow :: flow_event_t
  assumes "ad_inv ad" "ad_spike_count ad < INT_MAX" and sp: "sp = spiking ts (bw_known ad (bw_flow_key flow))"
  shows "\<exists>ad' flow'. check_spike ts ad flow = Some (if sp then Some ANOMALY_SPIKE else None, ad', flow') \<and>
    ad_inv ad' \<and> ad_sources ad' = ad_sources ad \<and> fe_tcp_flags flow' = fe_tcp_flags flow \<and>
    (wf_flow_event flow \<longrightarrow> wf_flow_event flow') \<and>
    counts ad' = (ad_scan_count ad, ad_spike_count ad + of_bool sp, ad_drop_count ad) \<and>
    bw_abs ad' = bw_after ts ad flow"
proof (cases "bw_tracked ad (bw_flow_key flow)")
  case False
  have "find_bw ad (bw_flow_key flow) = (None, ad)"
    using False ad_invD(6,7) [OF assms(1)] by (auto simp: bw_tracked_def bw_abs_def find_bw_def)
  moreover have "\<not> sp" using False sp by (auto simp: bw_tracked_def bw_known_def spiking_def split: option.splits)
  ultimately show ?thesis
    using False assms(1) by (simp add: check_spike_def bw_after_def Let_def counts_def)
qed (rule check_spike_tracked [OF assms])

lemma check_flow_spec:
  assumes "ad_inv ad" "counts_below ad"
  shows "\<exists>ad' flow'. check_flow ts ad flow = Some (verdict ts ad flow, ad', flow') \<and>
    ad_inv ad' \<and> (wf_flow_event flow \<longrightarrow> wf_flow_event flow') \<and>
    src_ports ad' = ports_after ad flow \<and>
    bw_abs ad' = (if verdict ts ad flow = ANOMALY_SCAN then bw_abs ad else bw_after ts ad flow) \<and>
    counts ad' = (ad_scan_count ad + of_bool (verdict ts ad flow = ANOMALY_SCAN),
                  ad_spike_count ad + of_bool (verdict ts ad flow = ANOMALY_SPIKE),
                  ad_drop_count ad + of_bool (verdict ts ad flow = ANOMALY_DROP))"
proof -
  let ?sc = "scanning ad flow" and ?sp = "spiking ts (bw_known ad (bw_flow_key flow))"
  from assms(2) have "ad_scan_count ad < INT_MAX" by (simp add: counts_below_def)
  from check_scan_spec [OF assms(1) this] obtain ad1 where
    1: "check_scan ts ad flow = Some (if ?sc
          then (Some ANOMALY_SCAN, ad1, flow\<lparr>fe_anomaly := ANOMALY_SCAN, fe_tags := set_field (fe_tags flow) ''anomaly,port_scan''\<rparr>)
          else (None, ad1, flow))"
      "ad_inv ad1" "ad_bw_records ad1 = ad_bw_records ad" "ad_bw_count ad1 = ad_bw_count ad"
      "ad_scan_count ad1 = ad_scan_count ad + of_bool ?sc" "snd (counts ad1) = snd (counts ad)"
      "src_ports ad1 = ports_after ad flow" by blast
  from 1 have bw: "bw_abs ad1 = bw_abs ad" "bw_after ts ad1 flow = bw_after ts ad flow" "bw_known ad1 = bw_known ad"
    by (simp_all add: fun_eq_iff bw_abs_def bw_after_def bw_known_def bw_tracked_def Let_def)
  show ?thesis
  proof (cases ?sc)
    case True
    with 1 bw show ?thesis
      by (auto simp: check_flow_def verdict_def counts_def wf_flow_event_def wf_rules)
  next
    case False
    have "ad_spike_count ad1 < INT_MAX" using 1(6) assms(2) by (simp add: counts_def counts_below_def)
    from check_spike_spec [OF 1(2) this refl, of ts flow] obtain ad2 flow2 where
      2: "check_spike ts ad1 flow = Some (if ?sp then Some ANOMALY_SPIKE else None, ad2, flow2)"
        "ad_inv ad2" "ad_sources ad2 = ad_sources ad1" "fe_tcp_flags flow2 = fe_tcp_flags flow"
        "wf_flow_event flow \<longrightarrow> wf_flow_event flow2" "bw_abs ad2 = bw_after ts ad flow"
        "counts ad2 = (ad_scan_count ad1, ad_spike_count ad1 + of_bool ?sp, ad_drop_count ad1)"
      unfolding bw by blast
    have "src_ports ad2 = ports_after ad flow" using 1(7) 2(3) by (simp add: src_ports_def fun_eq_iff)
    moreover have "src_ports (ad2\<lparr>ad_drop_count := n\<rparr>) = src_ports ad2" "bw_abs (ad2\<lparr>ad_drop_count := n\<rparr>) = bw_abs ad2" for n
      by (simp_all add: src_ports_def bw_abs_def fun_eq_iff)
    ultimately show ?thesis
      using False 1 2 assms(2) ad_invD(14) [OF 2(2)]
      by (auto simp: check_flow_def check_rst_def verdict_def counts_def counts_below_def inc_int_def wf_flow_event_def wf_rules)
  qed
qed

lemma create_fresh:
  assumes "anomaly_detector_create alloc = Some ad"
  shows "ad_inv ad" "src_ports ad = Map.empty" "bw_abs ad = Map.empty" "counts ad = (0, 0, 0)"
    "ad_src_count ad = 0" "ad_bw_count ad = 0"
  using assms
  by (auto simp: anomaly_detector_create_def ad_inv_def zero_src_stats_def zero_bw_record_def wf_src_def
      src_ports_def bw_abs_def find_idx_None fun_eq_iff counts_def split: if_splits)

lemma ex_ad_fresh:
  "ad_inv ex_ad" "src_ports ex_ad = Map.empty" "bw_abs ex_ad = Map.empty" "counts ex_ad = (0, 0, 0)"
  "ad_src_count ex_ad = 0" "ad_bw_count ex_ad = 0" "counts_below ex_ad"
  using create_fresh [of True ex_ad]
  by (simp_all add: ex_ad_def anomaly_detector_create_def counts_below_def counts_def)

text \<open>
  C17: The detector's verdict.  From every state within the invariant and below the counters' limit,
  \<open>anomaly_check_flow\<close> returns; the result depends only on the ports seen from the source and on
  the byte total and last time of the flow: a scan when the port is new and at least 19 ports
  were known, else a spike when the bandwidth is above the threshold, else a drop when RST is
  set, else none.  It keeps the invariant, keeps the event's strings terminated, updates both
  tables as specified (not the bandwidth table after a scan) and exactly one counter.
\<close>

theorem anomaly_check_flow_verdict:
  assumes "ad_inv ad" "ad_scan_count ad < INT_MAX" "ad_spike_count ad < INT_MAX" "ad_drop_count ad < INT_MAX"
    "wf_flow_event flow"
  shows "\<exists>ad' flow'. anomaly_check_flow ts (Some ad) (Some flow) = Some (verdict ts ad flow, Some ad', Some flow') \<and>
    ad_inv ad' \<and> wf_flow_event flow' \<and> src_ports ad' = ports_after ad flow \<and>
    bw_abs ad' = (if verdict ts ad flow = ANOMALY_SCAN then bw_abs ad else bw_after ts ad flow) \<and>
    counts ad' = (ad_scan_count ad + of_bool (verdict ts ad flow = ANOMALY_SCAN),
                  ad_spike_count ad + of_bool (verdict ts ad flow = ANOMALY_SPIKE),
                  ad_drop_count ad + of_bool (verdict ts ad flow = ANOMALY_DROP))"
proof -
  have "counts_below ad" using assms by (simp add: counts_below_def)
  from check_flow_spec [OF assms(1) this, of ts flow] assms(5) show ?thesis
    by (auto simp: anomaly_check_flow_def)
qed

theorem anomaly_check_flow_verdict_witness:
  "\<exists>ad' flow'. anomaly_check_flow 5 (Some ex_ad) (Some (zero_flow_event\<lparr>fe_dst_port := 80, fe_tcp_flags := 4\<rparr>)) =
     Some (ANOMALY_DROP, Some ad', Some flow') \<and> src_ports ad' = [0 \<mapsto> {80}] \<and> counts ad' = (0, 0, 1)"
proof -
  let ?f = "zero_flow_event\<lparr>fe_dst_port := 80, fe_tcp_flags := 4\<rparr>"
  have kp: "known_ports ex_ad 0 = {}" "bw_known ex_ad k = (0, 0)" "src_tracked ex_ad 0" for k
    by (simp_all add: known_ports_def bw_known_def src_tracked_def ex_ad_fresh)
  have wf: "wf_flow_event ?f" by (simp add: wf_flow_event_def zero_flow_event_def wf_rules)
  have f: "fe_src_ip ?f = 0" by (simp add: zero_flow_event_def)
  have v: "verdict 5 ex_ad ?f = ANOMALY_DROP" "ports_after ex_ad ?f = [0 \<mapsto> {80}]"
    using f by (simp_all add: verdict_def scanning_def spiking_def kp ports_after_def Let_def new_port_def ex_ad_fresh)
  have "ad_scan_count ex_ad = 0" "ad_spike_count ex_ad = 0" "ad_drop_count ex_ad = 0"
    using ex_ad_fresh(4) by (simp_all add: counts_def)
  with anomaly_check_flow_verdict [OF ex_ad_fresh(1) _ _ _ wf, of 5] v show ?thesis by auto
qed

lemma finite_known_ports: "finite (known_ports ad ip)"
  by (auto simp: known_ports_def src_ports_def split: option.splits)

lemma counts_le_step:
  assumes "counts_le c ad" "counts ad' = (ad_scan_count ad + of_bool a, ad_spike_count ad + of_bool b, ad_drop_count ad + of_bool d)"
  shows "counts_le (c + 1) ad'"
  using assms by (auto simp: counts_le_def counts_def of_bool_def)

lemma scanner_run:
  assumes "ad_inv ad" "counts_le c ad" "c + int (length fs) \<le> INT_MAX" "src_tracked ad ip"
    "\<forall>f \<in> set fs. fe_src_ip (snd f) = ip \<and> fe_dst_port (snd f) \<noteq> 0"
    "distinct (map (fe_dst_port \<circ> snd) fs)" "known_ports ad ip \<inter> (fe_dst_port \<circ> snd) ` set fs = {}"
  shows "\<exists>rs ad'. check_all ad fs = Some (rs, ad') \<and> length rs = length fs \<and>
    (\<forall>j < length fs. rs ! j = ANOMALY_SCAN \<longleftrightarrow> 19 \<le> card (known_ports ad ip) + j)"
  using assms
proof (induction fs arbitrary: ad c)
  case Nil
  then show ?case by simp
next
  case (Cons f fs)
  obtain ts flow where f: "f = (ts, flow)" by (cases f)
  let ?P = "known_ports ad ip" and ?p = "fe_dst_port flow"
  have new: "new_port ad flow" "fe_src_ip flow = ip" using Cons.prems by (auto simp: f new_port_def)
  have "counts_below ad" using Cons.prems(2,3) by (auto simp: counts_le_def counts_below_def)
  from check_flow_spec [OF Cons.prems(1) this, of ts flow] obtain ad1 flow1 where
    1: "check_flow ts ad flow = Some (verdict ts ad flow, ad1, flow1)" "ad_inv ad1" "src_ports ad1 = ports_after ad flow"
      "counts_le (c + 1) ad1"
    using counts_le_step [OF Cons.prems(2)] by blast
  have kp: "known_ports ad1 ip = (if card ?P < 256 then insert ?p ?P else ?P)" "src_tracked ad1 ip"
    using Cons.prems(4) new by (auto simp: known_ports_def 1(3) ports_after_def Let_def src_tracked_def)
  then have "known_ports ad1 ip \<inter> (fe_dst_port \<circ> snd) ` set fs = {}"
    using Cons.prems(6,7) by (auto simp: f)
  with Cons.IH [OF 1(2,4) _ kp(2)] Cons.prems(3,5,6) obtain rs ad' where
    2: "check_all ad1 fs = Some (rs, ad')" "length rs = length fs"
      "\<And>j. j < length fs \<Longrightarrow> rs ! j = ANOMALY_SCAN \<longleftrightarrow> 19 \<le> card (known_ports ad1 ip) + j" by auto
  have "card (known_ports ad1 ip) = (if card ?P < 256 then Suc (card ?P) else card ?P)"
    using Cons.prems(7) by (simp add: kp(1) finite_known_ports f)
  then have suc: "19 \<le> card (known_ports ad1 ip) + j \<longleftrightarrow> 19 \<le> card ?P + Suc j" for j by auto
  have "verdict ts ad flow = ANOMALY_SCAN \<longleftrightarrow> 19 \<le> card ?P"
    using new by (auto simp: verdict_def scanning_def)
  with 1 2 suc show ?case by (auto simp: f nth_Cons split: nat.splits)
qed

text \<open>
  C18: Port scans are found.  When a source contacts pairwise different non-zero ports, the first 19
  contacts are not reported as a scan and every later one is, also beyond the 256 ports that the
  table can hold.
\<close>

theorem port_scan_detected:
  assumes "anomaly_detector_create alloc = Some ad" "int (length fs) \<le> INT_MAX"
    "\<forall>f \<in> set fs. fe_src_ip (snd f) = ip \<and> fe_dst_port (snd f) \<noteq> 0"
    "distinct (map (fe_dst_port \<circ> snd) fs)"
  shows "\<exists>rs ad'. check_all ad fs = Some (rs, ad') \<and> length rs = length fs \<and>
    (\<forall>j < length fs. rs ! j = ANOMALY_SCAN \<longleftrightarrow> 19 \<le> j)"
proof -
  have "known_ports ad ip = {}" "src_tracked ad ip" "counts_le 0 ad"
    using create_fresh [OF assms(1)] by (auto simp: known_ports_def src_tracked_def counts_le_def counts_def)
  with scanner_run [OF create_fresh(1) [OF assms(1)], of 0 fs ip] assms show ?thesis by simp
qed

theorem port_scan_detected_witness:
  "\<exists>rs ad'. check_all ex_ad (map (\<lambda>i. (of_nat i, zero_flow_event\<lparr>fe_dst_port := of_nat (Suc i)\<rparr>)) [0..<25]) = Some (rs, ad') \<and>
     rs ! 18 \<noteq> ANOMALY_SCAN \<and> rs ! 19 = ANOMALY_SCAN \<and> rs ! 24 = ANOMALY_SCAN"
proof -
  have c: "anomaly_detector_create True = Some ex_ad" by (simp add: ex_ad_def anomaly_detector_create_def)
  let ?fs = "map (\<lambda>i. (of_nat i :: u64, zero_flow_event\<lparr>fe_dst_port := of_nat (Suc i)\<rparr>)) [0..<25]"
  have d: "distinct (map (fe_dst_port \<circ> snd) ?fs)" by (simp add: upt_rec)
  have z: "\<forall>f \<in> set ?fs. fe_src_ip (snd f) = 0 \<and> fe_dst_port (snd f) \<noteq> 0" by (simp add: upt_rec zero_flow_event_def)
  from port_scan_detected [OF c _ z d] show ?thesis by auto
qed

lemma check_all_append:
  "check_all ad (fs @ gs) =
     do { (rs, ad) \<leftarrow> check_all ad fs; (qs, ad) \<leftarrow> check_all ad gs; Some (rs @ qs, ad) }"
  by (induction ad fs rule: check_all.induct) (auto simp: bind_eq_Some_conv split: Option.bind_splits)

lemma unat_bw_bps:
  fixes b dt :: u64
  assumes "m * unat b * 8000000000 < 2 ^ 64"
  shows "unat (bw_bps (of_nat m * b) dt) = m * unat b * 8000000000 div unat dt"
proof -
  have "of_nat m * b * 8 * 1000000000 = (of_nat (m * unat b * 8000000000) :: u64)" by simp
  moreover have "unat (of_nat (m * unat b * 8000000000) :: u64) = m * unat b * 8000000000"
    using assms by (simp add: unat_of_nat_less del: of_nat_mult)
  ultimately show ?thesis unfolding bw_bps_def unat_div_distrib by (simp only:)
qed

lemma spiking_steady:
  fixes b dt t :: u64
  assumes "m * unat b * 8000000000 < 2 ^ 64" "t \<noteq> 0" "dt \<noteq> 0"
  shows "spiking (t + dt) (of_nat m * b, t) \<longleftrightarrow> 100000000 < m * unat b * 8000000000 div unat dt"
proof -
  note u = unat_bw_bps [OF assms(1), of dt]
  have "100000000 < bw_bps (of_nat m * b) dt \<longleftrightarrow> 100000000 < m * unat b * 8000000000 div unat dt"
    by (simp add: word_less_nat_alt u)
  moreover have "of_nat m * b \<noteq> 0" if "100000000 < bw_bps (of_nat m * b) dt"
  proof
    assume "of_nat m * b = 0"
    with that show False by (simp add: bw_bps_def)
  qed
  ultimately show ?thesis using assms(2,3) by (auto simp: spiking_def)
qed

lemma steady_step:
  assumes "steady_state flow m t ad" "fe_tcp_flags flow AND TCP_FLAG_RST = 0"
    and v: "v = spiking ts (of_nat m * fe_bytes flow, t)"
  shows "\<exists>ad' flow'. check_flow ts ad flow = Some (if v then ANOMALY_SPIKE else ANOMALY_NONE, ad', flow') \<and>
    (\<not> v \<longrightarrow> steady_state flow (Suc m) ts ad')"
proof -
  have st: "ad_inv ad" "counts ad = (0, 0, 0)" "bw_known ad (bw_flow_key flow) = (of_nat m * fe_bytes flow, t)"
    "\<not> scanning ad flow" "bw_tracked ad (bw_flow_key flow)"
    using assms(1) by (auto simp: steady_state_def bw_known_def scanning_def new_port_def bw_tracked_def)
  from st(2) have "counts_below ad" "ad_scan_count ad = 0" "ad_spike_count ad = 0" "ad_drop_count ad = 0"
    by (simp_all add: counts_below_def counts_def)
  note count = this
  have ver: "verdict ts ad flow = (if v then ANOMALY_SPIKE else ANOMALY_NONE)"
    using st assms(2) by (simp add: verdict_def v)
  have seen: "fe_dst_port flow \<in> known_ports ad' (fe_src_ip flow)"
    if "src_ports ad' = ports_after ad flow" "fe_dst_port flow \<noteq> 0" for ad'
    using assms(1) that by (auto simp: steady_state_def known_ports_def ports_after_def Let_def new_port_def)
  have bw: "bw_after ts ad flow (bw_flow_key flow) = Some (of_nat (Suc m) * fe_bytes flow, ts)" if "\<not> v"
    using st that by (simp add: bw_after_def Let_def v algebra_simps)
  from check_flow_spec [OF st(1) count(1), of ts flow] ver seen bw count(2-) show ?thesis
    by (auto simp: steady_state_def)
qed

lemma steady_first:
  assumes "anomaly_detector_create alloc = Some ad" "fe_tcp_flags flow AND TCP_FLAG_RST = 0"
  shows "\<exists>ad'. check_all ad [(t, flow)] = Some ([ANOMALY_NONE], ad') \<and> steady_state flow 1 t ad'"
proof -
  note fr = create_fresh [OF assms(1)]
  have kn: "known_ports ad ip = {}" "bw_known ad k = (0, 0)" "bw_tracked ad k" "src_tracked ad ip" for ip k
    by (simp_all add: known_ports_def bw_known_def bw_tracked_def src_tracked_def fr)
  have count: "counts_below ad" "ad_scan_count ad = 0" "ad_spike_count ad = 0" "ad_drop_count ad = 0"
    using fr(4) by (simp_all add: counts_below_def counts_def)
  have ver: "verdict t ad flow = ANOMALY_NONE"
    using assms(2) by (simp add: verdict_def scanning_def kn spiking_def)
  have seen: "fe_dst_port flow \<in> known_ports ad' (fe_src_ip flow)"
    if "src_ports ad' = ports_after ad flow" "fe_dst_port flow \<noteq> 0" for ad'
    using that by (simp add: known_ports_def [of ad'] ports_after_def Let_def kn new_port_def)
  have bw: "bw_after t ad flow (bw_flow_key flow) = Some (fe_bytes flow, t)"
    by (simp add: bw_after_def Let_def kn spiking_def)
  from check_flow_spec [OF fr(1) count(1), of t flow] ver seen bw count(2-) show ?thesis
    by (auto simp: steady_state_def)
qed

lemma steady_run:
  assumes "anomaly_detector_create alloc = Some ad" "fe_tcp_flags flow AND TCP_FLAG_RST = 0"
    "t0 \<noteq> 0" "dt \<noteq> 0" "unat t0 + m * unat dt < 2 ^ 64" "m * unat (fe_bytes flow) * 8000000000 < 2 ^ 64"
    "m * unat (fe_bytes flow) * 8000000000 div unat dt \<le> 100000000"
  shows "\<exists>ad'. check_all ad (steady t0 dt flow (Suc m)) = Some (replicate (Suc m) ANOMALY_NONE, ad') \<and>
    steady_state flow (Suc m) (t0 + of_nat m * dt) ad'"
  using assms(5-7)
proof (induction m)
  case 0
  with steady_first [OF assms(1,2), of t0] show ?case by (simp add: steady_def)
next
  case (Suc m)
  have mono: "m * unat (fe_bytes flow) * 8000000000 \<le> Suc m * unat (fe_bytes flow) * 8000000000" by simp
  then have "m * unat (fe_bytes flow) * 8000000000 div unat dt \<le> 100000000"
    using Suc.prems(3) div_le_mono order_trans by blast
  with Suc mono obtain ad1 where 1: "check_all ad (steady t0 dt flow (Suc m)) = Some (replicate (Suc m) ANOMALY_NONE, ad1)"
    "steady_state flow (Suc m) (t0 + of_nat m * dt) ad1" by fastforce
  have t: "t0 + of_nat m * dt \<noteq> 0"
  proof -
    have "unat (t0 + of_nat m * dt) = unat t0 + m * unat dt"
      using unat_of_nat_less [of "unat t0 + m * unat dt", where 'a = 64] Suc.prems(1) by simp
    with assms(3) show ?thesis by (metis add_is_0 unat_0 unsigned_eq_0_iff)
  qed
  have "\<not> spiking (t0 + of_nat m * dt + dt) (of_nat (Suc m) * fe_bytes flow, t0 + of_nat m * dt)"
    using spiking_steady [OF Suc.prems(2) t assms(4)] Suc.prems(3) by simp
  with steady_step [OF 1(2) assms(2) refl, of "t0 + of_nat m * dt + dt"] obtain ad2 flow2 where
    2: "check_flow (t0 + of_nat m * dt + dt) ad1 flow = Some (ANOMALY_NONE, ad2, flow2)"
      "steady_state flow (Suc (Suc m)) (t0 + of_nat m * dt + dt) ad2" by auto
  have app: "steady t0 dt flow (Suc (Suc m)) = steady t0 dt flow (Suc m) @ [(t0 + of_nat m * dt + dt, flow)]"
    by (simp add: steady_def algebra_simps)
  with 1 2 show ?case
    unfolding app check_all_append by (simp add: replicate_append_same algebra_simps del: replicate_Suc flip: replicate_Suc)
qed

text \<open>
  The bandwidth of a flow is computed from all the bytes it ever had and the time since its last
  packet, so a flow of constant rate is reported as a spike once its total is large enough, however
  low the rate is: with equal packets at equal intervals, the first \<open>n\<close> packets pass and the next
  one is a spike, where \<open>n\<close> is the first number of packets whose total, sent in one interval,
  would exceed 100 Mbit/s.
\<close>

theorem steady_flow_flagged:
  assumes "anomaly_detector_create alloc = Some ad" "fe_tcp_flags flow AND TCP_FLAG_RST = 0"
    "t0 \<noteq> 0" "dt \<noteq> 0" "unat t0 + n * unat dt < 2 ^ 64" "n * unat (fe_bytes flow) * 8000000000 < 2 ^ 64"
    "(n - 1) * unat (fe_bytes flow) * 8000000000 div unat dt \<le> 100000000"
    "100000000 < n * unat (fe_bytes flow) * 8000000000 div unat dt"
  shows "\<exists>ad'. check_all ad (steady t0 dt flow (Suc n)) = Some (replicate n ANOMALY_NONE @ [ANOMALY_SPIKE], ad')"
proof (cases n)
  case 0
  with assms(8) show ?thesis by simp
next
  case (Suc m)
  from assms(5,6) have le: "unat t0 + m * unat dt < 2 ^ 64" "m * unat (fe_bytes flow) * 8000000000 < 2 ^ 64"
    by (simp_all add: Suc)
  from steady_run [OF assms(1-4) le] assms(7) obtain ad1 where
    1: "check_all ad (steady t0 dt flow n) = Some (replicate n ANOMALY_NONE, ad1)"
      "steady_state flow n (t0 + of_nat m * dt) ad1" by (auto simp: Suc)
  have "unat (t0 + of_nat m * dt) = unat t0 + m * unat dt"
    using unat_of_nat_less [of "unat t0 + m * unat dt", where 'a = 64] le(1) by simp
  then have "t0 + of_nat m * dt \<noteq> 0"
    using assms(3) by (metis add_is_0 unat_0 unsigned_eq_0_iff)
  then have sp: "spiking (t0 + of_nat m * dt + dt) (of_nat n * fe_bytes flow, t0 + of_nat m * dt)"
    using spiking_steady [OF assms(6) _ assms(4)] assms(8) by simp
  from steady_step [OF 1(2) assms(2) refl, of "t0 + of_nat m * dt + dt"] sp obtain ad2 flow2 where
    2: "check_flow (t0 + of_nat m * dt + dt) ad1 flow = Some (ANOMALY_SPIKE, ad2, flow2)" by auto
  have "steady t0 dt flow (Suc n) = steady t0 dt flow n @ [(t0 + of_nat m * dt + dt, flow)]"
    by (simp add: steady_def Suc algebra_simps)
  then show ?thesis using 1(1) 2 by (simp add: check_all_append)
qed

text \<open>Ten megabytes once per second are 80 Mbit/s, below the threshold of 100 Mbit/s.\<close>

theorem steady_flow_flagged_witness:
  "\<exists>ad'. check_all ex_ad (steady 1 1000000000 (zero_flow_event\<lparr>fe_bytes := 10000000\<rparr>) 3) =
     Some ([ANOMALY_NONE, ANOMALY_NONE, ANOMALY_SPIKE], ad') \<and> bw_bps 10000000 1000000000 = 80000000"
proof -
  have c: "anomaly_detector_create True = Some ex_ad" by (simp add: ex_ad_def anomaly_detector_create_def)
  have "bw_bps 10000000 1000000000 = 80000000" by (simp add: bw_bps_def)
  moreover have "steady 1 1000000000 f (Suc 2) = steady 1 1000000000 f 3" for f by (simp add: steady_def)
  moreover have "fe_tcp_flags (zero_flow_event\<lparr>fe_bytes := 10000000\<rparr>) = 0" by (simp add: zero_flow_event_def)
  moreover have "replicate 2 ANOMALY_NONE = [ANOMALY_NONE, ANOMALY_NONE]" by (simp add: numeral_2_eq_2)
  ultimately show ?thesis
    using steady_flow_flagged [OF c, of "zero_flow_event\<lparr>fe_bytes := 10000000\<rparr>" 1 1000000000 2]
    by (simp del: ANOMALY_NONE_def ANOMALY_SPIKE_def)
qed

text \<open>
  The bandwidth product wraps at 64 bits.  A flow with 2305843010 bytes (2.3 GB) accounted that
  sends its next packet within a second is measured at 6 bit/s and passes.
\<close>

theorem bandwidth_wraps:
  assumes "ad_inv ad" "ad_spike_count ad < INT_MAX"
    "bw_abs ad (bw_flow_key flow) = Some (2305843010, t)" "t \<noteq> 0"
  shows "bw_bps 2305843010 1000000000 = 6 \<and>
    (\<exists>ad' flow'. check_spike (t + 1000000000) ad flow = Some (None, ad', flow'))"
proof -
  have "bw_bps 2305843010 1000000000 = 6" by (simp add: bw_bps_def)
  then have "\<not> spiking (t + 1000000000) (bw_known ad (bw_flow_key flow))"
    using assms(3) by (simp add: spiking_def bw_known_def)
  with check_spike_spec [OF assms(1,2) refl, of "t + 1000000000" flow] \<open>bw_bps 2305843010 1000000000 = 6\<close>
  show ?thesis by auto
qed

theorem bandwidth_wraps_witness:
  "\<exists>ad ad' flow'. check_all ex_ad [(5, zero_flow_event\<lparr>fe_bytes := 2305843010\<rparr>)] = Some ([ANOMALY_NONE], ad) \<and>
     check_spike (5 + 1000000000) ad (zero_flow_event\<lparr>fe_bytes := 2305843010\<rparr>) = Some (None, ad', flow')"
proof -
  let ?f = "zero_flow_event\<lparr>fe_bytes := 2305843010\<rparr>"
  have c: "anomaly_detector_create True = Some ex_ad" by (simp add: ex_ad_def anomaly_detector_create_def)
  have "fe_tcp_flags ?f AND TCP_FLAG_RST = 0" by (simp add: zero_flow_event_def)
  from steady_first [OF c this, of 5] obtain ad where
    ad: "check_all ex_ad [(5, ?f)] = Some ([ANOMALY_NONE], ad)" "steady_state ?f 1 5 ad" by blast
  from ad(2) have "ad_inv ad" "ad_spike_count ad < INT_MAX" "bw_abs ad (bw_flow_key ?f) = Some (2305843010, 5)"
    by (simp_all add: steady_state_def counts_def)
  moreover have "(5 :: u64) \<noteq> 0" by simp
  ultimately show ?thesis using bandwidth_wraps ad(1) by blast
qed

end
