(* ===== verification/Serializer.thy ===== *)
theory Serializer
  imports Stb_Common
begin

text \<open>
  \<open>src/serializer.c\<close>: JSON text of flow events, host metrics and batches.  The output buffer is
  a list of its allocated length, and every write is checked: a write outside it is \<open>None\<close>.
  \<open>output_size\<close> and \<open>written\<close> are C \<open>int\<close>s.  Reading a character array as a string (\<open>%s\<close>) needs a
  terminating NUL inside it.  \<open>%.1f\<close> rounds half to even, as the C library does.
\<close>

section \<open>Formatting\<close>

definition round_half_even :: "rat \<Rightarrow> int" where
  "round_half_even x =
     (let f = \<lfloor>x\<rfloor>; d = x - of_int f
      in if d < 1 / 2 then f else if d > 1 / 2 then f + 1 else if even f then f else f + 1)"

definition show_fixed1 :: "rat \<Rightarrow> string" where
  "show_fixed1 x =
     (let n = nat (round_half_even (\<bar>x\<bar> * 10))
      in (if x < 0 then ''-'' else '''') @ show_nat (n div 10) @ ''.'' @ show_nat (n mod 10))"

section \<open>Single records\<close>

text \<open>The complete text of \<open>serialize_flow_event\<close>, before truncation to the buffer.\<close>

definition flow_event_json :: "flow_event_t \<Rightarrow> string \<Rightarrow> string ub" where
  "flow_event_json event probe_id =
     do { src \<leftarrow> c_string (ip_to_str (fe_src_ip event) (zbuf 16) 16);
          dst \<leftarrow> c_string (ip_to_str (fe_dst_ip event) (zbuf 16) 16);
          category \<leftarrow> c_string (fe_category event);
          event_type \<leftarrow> c_string (fe_event_type event);
          protocol \<leftarrow> c_string (fe_protocol event);
          service \<leftarrow> c_string (fe_service event);
          details \<leftarrow> c_string (fe_details event);
          tags \<leftarrow> c_string (fe_tags event);
          Some (''{\"timestamp\":'' @ show_word (fe_timestamp_ns event) @ '',\"probe_id\":\"'' @ probe_id @ ''\",'' @
            ''\"category\":\"'' @ category @ ''\",\"event_type\":\"'' @ event_type @ ''\",'' @
            ''\"src_ip\":\"'' @ src @ ''\",\"dst_ip\":\"'' @ dst @ ''\",'' @
            ''\"src_port\":'' @ show_word (fe_src_port event) @ '',\"dst_port\":'' @ show_word (fe_dst_port event) @ '','' @
            ''\"protocol\":\"'' @ protocol @ ''\",\"ip_version\":'' @ show_word (fe_ip_version event) @ '','' @
            ''\"tcp_flags\":'' @ show_word (fe_tcp_flags event) @ '',\"pkt_len\":'' @ show_word (fe_pkt_len event) @ '','' @
            ''\"bytes\":'' @ show_word (fe_bytes event) @ '',\"packets\":'' @ show_word (fe_packets event) @ '','' @
            ''\"latency_us\":'' @ show_word (fe_latency_us event) @
            '',\"bandwidth_bps\":'' @ show_word (fe_bandwidth_bps event) @ '','' @
            ''\"retransmits\":'' @ show_word (fe_retransmits event) @ '',\"dup_acks\":'' @ show_word (fe_dup_acks event) @ '','' @
            ''\"anomaly\":'' @ show_word (fe_anomaly event) @ '',\"payload_type\":'' @ show_word (fe_payload_type event) @
            '',\"pid\":'' @ show_word (fe_pid event) @ '','' @
            ''\"service\":\"'' @ service @ ''\",\"details\":\"'' @ details @ ''\",\"tags\":\"'' @ tags @ ''\"}'') }"

definition host_metric_json :: "host_metric_t \<Rightarrow> string \<Rightarrow> string" where
  "host_metric_json metric probe_id =
     ''{\"timestamp\":'' @ show_word (hm_timestamp_ns metric) @ '',\"probe_id\":\"'' @ probe_id @ ''\",'' @
     ''\"category\":\"metrics\",\"event_type\":\"host_metrics\",'' @
     ''\"cpu\":'' @ show_fixed1 (hm_cpu_percent metric) @ '',\"mem\":'' @ show_fixed1 (hm_memory_percent metric) @
     '',\"disk\":'' @ show_fixed1 (hm_disk_percent metric) @ '','' @
     ''\"net_rx\":'' @ show_word (hm_net_rx_bytes metric) @ '',\"net_tx\":'' @ show_word (hm_net_tx_bytes metric) @ ''}''"

section \<open>Checked writes\<close>

definition put :: "cbuf \<Rightarrow> int \<Rightarrow> char \<Rightarrow> cbuf ub" where
  "put b i c = (if 0 \<le> i \<and> nat i < length b then Some (b[nat i := c]) else None)"

text \<open>
  \<open>snprintf(output + off, sz, ...)\<close> with the full text \<open>s\<close>: it writes \<open>min (sz - 1) (length s)\<close>
  characters and a NUL.  A negative \<open>size\<close> would be a huge \<open>size_t\<close>.  The result is the length of
  \<open>s\<close>, or \<open>-1\<close> when that is no \<open>int\<close>.
\<close>

definition snprintf_at :: "cbuf \<Rightarrow> int \<Rightarrow> int \<Rightarrow> string \<Rightarrow> cbuf ub" where
  "snprintf_at b off sz s =
     (if sz = 0 then Some b
      else let n = (if sz < 0 then length s else min (nat sz - 1) (length s))
           in if 0 \<le> off \<and> nat off + n < length b
              then Some (take (nat off) b @ take n s @ NUL # drop (nat off + n + 1) b)
              else None)"

definition printf_ret :: "string \<Rightarrow> int" where
  "printf_ret s = (if int (length s) \<le> INT_MAX then int (length s) else - 1)"

definition serialize_flow_event ::
  "flow_event_t \<Rightarrow> string \<Rightarrow> cbuf \<Rightarrow> int \<Rightarrow> int \<Rightarrow> (int \<times> cbuf) ub" where
  "serialize_flow_event event probe_id output off sz =
     do { s \<leftarrow> flow_event_json event probe_id;
          output \<leftarrow> snprintf_at output off sz s;
          Some (printf_ret s, output) }"

definition serialize_host_metric ::
  "host_metric_t \<Rightarrow> string \<Rightarrow> cbuf \<Rightarrow> int \<Rightarrow> int \<Rightarrow> (int \<times> cbuf) ub" where
  "serialize_host_metric metric probe_id output off sz =
     do { output \<leftarrow> snprintf_at output off sz (host_metric_json metric probe_id);
          Some (printf_ret (host_metric_json metric probe_id), output) }"

section \<open>Batches\<close>

definition put_comma :: "bool \<Rightarrow> cbuf \<Rightarrow> int \<Rightarrow> (cbuf \<times> int) ub" where
  "put_comma first output written =
     (if first then Some (output, written)
      else do { output \<leftarrow> put output written CHR '',''; Some (output, written + 1) })"

fun batch_loop ::
  "string \<Rightarrow> int \<Rightarrow> flow_event_t list \<Rightarrow> cbuf \<Rightarrow> int \<Rightarrow> bool \<Rightarrow> (cbuf \<times> int \<times> bool) ub" where
  "batch_loop probe_id output_size [] output written first = Some (output, written, first)"
| "batch_loop probe_id output_size (event # events) output written first =
     (if \<not> written < output_size - 2 then Some (output, written, first)
      else
        do { (output, written) \<leftarrow> put_comma first output written;
             (ret, output) \<leftarrow> serialize_flow_event event probe_id output written (output_size - written);
             if ret < 0 then Some (output, written, first)
             else if ret \<ge> output_size - written then Some (output, output_size - 2, first)
             else batch_loop probe_id output_size events output (written + ret) False })"

definition batch_metric ::
  "string \<Rightarrow> int \<Rightarrow> host_metric_t ptr \<Rightarrow> cbuf \<Rightarrow> int \<Rightarrow> bool \<Rightarrow> (cbuf \<times> int) ub" where
  "batch_metric probe_id output_size metric output written first =
     (case metric of
        None \<Rightarrow> Some (output, written)
      | Some m \<Rightarrow>
          if written < output_size - 2 then
            do { (output, written) \<leftarrow> put_comma first output written;
                 (ret, output) \<leftarrow> serialize_host_metric m probe_id output written (output_size - written);
                 Some (output, if ret > 0 then written + ret else written) }
          else Some (output, written))"

definition serialize_batch ::
  "flow_event_t list \<Rightarrow> host_metric_t ptr \<Rightarrow> string \<Rightarrow> cbuf \<Rightarrow> int \<Rightarrow> (int \<times> cbuf) ub" where
  "serialize_batch flow_events metric probe_id output output_size =
     do { output \<leftarrow> put output 0 CHR ''['';
          (output, written, first) \<leftarrow> batch_loop probe_id output_size flow_events output 1 True;
          (output, written) \<leftarrow> batch_metric probe_id output_size metric output written first;
          output \<leftarrow> put output written CHR '']'';
          output \<leftarrow> put output (written + 1) NUL;
          Some (written + 1, output) }"

section \<open>Reference\<close>

text \<open>The batch as a JSON array: the texts of the records with commas between.\<close>

definition item_texts :: "flow_event_t list \<Rightarrow> host_metric_t ptr \<Rightarrow> string \<Rightarrow> string list ub" where
  "item_texts events metric probe_id =
     map_option (\<lambda>ts. ts @ (case metric of None \<Rightarrow> [] | Some m \<Rightarrow> [host_metric_json m probe_id]))
       (those (map (\<lambda>e. flow_event_json e probe_id) events))"

definition json_array :: "string list \<Rightarrow> string" where
  "json_array ts = ''['' @ concat (case ts of [] \<Rightarrow> [] | t # ts \<Rightarrow> t # map (Cons CHR '','') ts) @ '']''"

definition joined :: "bool \<Rightarrow> string list \<Rightarrow> string" where
  "joined first ts = concat (case ts of [] \<Rightarrow> [] | t # ts \<Rightarrow> (if first then t else CHR '','' # t) # map (Cons CHR '','') ts)"

text \<open>The first \<open>w\<close> characters of the buffer are \<open>t\<close>.\<close>

definition holds :: "cbuf \<Rightarrow> int \<Rightarrow> string \<Rightarrow> bool" where
  "holds b w t \<longleftrightarrow> w = int (length t) \<and> take (length t) b = t"

definition ex_metric :: host_metric_t where
  "ex_metric = \<lparr>hm_timestamp_ns = 0, hm_probe_id = zbuf 64, hm_cpu_percent = 5 / 2, hm_memory_percent = 0,
     hm_disk_percent = 0, hm_net_rx_bytes = 0, hm_net_tx_bytes = 0, hm_disk_read_bytes = 0, hm_disk_write_bytes = 0\<rparr>"

section \<open>Lemmas\<close>

lemma joined_simps [simp]:
  "joined f [] = []" "joined True (t # ts) = t @ joined False ts" "joined False (t # ts) = CHR '','' # t @ joined False ts"
  by (auto simp: joined_def split: list.splits)

lemma json_array_joined: "json_array ts = ''['' @ joined True ts @ '']''"
  by (auto simp: json_array_def joined_def split: list.splits)

lemma put_holds:
  assumes "holds b w t" "length t < length b"
  shows "\<exists>b'. put b w c = Some b' \<and> holds b' (w + 1) (t @ [c]) \<and> length b' = length b"
proof -
  have "take (Suc (length t)) (b[length t := c]) = take (length t) b @ [c]"
    using assms(2) by (simp add: take_Suc_conv_app_nth)
  with assms show ?thesis by (simp add: put_def holds_def)
qed

lemma holds_len: "holds b w t \<Longrightarrow> w = int (length t)"
  by (simp add: holds_def)

lemma put_comma_holds:
  assumes "holds b w t" "length t < length b" and t1: "t1 = (if first then t else t @ [CHR '',''])"
  shows "\<exists>b1. put_comma first b w = Some (b1, int (length t1)) \<and> holds b1 (int (length t1)) t1 \<and> length b1 = length b"
proof (cases first)
  case True
  with assms(1) t1 holds_len [OF assms(1)] show ?thesis by (simp add: put_comma_def)
next
  case False
  from put_holds [OF assms(1,2), of "CHR '',''"] obtain b1 where
    "put b w CHR '','' = Some b1" "holds b1 (w + 1) (t @ [CHR '',''])" "length b1 = length b" by blast
  with False t1 holds_len [OF assms(1)] show ?thesis by (simp add: put_comma_def algebra_simps)
qed

lemma snprintf_holds:
  assumes "holds b w t" "length t + length s < length b" "int (length s) < sz"
  shows "\<exists>b'. snprintf_at b w sz s = Some b' \<and> holds b' (w + int (length s)) (t @ s) \<and> length b' = length b"
proof -
  have t: "take (length t) b = t" "w = int (length t)" using assms(1) by (simp_all add: holds_def)
  have n: "(if sz < 0 then length s else min (nat sz - 1) (length s)) = length s" "sz \<noteq> 0"
    using assms(3) by auto
  show ?thesis
    using t n assms(2) by (simp add: snprintf_at_def Let_def holds_def)
qed

lemma item_holds:
  assumes "holds b w t" and t1: "t1 = (if first then t else t @ [CHR '',''])"
    and room: "length t1 + length s + 1 \<le> nat sz" "nat sz \<le> length b" "sz \<le> INT_MAX" "2 \<le> length s"
  shows "\<exists>b1 b2. put_comma first b w = Some (b1, int (length t1)) \<and>
    snprintf_at b1 (int (length t1)) (sz - int (length t1)) s = Some b2 \<and>
    holds b2 (int (length (t1 @ s))) (t1 @ s) \<and> length b2 = length b" (is ?P)
    and "printf_ret s = int (length s)" "int (length s) < sz - int (length t1)" "w < sz - 2"
proof -
  have le: "length t \<le> length t1" by (simp add: t1)
  with room show "printf_ret s = int (length s)" "int (length s) < sz - int (length t1)" "w < sz - 2"
    using holds_len [OF assms(1)] by (auto simp: printf_ret_def)
  have "length t < length b" using le room by linarith
  from put_comma_holds [OF assms(1) this t1] obtain b1 where
    1: "put_comma first b w = Some (b1, int (length t1))" "holds b1 (int (length t1)) t1" "length b1 = length b" by blast
  have "length t1 + length s < length b1" "int (length s) < sz - int (length t1)" using 1(3) room by linarith+
  from snprintf_holds [OF 1(2) this] 1 show ?P by auto
qed

lemma length_flow_event_json: "flow_event_json e pid = Some s \<Longrightarrow> 2 \<le> length s"
  by (auto simp: flow_event_json_def bind_eq_Some_conv)

lemma batch_loop_fits:
  assumes "those (map (\<lambda>e. flow_event_json e pid) es) = Some ts" "holds b w t"
    "length t + length (joined first ts) + 1 \<le> nat sz" "nat sz \<le> length b" "sz \<le> INT_MAX"
  shows "\<exists>b' first'. batch_loop pid sz es b w first = Some (b', int (length t + length (joined first ts)), first') \<and>
    holds b' (int (length t + length (joined first ts))) (t @ joined first ts) \<and> length b' = length b \<and>
    (first' \<longleftrightarrow> first \<and> ts = [])"
  using assms
proof (induction es arbitrary: ts b w t first)
  case Nil
  then show ?case by (auto simp: holds_def)
next
  case (Cons e es)
  from Cons.prems(1) obtain s ss where ts: "ts = s # ss" "flow_event_json e pid = Some s"
    "those (map (\<lambda>e. flow_event_json e pid) es) = Some ss" by (auto split: option.splits)
  have len: "2 \<le> length s" using ts(2) by (rule length_flow_event_json)
  obtain t1 where t1: "t1 = (if first then t else t @ [CHR '',''])" by blast
  have join: "t @ joined first ts = (t1 @ s) @ joined False ss" by (cases first) (simp_all add: ts t1)
  then have join_len: "length t + length (joined first ts) = length (t1 @ s) + length (joined False ss)"
    by (metis length_append)
  have room: "length t1 + length s + 1 \<le> nat sz" using Cons.prems(3) join_len by simp
  note item = item_holds [OF Cons.prems(2) t1 room Cons.prems(4,5) len]
  from item(1) obtain b1 b2 where 1: "put_comma first b w = Some (b1, int (length t1))"
    and 2: "snprintf_at b1 (int (length t1)) (sz - int (length t1)) s = Some b2"
      "holds b2 (int (length (t1 @ s))) (t1 @ s)" "length b2 = length b" by blast
  from Cons.IH [OF ts(3) 2(2), of False] obtain b' first' where
    3: "batch_loop pid sz es b2 (int (length (t1 @ s))) False =
          Some (b', int (length (t1 @ s) + length (joined False ss)), first')"
      "holds b' (int (length (t1 @ s) + length (joined False ss))) ((t1 @ s) @ joined False ss)"
      "length b' = length b" "\<not> first'"
    using Cons.prems(3-5) 2(3) join_len by auto
  have "batch_loop pid sz (e # es) b w first = batch_loop pid sz es b2 (int (length (t1 @ s))) False"
    using 1 2(1) ts(2) item(2-4) by (simp add: serialize_flow_event_def)
  then show ?case using 3 ts(1) unfolding join join_len by auto
qed

lemma batch_metric_fits:
  assumes "holds b w t" "length t + length (joined first [host_metric_json m pid]) + 1 \<le> nat sz"
    "nat sz \<le> length b" "sz \<le> INT_MAX"
  shows "\<exists>b'. batch_metric pid sz (Some m) b w first =
      Some (b', int (length t + length (joined first [host_metric_json m pid]))) \<and>
    holds b' (int (length t + length (joined first [host_metric_json m pid]))) (t @ joined first [host_metric_json m pid]) \<and>
    length b' = length b"
proof -
  let ?s = "host_metric_json m pid" and ?t1 = "if first then t else t @ [CHR '','']"
  have len: "2 \<le> length ?s" by (simp add: host_metric_json_def)
  have room: "length ?t1 + length ?s + 1 \<le> nat sz" using assms(2) by (cases first) auto
  note item = item_holds [OF assms(1) refl room assms(3,4) len]
  from item(1) obtain b1 b2 where 1: "put_comma first b w = Some (b1, int (length ?t1))"
    and 2: "snprintf_at b1 (int (length ?t1)) (sz - int (length ?t1)) ?s = Some b2"
      "holds b2 (int (length (?t1 @ ?s))) (?t1 @ ?s)" "length b2 = length b" by blast
  have "batch_metric pid sz (Some m) b w first = Some (b2, int (length (?t1 @ ?s)))"
    using 1 2(1) item(2-4) len by (simp add: batch_metric_def serialize_host_metric_def)
  moreover have "?t1 @ ?s = t @ joined first [?s]" by (cases first) simp_all
  ultimately show ?thesis using 2 by (metis length_append)
qed

lemma serialize_batch_holds:
  assumes "item_texts events metric pid = Some ts" "length (json_array ts) < nat sz" "nat sz \<le> length output" "sz \<le> INT_MAX"
  shows "\<exists>b. serialize_batch events metric pid output sz = Some (int (length (json_array ts)), b) \<and>
    length b = length output \<and> take (Suc (length (json_array ts))) b = json_array ts @ [NUL]"
proof -
  from assms(1) obtain fs where fs: "those (map (\<lambda>e. flow_event_json e pid) events) = Some fs"
    and ts: "ts = fs @ (case metric of None \<Rightarrow> [] | Some m \<Rightarrow> [host_metric_json m pid])"
    by (auto simp: item_texts_def)
  have join: "joined True ts = joined True fs @
      (case metric of None \<Rightarrow> [] | Some m \<Rightarrow> joined (fs = []) [host_metric_json m pid])"
    by (cases fs) (auto simp: ts joined_def split: option.splits)
  have "holds output 0 []" "output \<noteq> []" using assms(2,3) by (auto simp: holds_def)
  from put_holds [OF this(1), of "CHR ''[''"] this(2) obtain b0 where
    0: "put output 0 CHR ''['' = Some b0" "holds b0 1 ''[''" "length b0 = length output" by auto
  obtain t1 t2 where t: "t1 = ''['' @ joined True fs" "t2 = ''['' @ joined True ts" by blast
  have arr: "json_array ts = t2 @ '']''" by (simp add: t json_array_joined)
  from batch_loop_fits [OF fs 0(2), of True sz] obtain b1 first where
    1: "batch_loop pid sz events b0 1 True = Some (b1, int (length t1), first)"
      "holds b1 (int (length t1)) t1" "length b1 = length output" "first \<longleftrightarrow> fs = []"
    using assms(2-4) 0(3) by (auto simp: json_array_joined join t)
  obtain b2 where 2: "batch_metric pid sz metric b1 (int (length t1)) first = Some (b2, int (length t2))"
    "holds b2 (int (length t2)) t2" "length b2 = length output"
  proof (cases metric)
    case None
    with 1 that [of b1] join show thesis by (simp add: batch_metric_def t)
  next
    case (Some m)
    have j: "t2 = t1 @ joined first [host_metric_json m pid]" using Some 1(4) join by (simp add: t)
    then have "length t1 + length (joined first [host_metric_json m pid]) + 1 \<le> nat sz"
      using assms(2) by (simp add: arr)
    from batch_metric_fits [OF 1(2) this] assms(3,4) 1(3) Some that show thesis
      unfolding j length_append by auto
  qed
  from put_holds [OF 2(2), of "CHR '']''"] 2(3) assms(2,3) obtain b3 where
    3: "put b2 (int (length t2)) CHR '']'' = Some b3" "holds b3 (int (length t2) + 1) (json_array ts)" "length b3 = length output"
    by (auto simp: arr)
  from put_holds [OF 3(2), of NUL] 3(3) assms(2,3) obtain b4 where
    4: "put b3 (int (length t2) + 1) NUL = Some b4" "holds b4 (int (length t2) + 1 + 1) (json_array ts @ [NUL])" "length b4 = length output"
    by auto
  moreover have "int (length t2) + 1 = int (length (json_array ts))" by (simp add: arr)
  ultimately show ?thesis
    using 0(1) 1(1) 2(1) 3(1) by (simp add: serialize_batch_def holds_def)
qed

text \<open>
  Off by one at the end of the buffer.  When the array of the events has exactly \<open>output_size\<close>
  characters, so that only its NUL does not fit, the truncation check passes and the NUL is
  written one past the end of a buffer of \<open>output_size\<close> bytes.
\<close>

theorem serialize_batch_nul_overflow:
  assumes "item_texts events None pid = Some ts" "length (json_array ts) = nat sz" "length output = nat sz"
    "2 \<le> sz" "sz \<le> INT_MAX"
  shows "serialize_batch events None pid output sz = None"
proof -
  from assms(1) have ts: "those (map (\<lambda>e. flow_event_json e pid) events) = Some ts"
    by (auto simp: item_texts_def)
  have "holds output 0 []" "output \<noteq> []" using assms(3,4) by (auto simp: holds_def)
  from put_holds [OF this(1), of "CHR ''[''"] this(2) obtain b0 where
    0: "put output 0 CHR ''['' = Some b0" "holds b0 1 ''[''" "length b0 = length output" by auto
  from batch_loop_fits [OF ts 0(2), of True sz] obtain b1 first where
    1: "batch_loop pid sz events b0 1 True = Some (b1, sz - 1, first)" "length b1 = length output"
    using assms(2-5) 0(3) by (auto simp: json_array_joined)
  have "put b1 (sz - 1) CHR '']'' = Some b2 \<Longrightarrow> put b2 sz NUL = None" for b2
    using 1(2) assms(3) by (auto simp: put_def split: if_splits)
  then show ?thesis
    using 0(1) 1(1) by (auto simp: serialize_batch_def batch_metric_def split: Option.bind_splits)
qed

text \<open>
  The result for the host metric is not checked for truncation.  When the events fit but the
  array with the metric does not, the closing bracket or the NUL is written past the end of a
  buffer of \<open>output_size\<close> bytes.
\<close>

theorem serialize_batch_metric_overflow:
  assumes "item_texts events None pid = Some ts" "length (json_array ts) < nat sz - 1"
    "nat sz \<le> length (json_array (ts @ [host_metric_json m pid]))" "length output = nat sz" "sz \<le> INT_MAX"
    "int (length (host_metric_json m pid)) \<le> INT_MAX"
  shows "serialize_batch events (Some m) pid output sz = None"
proof -
  let ?s = "host_metric_json m pid"
  from assms(1) have ts: "those (map (\<lambda>e. flow_event_json e pid) events) = Some ts"
    by (auto simp: item_texts_def)
  have "holds output 0 []" "output \<noteq> []" using assms(2,4) by (auto simp: holds_def)
  from put_holds [OF this(1), of "CHR ''[''"] this(2) obtain b0 where
    0: "put output 0 CHR ''['' = Some b0" "holds b0 1 ''[''" "length b0 = length output" by auto
  obtain t where t: "t = ''['' @ joined True ts" by blast
  have fit: "Suc (Suc (length (joined True ts))) \<le> nat sz" using assms(2) by (simp add: json_array_joined)
  from batch_loop_fits [OF ts 0(2), of True sz] obtain b1 where
    1: "batch_loop pid sz events b0 1 True = Some (b1, int (length t), ts = [])"
      "length b1 = length output" "holds b1 (int (length t)) t"
    using fit assms(4,5) 0(3) by (auto simp: t)
  have small: "int (length t) < sz - 2" using assms(2) by (simp add: json_array_joined t)
  obtain t1 where t1: "t1 = (if ts = [] then t else t @ [CHR '',''])" by blast
  have "length t < length b1" using small 1(2) assms(4) by simp
  from put_comma_holds [OF 1(3) this t1] obtain b2 where
    2: "put_comma (ts = []) b1 (int (length t)) = Some (b2, int (length t1))" "length b2 = length output"
    using 1(2) by auto
  have "json_array (ts @ [?s]) = t1 @ ?s @ '']''"
    by (cases ts) (simp_all add: json_array_def t1 t joined_def)
  then have big: "sz \<le> int (length t1) + int (length ?s) + 1" using assms(3) by simp
  have w: "put b (int (length t1) + int (length ?s)) CHR '']'' = Some b' \<Longrightarrow>
      put b' (int (length t1) + int (length ?s) + 1) NUL = None" if "length b = length output" for b b'
    using that big assms(4) by (auto simp: put_def split: if_splits)
  have l: "snprintf_at b2 o' k s = Some b \<Longrightarrow> length b = length output" for o' k s b
    using 2(2) by (auto simp: snprintf_at_def Let_def split: if_splits)
  have ret: "printf_ret ?s = int (length ?s)" "0 < length ?s"
    using assms(6) by (simp_all add: printf_ret_def host_metric_json_def)
  show ?thesis
    using 0(1) 1(1) 2(1) small ret
    by (auto simp: serialize_batch_def batch_metric_def serialize_host_metric_def dest: w [OF l] split: Option.bind_splits)
qed

lemma unat_less_pow: "unat (w :: 'a::len word) < 2 ^ LENGTH('a)"
  by (rule unsigned_less)

lemma length_show_word_le:
  "length (show_word (x :: u8)) \<le> 3" "length (show_word (y :: u16)) \<le> 5"
  "length (show_word (z :: u32)) \<le> 10" "length (show_word (w :: u64)) \<le> 20"
proof -
  show "length (show_word x) \<le> 3" unfolding show_word_def using unat_less_pow [of x] by (intro length_show_nat) auto
  show "length (show_word y) \<le> 5" unfolding show_word_def using unat_less_pow [of y] by (intro length_show_nat) auto
  show "length (show_word z) \<le> 10" unfolding show_word_def using unat_less_pow [of z] by (intro length_show_nat) auto
  show "length (show_word w) \<le> 20" unfolding show_word_def using unat_less_pow [of w] by (intro length_show_nat) auto
qed

lemma c_string_ip: "c_string (ip_to_str ip (zbuf 16) 16) = Some (dotted (ip_bytes ip))"
proof -
  have "ip_to_str ip (zbuf 16) 16 = print_field (zbuf 16) (dotted (ip_bytes ip))"
    by (simp add: ip_to_str_def print_field_def)
  moreover have "take 15 (dotted (ip_bytes ip)) = dotted (ip_bytes ip)"
    using length_dotted_le [of "ip_bytes ip"] by simp
  ultimately show ?thesis
    using c_string_wf [OF wf_print_field [OF wf_zbuf [of 16]], of "dotted (ip_bytes ip)"]
    by (simp add: cstr_print_field [OF wf_zbuf])
qed

lemma flow_event_json_wf:
  assumes "wf_flow_event e"
  shows "\<exists>s. flow_event_json e pid = Some s \<and> length s \<le> 751 + length pid"
proof -
  have wf: "wf_cbuf 16 (fe_category e)" "wf_cbuf 16 (fe_event_type e)" "wf_cbuf 8 (fe_protocol e)"
    "wf_cbuf 32 (fe_service e)" "wf_cbuf 128 (fe_details e)" "wf_cbuf 64 (fe_tags e)"
    using assms by (simp_all add: wf_flow_event_def)
  note fields = wf [THEN length_cstr_less]
  note words = length_show_word_le(1) [of "fe_ip_version e"] length_show_word_le(1) [of "fe_tcp_flags e"]
    length_show_word_le(1) [of "fe_anomaly e"] length_show_word_le(1) [of "fe_payload_type e"]
    length_show_word_le(2) [of "fe_src_port e"] length_show_word_le(2) [of "fe_dst_port e"] length_show_word_le(2) [of "fe_pkt_len e"]
    length_show_word_le(3) [of "fe_retransmits e"] length_show_word_le(3) [of "fe_dup_acks e"] length_show_word_le(3) [of "fe_pid e"]
    length_show_word_le(4) [of "fe_timestamp_ns e"] length_show_word_le(4) [of "fe_bytes e"] length_show_word_le(4) [of "fe_packets e"]
    length_show_word_le(4) [of "fe_latency_us e"] length_show_word_le(4) [of "fe_bandwidth_bps e"]
  show ?thesis
    unfolding flow_event_json_def
    using fields words length_dotted_le [of "ip_bytes (fe_src_ip e)"] length_dotted_le [of "ip_bytes (fe_dst_ip e)"]
    by (simp add: c_string_ip c_string_wf [OF wf(1)] c_string_wf [OF wf(2)] c_string_wf [OF wf(3)]
        c_string_wf [OF wf(4)] c_string_wf [OF wf(5)] c_string_wf [OF wf(6)])
qed

lemma snprintf_at_safe:
  assumes "0 \<le> w" "0 < sz - w" "nat sz \<le> length b"
  shows "\<exists>b'. snprintf_at b w (sz - w) s = Some b' \<and> length b' = length b"
proof -
  let ?n = "min (nat (sz - w) - 1) (length s)"
  have "nat w + ?n < length b" using assms by auto
  with assms show ?thesis by (auto simp: snprintf_at_def Let_def)
qed

lemma put_safe: "0 \<le> w \<Longrightarrow> nat w < length b \<Longrightarrow> \<exists>b'. put b w c = Some b' \<and> length b' = length b"
  by (simp add: put_def)

lemma batch_loop_safe:
  assumes "\<forall>e \<in> set es. wf_flow_event e" "1 \<le> w" "w < sz" "nat sz \<le> length b"
  shows "\<exists>b' w' first'. batch_loop pid sz es b w first = Some (b', w', first') \<and>
    length b' = length b \<and> 1 \<le> w' \<and> w' < sz"
  using assms
proof (induction es arbitrary: b w first)
  case Nil
  then show ?case by simp
next
  case (Cons e es)
  show ?case
  proof (cases "w < sz - 2")
    case False
    with Cons.prems show ?thesis by simp
  next
    case True
    obtain s where s: "flow_event_json e pid = Some s" using flow_event_json_wf Cons.prems(1) by fastforce
    obtain b1 w1 where 1: "put_comma first b w = Some (b1, w1)" "length b1 = length b" "w \<le> w1" "w1 \<le> w + 1"
    proof (cases first)
      case False
      have "nat w < length b" using Cons.prems True by linarith
      with put_safe [of w b "CHR '',''"] Cons.prems(2) False that show thesis by (auto simp: put_comma_def)
    qed (use that in \<open>simp add: put_comma_def\<close>)
    have "0 \<le> w1" "0 < sz - w1" "nat sz \<le> length b1" using 1 True Cons.prems by auto
    from snprintf_at_safe [OF this, of s] obtain b2 where
      2: "snprintf_at b1 w1 (sz - w1) s = Some b2" "length b2 = length b" using 1(2) by auto
    have ser: "serialize_flow_event e pid b1 w1 (sz - w1) = Some (printf_ret s, b2)"
      using s 2(1) by (simp add: serialize_flow_event_def)
    show ?thesis
    proof (cases "0 \<le> printf_ret s \<and> printf_ret s < sz - w1")
      case True
      with Cons.IH [of "w1 + printf_ret s" b2 False] Cons.prems 1 2 ser \<open>w < sz - 2\<close> show ?thesis by simp
    next
      case False
      with Cons.prems 1 2 ser \<open>w < sz - 2\<close> show ?thesis by auto
    qed
  qed
qed

text \<open>
  C20: Without a host metric the batch writer leaves its buffer by at most the one NUL: for
  well-formed events of any number and any size, a buffer of \<open>output_size + 1\<close> bytes is never
  overrun and the result is at most \<open>output_size\<close>.
\<close>

theorem serialize_batch_bounded:
  assumes "\<forall>e \<in> set events. wf_flow_event e" "2 \<le> sz" "nat sz < length output"
  shows "\<exists>n output'. serialize_batch events None pid output sz = Some (n, output') \<and>
    2 \<le> n \<and> n \<le> sz \<and> length output' = length output"
proof -
  obtain b0 where 0: "put output 0 CHR ''['' = Some b0" "length b0 = length output"
    using assms(3) put_safe [of 0 "output" "CHR ''[''"] by fastforce
  from batch_loop_safe [OF assms(1), of 1 sz b0 pid True] obtain b1 w first where
    1: "batch_loop pid sz events b0 1 True = Some (b1, w, first)" "length b1 = length output" "1 \<le> w" "w < sz"
    using assms(2,3) 0(2) by auto
  then show ?thesis
    using 0 assms(3) by (auto simp: serialize_batch_def batch_metric_def put_def)
qed

theorem serialize_batch_bounded_witness:
  "\<exists>n output'. serialize_batch [zero_flow_event, zero_flow_event] None ''p'' (zbuf 101) 100 = Some (n, output') \<and> n \<le> 100"
  using serialize_batch_bounded [of "[zero_flow_event, zero_flow_event]" 100 "zbuf 101" "''p''"] by auto

lemma NUL_notin_show_fixed1 [simp]: "NUL \<notin> set (show_fixed1 x)"
  by (simp add: show_fixed1_def Let_def)

lemma NUL_notin_host_metric: "NUL \<notin> set pid \<Longrightarrow> NUL \<notin> set (host_metric_json m pid)"
  by (simp add: host_metric_json_def)

lemma c_string_NUL: "c_string b = Some s \<Longrightarrow> NUL \<notin> set s"
  by (auto simp: c_string_def split: if_splits)

lemma NUL_notin_flow_event: "flow_event_json e pid = Some s \<Longrightarrow> NUL \<notin> set pid \<Longrightarrow> NUL \<notin> set s"
  by (auto simp: flow_event_json_def bind_eq_Some_conv dest!: c_string_NUL)

lemma those_Some_iff: "those xs = Some ys \<longleftrightarrow> xs = map Some ys"
  by (induction xs arbitrary: ys) (auto split: option.splits)

lemma NUL_notin_items:
  assumes "item_texts events metric pid = Some ts" "NUL \<notin> set pid"
  shows "NUL \<notin> set (json_array ts)"
proof -
  have "NUL \<notin> set t" if "t \<in> set ts" for t
  proof -
    from assms(1) obtain fs where fs: "map (\<lambda>e. flow_event_json e pid) events = map Some fs"
      and ts: "ts = fs @ (case metric of None \<Rightarrow> [] | Some m \<Rightarrow> [host_metric_json m pid])"
      by (auto simp: item_texts_def those_Some_iff)
    have "\<exists>e. flow_event_json e pid = Some f" if "f \<in> set fs" for f
    proof -
      from that have "Some f \<in> set (map (\<lambda>e. flow_event_json e pid) events)" unfolding fs by simp
      then show ?thesis by auto
    qed
    with \<open>t \<in> set ts\<close> ts assms(2) NUL_notin_flow_event NUL_notin_host_metric show ?thesis
      by (fastforce split: option.splits)
  qed
  then show ?thesis by (cases ts) (auto simp: json_array_def)
qed

lemma length_ex_metric: "length (host_metric_json ex_metric ''p'') = 132"
  by (simp add: host_metric_json_def ex_metric_def show_fixed1_def round_half_even_def Let_def show_word_def show_nat.simps)

lemma serialize_batch_cstr:
  assumes "item_texts events metric pid = Some ts" "length (json_array ts) < nat sz" "nat sz \<le> length output" "sz \<le> INT_MAX"
    "NUL \<notin> set pid"
  shows "\<exists>output'. serialize_batch events metric pid output sz = Some (int (length (json_array ts)), output') \<and>
    length output' = length output \<and> cstr output' = json_array ts"
proof -
  from serialize_batch_holds [OF assms(1-4)] obtain b where
    b: "serialize_batch events metric pid output sz = Some (int (length (json_array ts)), b)"
      "length b = length output" "take (Suc (length (json_array ts))) b = json_array ts @ [NUL]" by blast
  have "b = json_array ts @ NUL # drop (Suc (length (json_array ts))) b"
    using b(3) append_take_drop_id [of "Suc (length (json_array ts))" b] by simp
  then have "cstr b = json_array ts"
    using NUL_notin_items [OF assms(1,5)] unfolding cstr_def by (metis takeWhile_stop take_all_iff order_refl)
  with b show ?thesis by blast
qed

lemma item_texts_wf:
  assumes "\<forall>e \<in> set events. wf_flow_event e"
  shows "\<exists>ts. item_texts events None pid = Some ts \<and> length ts = length events \<and>
    length (json_array ts) \<le> 2 + length events * (752 + length pid)"
proof -
  have "\<exists>ts. those (map (\<lambda>e. flow_event_json e pid) events) = Some ts \<and> length ts = length events \<and>
      (\<forall>t \<in> set ts. length t \<le> 751 + length pid)"
    using assms
  proof (induction events)
    case (Cons e es)
    then obtain s where "flow_event_json e pid = Some s" "length s \<le> 751 + length pid"
      using flow_event_json_wf [of e pid] by auto
    with Cons show ?case by auto
  qed simp
  then obtain ts where ts: "those (map (\<lambda>e. flow_event_json e pid) events) = Some ts" "length ts = length events"
    "\<forall>t \<in> set ts. length t \<le> 751 + length pid" by blast
  have "length (joined f ts) \<le> length ts * (752 + length pid)" for f
    using ts(3)
  proof (induction ts arbitrary: f)
    case (Cons t ts)
    have "length (joined f (t # ts)) \<le> 1 + length t + length (joined False ts)" by (cases f) auto
    with Cons.IH [of False] Cons.prems show ?case by auto
  qed simp
  with ts show ?thesis by (auto simp: item_texts_def json_array_joined)
qed

theorem serialize_batch_nul_overflow_witness:
  "\<exists>sz. 2 \<le> sz \<and> serialize_batch [zero_flow_event] None ''p'' (zbuf (nat sz)) sz = None"
proof -
  obtain s where s: "flow_event_json zero_flow_event ''p'' = Some s" "length s \<le> 752"
    using flow_event_json_wf [OF wf_zero_flow_event, of "''p''"] by auto
  then have it: "item_texts [zero_flow_event] None ''p'' = Some [s]" by (simp add: item_texts_def)
  have "length (json_array [s]) = nat (int (length s) + 2)" by (simp add: json_array_def)
  from serialize_batch_nul_overflow [OF it this, of "zbuf (nat (int (length s) + 2))"] s(2) show ?thesis
    by (intro exI [of _ "int (length s) + 2"]) simp
qed

theorem serialize_batch_metric_overflow_witness:
  "serialize_batch [] (Some ex_metric) ''p'' (zbuf 100) 100 = None"
proof -
  have it: "item_texts [] None ''p'' = Some []" by (simp add: item_texts_def)
  have "nat 100 \<le> length (json_array ([] @ [host_metric_json ex_metric ''p'']))"
    using length_ex_metric by (simp add: json_array_def)
  from serialize_batch_metric_overflow [OF it _ this, of "zbuf 100"] length_ex_metric show ?thesis
    by (simp add: json_array_def)
qed

text \<open>
  C19: A batch that fits is written completely and exactly.  When the JSON array of the events (and of
  the host metric, if there is one) and its terminating NUL fit into \<open>output_size\<close>, the output is
  that array, the result its length, and no write leaves the buffer.
\<close>

theorem serialize_batch_complete:
  assumes "item_texts events metric pid = Some ts" "length (json_array ts) < nat sz" "nat sz \<le> length output" "sz \<le> INT_MAX"
    "NUL \<notin> set pid"
  shows "\<exists>output'. serialize_batch events metric pid output sz = Some (int (length (json_array ts)), output') \<and>
    length output' = length output \<and> cstr output' = json_array ts"
  using serialize_batch_cstr [OF assms] .

theorem serialize_batch_complete_witness:
  "\<exists>ts output'. item_texts [zero_flow_event] (Some ex_metric) ''p'' = Some ts \<and>
     serialize_batch [zero_flow_event] (Some ex_metric) ''p'' (zbuf 2000) 2000 = Some (int (length (json_array ts)), output') \<and>
     cstr output' = json_array ts"
proof -
  obtain s where s: "flow_event_json zero_flow_event ''p'' = Some s" "length s \<le> 752"
    using flow_event_json_wf [OF wf_zero_flow_event, of "''p''"] by auto
  then have it: "item_texts [zero_flow_event] (Some ex_metric) ''p'' = Some [s, host_metric_json ex_metric ''p'']"
    by (simp add: item_texts_def)
  have "length (json_array [s, host_metric_json ex_metric ''p'']) < nat 2000"
    using s(2) length_ex_metric by (simp add: json_array_def)
  from serialize_batch_complete [OF it this, of "zbuf 2000"] it show ?thesis by auto
qed

text \<open>
  What the main loop can send at once.  With its buffer of \<open>16 * MAX_JSON_LEN\<close> bytes and a probe
  id of at most 63 characters, any 160 well-formed events are always serialised completely.
\<close>

theorem main_buffer_holds_160_events:
  assumes "\<forall>e \<in> set events. wf_flow_event e" "length events \<le> 160" "length pid \<le> 63" "NUL \<notin> set pid"
    "length output = MAX_JSON_LEN * 16"
  shows "\<exists>ts output'. item_texts events None pid = Some ts \<and> length ts = length events \<and>
    serialize_batch events None pid output (int (MAX_JSON_LEN * 16)) = Some (int (length (json_array ts)), output') \<and>
    cstr output' = json_array ts"
proof -
  obtain ts where ts: "item_texts events None pid = Some ts" "length ts = length events"
    and le: "length (json_array ts) \<le> 2 + length events * (752 + length pid)"
    using item_texts_wf [OF assms(1)] by blast
  have "length events * (752 + length pid) \<le> 160 * 815" using assms(2,3) by (intro mult_mono) auto
  with le have "length (json_array ts) < nat (int (MAX_JSON_LEN * 16))" by (simp add: MAX_JSON_LEN_def)
  from serialize_batch_cstr [OF ts(1) this _ _ assms(4), of "output"] assms(5) ts show ?thesis
    by (auto simp: MAX_JSON_LEN_def)
qed

theorem main_buffer_holds_160_events_witness:
  "\<exists>ts output'. item_texts (replicate 160 zero_flow_event) None ''stb'' = Some ts \<and> length ts = 160 \<and>
     serialize_batch (replicate 160 zero_flow_event) None ''stb'' (zbuf (MAX_JSON_LEN * 16)) (int (MAX_JSON_LEN * 16)) =
       Some (int (length (json_array ts)), output') \<and> cstr output' = json_array ts"
  using main_buffer_holds_160_events [of "replicate 160 zero_flow_event" "''stb''" "zbuf (MAX_JSON_LEN * 16)"]
  by (simp add: wf_zero_flow_event)

end
