(* ===== verification/Sys_Calls.thy ===== *)
theory Sys_Calls
  imports Stb_Prelude
begin

text \<open>
  System calls as the components see them: a function of an abstract world that gives a return
  value, the \<open>errno\<close> the call sets when it fails, and the next world.
\<close>

type_synonym 'w call = "'w \<Rightarrow> int \<times> int \<times> 'w"

text \<open>The \<open>errno\<close> of the process and the world.\<close>

record 'w io =
  io_errno :: int
  io_world :: 'w

definition sys_call :: "'w call \<Rightarrow> 'w io \<Rightarrow> int \<times> 'w io" where
  "sys_call f io =
     (case f (io_world io) of (r, e, w) \<Rightarrow>
        (r, \<lparr>io_errno = (if r < 0 then e else io_errno io), io_world = w\<rparr>))"

definition set_errno :: "int \<Rightarrow> 'w io \<Rightarrow> 'w io" where
  "set_errno e io = io\<lparr>io_errno := e\<rparr>"

text \<open>A call that neither opens nor closes a descriptor.\<close>

definition keeps :: "('w \<Rightarrow> int set) \<Rightarrow> 'w call \<Rightarrow> bool" where
  "keeps opens f \<longleftrightarrow> (\<forall>w. opens (snd (snd (f w))) = opens w)"

end
