(* ===== verification/Tcp_Client.thy ===== *)
theory Tcp_Client
  imports Stb_Common Table_Interfaces Sys_Calls
begin

text \<open>
  \<open>src/tcp_client.c\<close>: the connection to the relay server.  The operating system is a parameter: a
  record of system calls over an abstract world \<open>'w\<close>, each giving a return value, the \<open>errno\<close> it
  sets when it fails, and the next world.  Loops and the mutual recursion of disconnect, flush,
  send and reconnect take fuel.  A result \<open>None\<close> means undefined behaviour (a shift or a
  descriptor set out of range, a read past the data) or fuel used up; the properties show the
  result is \<open>Some\<close>.  Log output is not modelled, except the statistics text.  \<open>tc_inv\<close> is the
  invariant of the client.
\<close>

section \<open>Configuration and state\<close>

definition RECONNECT_INITIAL_DELAY_MS :: int where [simp]: "RECONNECT_INITIAL_DELAY_MS = 1000"
definition RECONNECT_MAX_DELAY_MS :: int where [simp]: "RECONNECT_MAX_DELAY_MS = 30000"
definition RECONNECT_MAX_RETRIES :: int where [simp]: "RECONNECT_MAX_RETRIES = 10"
definition TCP_SEND_BUFFER_SIZE :: nat where "TCP_SEND_BUFFER_SIZE = 65536"

text \<open>Error numbers and flags of the Linux headers.\<close>

definition EINTR :: int where [simp]: "EINTR = 4"
definition EAGAIN :: int where [simp]: "EAGAIN = 11"
definition EINVAL :: int where [simp]: "EINVAL = 22"
definition EPIPE :: int where [simp]: "EPIPE = 32"
definition EMSGSIZE :: int where [simp]: "EMSGSIZE = 90"
definition ECONNRESET :: int where [simp]: "ECONNRESET = 104"
definition ENOTCONN :: int where [simp]: "ENOTCONN = 107"
definition ETIMEDOUT :: int where [simp]: "ETIMEDOUT = 110"
definition EINPROGRESS :: int where [simp]: "EINPROGRESS = 115"
definition O_NONBLOCK :: int where [simp]: "O_NONBLOCK = 2048"

record tcp_client =
  tc_sock_fd :: int
  tc_server_ip :: cbuf
  tc_server_port :: int
  tc_is_connected :: bool
  tc_is_nonblocking :: bool
  tc_reconnect_retries :: int
  tc_reconnect_delay_ms :: int
  tc_last_reconnect_time :: u64
  tc_auto_reconnect :: bool
  tc_send_buffer :: cbuf
  tc_send_buffer_len :: int
  tc_bytes_sent :: u64
  tc_bytes_lost :: u64
  tc_connect_count :: u64
  tc_reconnect_count :: u64

section \<open>System calls\<close>

record 'w sys =
  sys_socket :: "'w call"
  sys_getfl :: "int \<Rightarrow> 'w call"
  sys_setfl :: "int \<Rightarrow> int \<Rightarrow> 'w call"
  sys_inet_pton :: "string \<Rightarrow> bool"
  sys_connect :: "int \<Rightarrow> string \<Rightarrow> int \<Rightarrow> 'w call"
  sys_select_write :: "int \<Rightarrow> 'w call"
  sys_select_read :: "int \<Rightarrow> 'w call"
  sys_so_error :: "int \<Rightarrow> 'w \<Rightarrow> int"
  sys_getsockopt :: "int \<Rightarrow> 'w call"
  sys_send :: "int \<Rightarrow> string \<Rightarrow> 'w call"
  sys_recv :: "int \<Rightarrow> 'w call"
  sys_peek :: "int \<Rightarrow> 'w call"
  sys_close :: "int \<Rightarrow> 'w call"
  sys_clock :: "'w \<Rightarrow> u64 \<times> u64"

text \<open>\<open>FD_SET\<close> is defined for descriptors below \<open>FD_SETSIZE\<close> only.\<close>

definition fd_set_ok :: "int \<Rightarrow> bool" where
  "fd_set_ok fd \<longleftrightarrow> 0 \<le> fd \<and> fd < 1024"

section \<open>Connecting\<close>

text \<open>\<open>base << retry\<close> on \<open>int\<close>: undefined when the product is no \<open>int\<close> or the count too large.\<close>

definition calculate_backoff_delay :: "int \<Rightarrow> int \<Rightarrow> int \<Rightarrow> int ub" where
  "calculate_backoff_delay retry_count base_delay_ms max_delay_ms =
     (if retry_count \<le> 0 then Some base_delay_ms
      else if retry_count \<ge> 32 \<or> base_delay_ms < 0 \<or> base_delay_ms * 2 ^ nat retry_count > INT_MAX then None
      else
        let delay = base_delay_ms * 2 ^ nat retry_count
        in Some (if delay > max_delay_ms \<or> delay \<le> 0 then max_delay_ms else delay))"

definition set_nonblocking :: "'w sys \<Rightarrow> int \<Rightarrow> 'w io \<Rightarrow> int \<times> 'w io" where
  "set_nonblocking sys sock_fd io =
     (case sys_call (sys_getfl sys sock_fd) io of (flags, io) \<Rightarrow>
        if flags < 0 then (-1, io)
        else case sys_call (sys_setfl sys sock_fd (flags OR O_NONBLOCK)) io of (r, io) \<Rightarrow>
          if r \<noteq> 0 then (-1, io) else (0, io))"

definition set_blocking :: "'w sys \<Rightarrow> int \<Rightarrow> 'w io \<Rightarrow> int \<times> 'w io" where
  "set_blocking sys sock_fd io =
     (case sys_call (sys_getfl sys sock_fd) io of (flags, io) \<Rightarrow>
        if flags < 0 then (-1, io)
        else case sys_call (sys_setfl sys sock_fd (flags AND NOT O_NONBLOCK)) io of (r, io) \<Rightarrow>
          if r \<noteq> 0 then (-1, io) else (0, io))"

text \<open>\<open>close(client->sock_fd); client->sock_fd = -1\<close>.\<close>

definition close_sock :: "'w sys \<Rightarrow> tcp_client \<Rightarrow> 'w io \<Rightarrow> tcp_client \<times> 'w io" where
  "close_sock sys client io =
     (client\<lparr>tc_sock_fd := -1\<rparr>, snd (sys_call (sys_close sys (tc_sock_fd client)) io))"

text \<open>Waiting with \<open>select\<close> for a connection in progress.\<close>

definition await_connect :: "'w sys \<Rightarrow> tcp_client \<Rightarrow> 'w io \<Rightarrow> (int \<times> tcp_client \<times> 'w io) ub" where
  "await_connect sys client io =
     (if \<not> fd_set_ok (tc_sock_fd client) then None
      else case sys_call (sys_select_write sys (tc_sock_fd client)) io of (ret, io) \<Rightarrow>
        if ret < 0 then Some (-1, close_sock sys client io)
        else if ret = 0 then
          (case close_sock sys client io of (client, io) \<Rightarrow> Some (-1, client, set_errno ETIMEDOUT io))
        else
          let so_error = sys_so_error sys (tc_sock_fd client) (io_world io)
          in case sys_call (sys_getsockopt sys (tc_sock_fd client)) io of (ret, io) \<Rightarrow>
            if ret \<noteq> 0 then Some (-1, close_sock sys client io)
            else if so_error \<noteq> 0 then
              (case close_sock sys client io of (client, io) \<Rightarrow> Some (-1, client, set_errno so_error io))
            else Some (0, client\<lparr>tc_is_connected := True\<rparr>, io))"

definition tcp_client_try_connect :: "'w sys \<Rightarrow> tcp_client \<Rightarrow> 'w io \<Rightarrow> (int \<times> tcp_client \<times> 'w io) ub" where
  "tcp_client_try_connect sys client io =
     (case sys_call (sys_socket sys) io of (fd, io) \<Rightarrow>
        let client = client\<lparr>tc_sock_fd := fd\<rparr>
        in if fd < 0 then Some (-1, client, io)
           else case set_nonblocking sys fd io of (ret, io) \<Rightarrow>
             if ret \<noteq> 0 then Some (-1, close_sock sys client io)
             else if \<not> sys_inet_pton sys (cstr (tc_server_ip client)) then
               (case close_sock sys client io of (client, io) \<Rightarrow> Some (-1, client, set_errno EINVAL io))
             else case sys_call (sys_connect sys fd (cstr (tc_server_ip client)) (tc_server_port client)) io of
               (ret, io) \<Rightarrow>
                 if ret = 0 then Some (0, client\<lparr>tc_is_connected := True\<rparr>, io)
                 else if io_errno io = EINPROGRESS then await_connect sys client io
                 else Some (-1, close_sock sys client io))"

definition tcp_client_init :: "bool \<Rightarrow> string ptr \<Rightarrow> int \<Rightarrow> bool \<Rightarrow> tcp_client ptr" where
  "tcp_client_init alloc server_ip server_port auto_reconnect =
     (case server_ip of
        None \<Rightarrow> None
      | Some ip \<Rightarrow>
          if server_port \<le> 0 \<or> server_port > 65535 then None
          else if \<not> alloc then None
          else Some \<lparr>tc_sock_fd = -1, tc_server_ip = (set_field (zbuf 16) ip)[15 := NUL],
                     tc_server_port = server_port, tc_is_connected = False, tc_is_nonblocking = True,
                     tc_reconnect_retries = 0, tc_reconnect_delay_ms = RECONNECT_INITIAL_DELAY_MS,
                     tc_last_reconnect_time = 0, tc_auto_reconnect = auto_reconnect,
                     tc_send_buffer = zbuf TCP_SEND_BUFFER_SIZE, tc_send_buffer_len = 0,
                     tc_bytes_sent = 0, tc_bytes_lost = 0, tc_connect_count = 0, tc_reconnect_count = 0\<rparr>)"

definition do_connect :: "'w sys \<Rightarrow> tcp_client \<Rightarrow> 'w io \<Rightarrow> (int \<times> tcp_client \<times> 'w io) ub" where
  "do_connect sys client io =
     (if tc_is_connected client then Some (0, client, io)
      else do { (ret, client, io) \<leftarrow> tcp_client_try_connect sys client io;
                if ret = 0 then
                  Some (0, client\<lparr>tc_connect_count := tc_connect_count client + 1,
                                  tc_reconnect_retries := 0,
                                  tc_reconnect_delay_ms := RECONNECT_INITIAL_DELAY_MS\<rparr>, io)
                else Some (-1, client, io) })"

definition tcp_client_connect :: "'w sys \<Rightarrow> tcp_client ptr \<Rightarrow> 'w io \<Rightarrow> (int \<times> tcp_client ptr \<times> 'w io) ub" where
  "tcp_client_connect sys client io =
     (case client of
        None \<Rightarrow> Some (-1, None, set_errno EINVAL io)
      | Some c \<Rightarrow> map_option (\<lambda>(r, c, io). (r, Some c, io)) (do_connect sys c io))"

section \<open>Sending\<close>

definition CRLF :: string where
  "CRLF = [CHR 0x0D, CHR 0x0A]"

definition http_header :: "string \<Rightarrow> int \<Rightarrow> string" where
  "http_header host len =
     ''POST /api/v1/ingest HTTP/1.1'' @ CRLF @ ''Host: '' @ host @ CRLF @
     ''Content-Type: application/json'' @ CRLF @ ''Content-Length: '' @ show_int len @ CRLF @
     ''Connection: keep-alive'' @ CRLF @ CRLF"

text \<open>\<open>%.*s\<close> stops at a NUL or after \<open>len\<close> characters, whichever is first.\<close>

definition http_request :: "tcp_client \<Rightarrow> cbuf \<Rightarrow> int \<Rightarrow> string ub" where
  "http_request client data len =
     (if NUL \<notin> set (take (nat len) data) \<and> length data < nat len then None
      else Some (http_header (cstr (tc_server_ip client)) len @ cstr (take (nat len) data)))"

datatype send_end = Sent | Lost | GaveUp

fun send_loop :: "'w sys \<Rightarrow> nat \<Rightarrow> int \<Rightarrow> string \<Rightarrow> nat \<Rightarrow> 'w io \<Rightarrow> (send_end \<times> nat \<times> 'w io) ub" where
  "send_loop sys 0 fd http_buf total_sent io = None"
| "send_loop sys (Suc n) fd http_buf total_sent io =
     (if \<not> total_sent < length http_buf then Some (Sent, total_sent, io)
      else case sys_call (sys_send sys fd (drop total_sent http_buf)) io of (ret, io) \<Rightarrow>
        if ret < 0 then
          if io_errno io = EINTR then send_loop sys n fd http_buf total_sent io
          else if io_errno io = EPIPE \<or> io_errno io = ECONNRESET \<or> io_errno io = ENOTCONN
            then Some (Lost, total_sent, io)
          else if io_errno io = EAGAIN then
            if \<not> fd_set_ok fd then None
            else case sys_call (sys_select_write sys fd) io of (sel_ret, io) \<Rightarrow>
              if sel_ret > 0 then send_loop sys n fd http_buf total_sent io
              else Some (GaveUp, total_sent, io)
          else Some (GaveUp, total_sent, io)
        else send_loop sys n fd http_buf (total_sent + nat ret) io)"

text \<open>The drain of the HTTP response.\<close>

definition drain_response :: "'w sys \<Rightarrow> int \<Rightarrow> 'w io \<Rightarrow> 'w io ub" where
  "drain_response sys fd io =
     (if \<not> fd_set_ok fd then None
      else case sys_call (sys_select_read sys fd) io of (ret, io) \<Rightarrow>
        Some (if ret > 0 then snd (sys_call (sys_recv sys fd) io) else io))"

text \<open>
  The request, the send loop and the response on a connected socket.  The first component says
  that the connection was lost, after which \<open>tcp_client_send\<close> tries to reconnect.
\<close>

definition http_exchange ::
  "'w sys \<Rightarrow> nat \<Rightarrow> tcp_client \<Rightarrow> cbuf \<Rightarrow> int \<Rightarrow> 'w io \<Rightarrow> (bool \<times> int \<times> tcp_client \<times> 'w io) ub" where
  "http_exchange sys n client data len io =
     do { http_buf \<leftarrow> http_request client data len;
          if length http_buf \<ge> 65536 then Some (False, -1, client, set_errno EMSGSIZE io)
          else
            do { (how, total_sent, io) \<leftarrow> send_loop sys n (tc_sock_fd client) http_buf 0 io;
                 case how of
                   Lost \<Rightarrow>
                     Some (True, -1, client\<lparr>tc_is_connected := False,
                       tc_bytes_lost := tc_bytes_lost client + of_nat (length http_buf - total_sent)\<rparr>, io)
                 | GaveUp \<Rightarrow> Some (False, if total_sent > 0 then int total_sent else -1, client, io)
                 | Sent \<Rightarrow>
                     do { io \<leftarrow> drain_response sys (tc_sock_fd client) io;
                          Some (False, int total_sent,
                                client\<lparr>tc_bytes_sent := tc_bytes_sent client + of_nat total_sent\<rparr>, io) } } }"

definition clock_ms :: "'w sys \<Rightarrow> 'w io \<Rightarrow> u64" where
  "clock_ms sys io = (case sys_clock sys (io_world io) of (sec, nsec) \<Rightarrow> sec * 1000 + nsec div 1000000)"

text \<open>
  Disconnect, reconnect, send and flush of a non-NULL client.  The fuel bounds the depth of their
  mutual recursion and the rounds of the send loop.
\<close>

fun do_disconnect :: "'w sys \<Rightarrow> nat \<Rightarrow> tcp_client \<Rightarrow> 'w io \<Rightarrow> (tcp_client \<times> 'w io) ub"
  and do_reconnect :: "'w sys \<Rightarrow> nat \<Rightarrow> tcp_client \<Rightarrow> 'w io \<Rightarrow> (int \<times> tcp_client \<times> 'w io) ub"
  and do_send :: "'w sys \<Rightarrow> nat \<Rightarrow> tcp_client \<Rightarrow> cbuf \<Rightarrow> int \<Rightarrow> 'w io \<Rightarrow> (int \<times> tcp_client \<times> 'w io) ub"
  and do_flush :: "'w sys \<Rightarrow> nat \<Rightarrow> tcp_client \<Rightarrow> 'w io \<Rightarrow> (int \<times> tcp_client \<times> 'w io) ub" where
  "do_disconnect sys 0 client io = None"
| "do_disconnect sys (Suc n) client io =
     (if tc_sock_fd client \<ge> 0 then
        do { (client, io) \<leftarrow> (if tc_send_buffer_len client > 0
                              then map_option snd (do_flush sys n client io) else Some (client, io));
             let (client, io) = close_sock sys client io;
             Some (client\<lparr>tc_is_connected := False\<rparr>, io) }
      else Some (client\<lparr>tc_is_connected := False\<rparr>, io))"
| "do_reconnect sys 0 client io = None"
| "do_reconnect sys (Suc n) client io =
     (if \<not> tc_auto_reconnect client then Some (-1, client, io)
      else
        let now_ms = clock_ms sys io
        in if tc_last_reconnect_time client > 0 \<and>
              now_ms - tc_last_reconnect_time client < of_int (tc_reconnect_delay_ms client)
           then Some (-1, client, io)
           else
             let client = client\<lparr>tc_last_reconnect_time := now_ms\<rparr>
             in if tc_reconnect_retries client \<ge> RECONNECT_MAX_RETRIES then Some (-1, client, io)
                else
                  do { (client, io) \<leftarrow> do_disconnect sys n client io;
                       (ret, client, io) \<leftarrow> do_connect sys client io;
                       if ret = 0 then
                         Some (0, client\<lparr>tc_reconnect_count := tc_reconnect_count client + 1,
                                         tc_reconnect_retries := 0,
                                         tc_reconnect_delay_ms := RECONNECT_INITIAL_DELAY_MS\<rparr>, io)
                       else
                         do { retries \<leftarrow> inc_int (tc_reconnect_retries client);
                              delay \<leftarrow> calculate_backoff_delay retries RECONNECT_INITIAL_DELAY_MS RECONNECT_MAX_DELAY_MS;
                              Some (-1, client\<lparr>tc_reconnect_retries := retries,
                                               tc_reconnect_delay_ms := delay\<rparr>, io) } })"
| "do_send sys 0 client data len io = None"
| "do_send sys (Suc n) client data len io =
     do { (client, io) \<leftarrow> (if \<not> tc_is_connected client \<and> tc_auto_reconnect client
                           then map_option snd (do_reconnect sys n client io) else Some (client, io));
          if \<not> tc_is_connected client then Some (-1, client, set_errno ENOTCONN io)
          else
            do { (lost, ret, client, io) \<leftarrow> http_exchange sys n client data len io;
                 if lost \<and> tc_auto_reconnect client
                 then map_option (\<lambda>(_, client, io). (ret, client, io)) (do_reconnect sys n client io)
                 else Some (ret, client, io) } }"
| "do_flush sys 0 client io = None"
| "do_flush sys (Suc n) client io =
     (if tc_send_buffer_len client \<le> 0 then Some (0, client, io)
      else
        do { (ret, client, io) \<leftarrow> do_send sys n client (tc_send_buffer client) (tc_send_buffer_len client) io;
             let buf = tc_send_buffer client;
             let len = tc_send_buffer_len client;
             Some (ret,
               if ret > 0 then
                 if ret < len then
                   client\<lparr>tc_send_buffer := take (nat (len - ret)) (drop (nat ret) buf) @ drop (nat (len - ret)) buf,
                          tc_send_buffer_len := len - ret\<rparr>
                 else client\<lparr>tc_send_buffer_len := 0\<rparr>
               else client, io) })"

section \<open>Public operations\<close>

definition tcp_client_disconnect :: "'w sys \<Rightarrow> nat \<Rightarrow> tcp_client ptr \<Rightarrow> 'w io \<Rightarrow> (tcp_client ptr \<times> 'w io) ub" where
  "tcp_client_disconnect sys n client io =
     (case client of None \<Rightarrow> Some (None, io)
      | Some c \<Rightarrow> map_option (\<lambda>(c, io). (Some c, io)) (do_disconnect sys n c io))"

definition tcp_client_reconnect :: "'w sys \<Rightarrow> nat \<Rightarrow> tcp_client ptr \<Rightarrow> 'w io \<Rightarrow> (int \<times> tcp_client ptr \<times> 'w io) ub" where
  "tcp_client_reconnect sys n client io =
     (case client of None \<Rightarrow> Some (-1, None, io)
      | Some c \<Rightarrow> map_option (\<lambda>(r, c, io). (r, Some c, io)) (do_reconnect sys n c io))"

definition tcp_client_send ::
  "'w sys \<Rightarrow> nat \<Rightarrow> tcp_client ptr \<Rightarrow> cbuf ptr \<Rightarrow> int \<Rightarrow> 'w io \<Rightarrow> (int \<times> tcp_client ptr \<times> 'w io) ub" where
  "tcp_client_send sys n client data len io =
     (case (client, data) of
        (Some c, Some d) \<Rightarrow>
          if len \<le> 0 then Some (-1, client, set_errno EINVAL io)
          else map_option (\<lambda>(r, c, io). (r, Some c, io)) (do_send sys n c d len io)
      | _ \<Rightarrow> Some (-1, client, set_errno EINVAL io))"

definition tcp_client_send_line ::
  "'w sys \<Rightarrow> nat \<Rightarrow> tcp_client ptr \<Rightarrow> cbuf ptr \<Rightarrow> 'w io \<Rightarrow> (int \<times> tcp_client ptr \<times> 'w io) ub" where
  "tcp_client_send_line sys n client line io =
     (case (client, line) of
        (Some _, Some l) \<Rightarrow>
          if NUL \<notin> set l then None
          else tcp_client_send sys n client line (int (length (cstr l))) io
      | _ \<Rightarrow> Some (-1, client, set_errno EINVAL io))"

definition tcp_client_flush :: "'w sys \<Rightarrow> nat \<Rightarrow> tcp_client ptr \<Rightarrow> 'w io \<Rightarrow> (int \<times> tcp_client ptr \<times> 'w io) ub" where
  "tcp_client_flush sys n client io =
     (case client of None \<Rightarrow> Some (-1, None, set_errno EINVAL io)
      | Some c \<Rightarrow> map_option (\<lambda>(r, c, io). (r, Some c, io)) (do_flush sys n c io))"

definition tcp_client_is_connected :: "'w sys \<Rightarrow> tcp_client ptr \<Rightarrow> 'w io \<Rightarrow> bool \<times> tcp_client ptr \<times> 'w io" where
  "tcp_client_is_connected sys client io =
     (case client of
        None \<Rightarrow> (False, None, io)
      | Some c \<Rightarrow>
          if tc_is_connected c \<and> tc_sock_fd c \<ge> 0 then
            case sys_call (sys_peek sys (tc_sock_fd c)) io of (ret, io) \<Rightarrow>
              if ret = 0 \<or> (ret < 0 \<and> io_errno io \<noteq> EAGAIN)
              then (False, Some (c\<lparr>tc_is_connected := False\<rparr>), io)
              else (True, Some c, io)
          else (False, Some c, io))"

text \<open>The freed client is gone: \<open>None\<close>.\<close>

definition tcp_client_cleanup :: "'w sys \<Rightarrow> nat \<Rightarrow> tcp_client ptr \<Rightarrow> 'w io \<Rightarrow> (tcp_client ptr \<times> 'w io) ub" where
  "tcp_client_cleanup sys n client io =
     (case client of None \<Rightarrow> Some (None, io)
      | Some c \<Rightarrow> map_option (\<lambda>(c, io). (None, io)) (do_disconnect sys n c io))"

definition tcp_client_get_stats ::
  "tcp_client ptr \<Rightarrow> u64 ptr \<Rightarrow> u64 ptr \<Rightarrow> u64 ptr \<Rightarrow> u64 ptr \<Rightarrow> u64 ptr \<times> u64 ptr \<times> u64 ptr \<times> u64 ptr" where
  "tcp_client_get_stats client bytes_sent bytes_lost connect_count reconnect_count =
     (case client of
        None \<Rightarrow> (map_option (\<lambda>_. 0) bytes_sent, map_option (\<lambda>_. 0) bytes_lost,
                 map_option (\<lambda>_. 0) connect_count, map_option (\<lambda>_. 0) reconnect_count)
      | Some c \<Rightarrow> (map_option (\<lambda>_. tc_bytes_sent c) bytes_sent, map_option (\<lambda>_. tc_bytes_lost c) bytes_lost,
                   map_option (\<lambda>_. tc_connect_count c) connect_count,
                   map_option (\<lambda>_. tc_reconnect_count c) reconnect_count))"

definition tcp_client_print_stats :: "tcp_client ptr \<Rightarrow> string" where
  "tcp_client_print_stats client =
     (case client of
        None \<Rightarrow> ''TCP Client Statistics: N/A (client is NULL)\<newline>''
      | Some c \<Rightarrow>
          ''=== TCP Client Statistics ===\<newline>'' @
          ''Server: '' @ cstr (tc_server_ip c) @ '':'' @ show_int (tc_server_port c) @ ''\<newline>'' @
          ''Connected: '' @ (if tc_is_connected c then ''Yes'' else ''No'') @ ''\<newline>'' @
          ''Bytes sent: '' @ show_word (tc_bytes_sent c) @ ''\<newline>'' @
          ''Bytes lost: '' @ show_word (tc_bytes_lost c) @ ''\<newline>'' @
          ''Connect count: '' @ show_word (tc_connect_count c) @ ''\<newline>'' @
          ''Reconnect count: '' @ show_word (tc_reconnect_count c) @ ''\<newline>'' @
          ''Reconnect retries: '' @ show_int (tc_reconnect_retries c) @ ''\<newline>'' @
          ''Reconnect delay: '' @ show_int (tc_reconnect_delay_ms c) @ '' ms\<newline>'' @
          ''===========================\<newline>'')"

section \<open>Invariant and the machine of calls\<close>

text \<open>The documented delay after \<open>r\<close> failed retries: one second doubled each time, at most 30.\<close>

definition backoff :: "int \<Rightarrow> int" where
  "backoff r = min 30000 (1000 * 2 ^ nat r)"

definition tc_inv :: "tcp_client \<Rightarrow> bool" where
  "tc_inv c \<longleftrightarrow> wf_cbuf 16 (tc_server_ip c) \<and> 1 \<le> tc_server_port c \<and> tc_server_port c \<le> 65535 \<and>
     (tc_is_connected c \<longrightarrow> 0 \<le> tc_sock_fd c) \<and> tc_sock_fd c < 1024 \<and>
     0 \<le> tc_reconnect_retries c \<and> tc_reconnect_retries c \<le> 10 \<and>
     tc_reconnect_delay_ms c = backoff (tc_reconnect_retries c) \<and> tc_send_buffer_len c = 0"

text \<open>
  What the client relies on of the system calls: \<open>opens w\<close> is the set of open descriptors of the
  process.  \<open>socket\<close> returns a new descriptor below 1024 (the default limit on open files) or a
  negative number, \<open>close\<close> removes the descriptor, and no other call opens or closes one.
\<close>

definition sys_fds :: "'w sys \<Rightarrow> ('w \<Rightarrow> int set) \<Rightarrow> bool" where
  "sys_fds sys opens \<longleftrightarrow>
     (\<forall>w. case sys_socket sys w of (r, e, w') \<Rightarrow> r < 1024 \<and>
        (if r < 0 then opens w' = opens w else r \<notin> opens w \<and> opens w' = insert r (opens w))) \<and>
     (\<forall>fd w. opens (snd (snd (sys_close sys fd w))) = opens w - {fd}) \<and>
     (\<forall>fd. keeps opens (sys_getfl sys fd)) \<and> (\<forall>fd fl. keeps opens (sys_setfl sys fd fl)) \<and>
     (\<forall>fd ip p. keeps opens (sys_connect sys fd ip p)) \<and> (\<forall>fd. keeps opens (sys_select_write sys fd)) \<and>
     (\<forall>fd. keeps opens (sys_select_read sys fd)) \<and> (\<forall>fd. keeps opens (sys_getsockopt sys fd)) \<and>
     (\<forall>fd s. keeps opens (sys_send sys fd s)) \<and> (\<forall>fd. keeps opens (sys_recv sys fd)) \<and>
     (\<forall>fd. keeps opens (sys_peek sys fd))"

text \<open>The descriptors open besides \<open>B\<close> are the client's socket and nothing else.\<close>

definition owns :: "('w \<Rightarrow> int set) \<Rightarrow> int set \<Rightarrow> tcp_client \<Rightarrow> 'w io \<Rightarrow> bool" where
  "owns opens B c io \<longleftrightarrow>
     (if 0 \<le> tc_sock_fd c then tc_sock_fd c \<notin> B \<and> opens (io_world io) = insert (tc_sock_fd c) B
      else opens (io_world io) = B)"

text \<open>
  One step is one call other than \<open>tcp_client_connect\<close>, or the rest of the world moving on without
  touching the descriptors.
\<close>

inductive tcp_call :: "'w sys \<Rightarrow> ('w \<Rightarrow> int set) \<Rightarrow> tcp_client \<times> 'w io \<Rightarrow> tcp_client \<times> 'w io \<Rightarrow> bool"
  for sys opens where
  reconnect: "do_reconnect sys n c io = Some (r, c', io') \<Longrightarrow> tcp_call sys opens (c, io) (c', io')"
| send: "do_send sys n c data len io = Some (r, c', io') \<Longrightarrow> tcp_call sys opens (c, io) (c', io')"
| flush: "do_flush sys n c io = Some (r, c', io') \<Longrightarrow> tcp_call sys opens (c, io) (c', io')"
| disconnect: "do_disconnect sys n c io = Some (c', io') \<Longrightarrow> tcp_call sys opens (c, io) (c', io')"
| poll: "tcp_client_is_connected sys (Some c) io = (b, Some c', io') \<Longrightarrow> tcp_call sys opens (c, io) (c', io')"
| world: "opens w = opens (io_world io) \<Longrightarrow> tcp_call sys opens (c, io) (c, io\<lparr>io_world := w\<rparr>)"

text \<open>
  \<open>tcp_client_connect\<close> tests the flag only.  When the flag is clear it stores a new socket over
  \<open>sock_fd\<close>, and the descriptor that was there, if any, is known to nobody any more.
\<close>

definition overwritten :: "tcp_client \<Rightarrow> int set" where
  "overwritten c = (if \<not> tc_is_connected c \<and> 0 \<le> tc_sock_fd c then {tc_sock_fd c} else {})"

text \<open>Any call in any state; the first component records the descriptors lost so far.\<close>

inductive tcp_step :: "'w sys \<Rightarrow> ('w \<Rightarrow> int set) \<Rightarrow> int set \<times> tcp_client \<times> 'w io \<Rightarrow> int set \<times> tcp_client \<times> 'w io \<Rightarrow> bool"
  for sys opens where
  connect: "do_connect sys c io = Some (r, c', io') \<Longrightarrow>
    tcp_step sys opens (lost, c, io) (lost \<union> overwritten c, c', io')"
| call: "tcp_call sys opens (c, io) (c', io') \<Longrightarrow> tcp_step sys opens (lost, c, io) (lost, c', io')"

text \<open>
  Outcome of a connection attempt: connected with a socket, or not and with none.
\<close>

definition attempted :: "('w \<Rightarrow> int set) \<Rightarrow> int set \<Rightarrow> tcp_client \<Rightarrow> int \<times> tcp_client \<times> 'w io \<Rightarrow> bool" where
  "attempted opens B c res =
     (case res of (r, c', io') \<Rightarrow>
        owns opens B c' io' \<and> tc_sock_fd c' < 1024 \<and>
        (r = 0 \<and> 0 \<le> tc_sock_fd c' \<and> c' = c\<lparr>tc_sock_fd := tc_sock_fd c', tc_is_connected := True\<rparr> \<or>
         r = -1 \<and> tc_sock_fd c' < 0 \<and> c' = c\<lparr>tc_sock_fd := tc_sock_fd c'\<rparr>))"

definition tcp_state_inv :: "'w sys \<Rightarrow> ('w \<Rightarrow> int set) \<Rightarrow> int set \<Rightarrow> tcp_client \<times> 'w io \<Rightarrow> bool" where
  "tcp_state_inv sys opens B s \<longleftrightarrow> sys_fds sys opens \<and> tc_inv (fst s) \<and> owns opens B (fst s) (snd s)"

definition tcp_lost_inv :: "'w sys \<Rightarrow> ('w \<Rightarrow> int set) \<Rightarrow> int set \<Rightarrow> int set \<times> tcp_client \<times> 'w io \<Rightarrow> bool" where
  "tcp_lost_inv sys opens B s \<longleftrightarrow> B \<inter> fst s = {} \<and> tcp_state_inv sys opens (B \<union> fst s) (snd s)"

text \<open>A concrete system for the examples: one descriptor, every call succeeds, ten bytes per send.\<close>

record ex_world =
  ew_fds :: "int list"
  ew_log :: string
  ew_ms :: u64

definition ex_ok :: "'w call" where
  "ex_ok w = (0, 0, w)"

definition ex_send :: "string \<Rightarrow> ex_world call" where
  "ex_send s w = (int (min 10 (length s)), 0, w\<lparr>ew_log := ew_log w @ take 10 s\<rparr>)"

definition ex_sys :: "ex_world sys" where
  "ex_sys = \<lparr>sys_socket = (\<lambda>w. if 3 \<in> set (ew_fds w) then (-1, 24, w) else (3, 0, w\<lparr>ew_fds := 3 # ew_fds w\<rparr>)),
     sys_getfl = (\<lambda>fd. ex_ok), sys_setfl = (\<lambda>fd fl. ex_ok), sys_inet_pton = (\<lambda>ip. True),
     sys_connect = (\<lambda>fd ip p. ex_ok), sys_select_write = (\<lambda>fd w. (1, 0, w)), sys_select_read = (\<lambda>fd. ex_ok),
     sys_so_error = (\<lambda>fd w. 0), sys_getsockopt = (\<lambda>fd. ex_ok), sys_send = (\<lambda>fd. ex_send),
     sys_recv = (\<lambda>fd. ex_ok), sys_peek = (\<lambda>fd w. (-1, EAGAIN, w)),
     sys_close = (\<lambda>fd w. (0, 0, w\<lparr>ew_fds := removeAll fd (ew_fds w)\<rparr>)),
     sys_clock = (\<lambda>w. (ew_ms w div 1000, (ew_ms w mod 1000) * 1000000))\<rparr>"

definition ex_io :: "ex_world io" where
  "ex_io = \<lparr>io_errno = 0, io_world = \<lparr>ew_fds = [], ew_log = [], ew_ms = 5000\<rparr>\<rparr>"

text \<open>The same system with a peer that has closed the connection.\<close>

definition ex_hangup :: "ex_world sys" where
  "ex_hangup = ex_sys\<lparr>sys_peek := (\<lambda>fd. ex_ok)\<rparr>"

definition ex_client :: tcp_client where
  "ex_client = the (tcp_client_init True (Some ''10.0.0.1'') 9104 True)"

text \<open>
  What the send loop relies on of \<open>send\<close>: \<open>lg w\<close> is the stream of bytes the socket has accepted.
  A successful \<open>send\<close> accepts a prefix of its argument, a failed one nothing, and \<open>select\<close> and \<open>recv\<close>
  do not touch the stream.
\<close>

definition sys_stream :: "'w sys \<Rightarrow> int \<Rightarrow> ('w \<Rightarrow> string) \<Rightarrow> bool" where
  "sys_stream sys fd lg \<longleftrightarrow>
     (\<forall>s w. case sys_send sys fd s w of (r, e, w') \<Rightarrow>
        if r < 0 then lg w' = lg w else nat r \<le> length s \<and> lg w' = lg w @ take (nat r) s) \<and>
     (\<forall>w. lg (snd (snd (sys_select_write sys fd w))) = lg w \<and> lg (snd (snd (sys_select_read sys fd w))) = lg w \<and>
          lg (snd (snd (sys_recv sys fd w))) = lg w)"

text \<open>A socket that makes progress: every \<open>send\<close> of a non-empty string accepts at least a byte.\<close>

definition sys_progress :: "'w sys \<Rightarrow> int \<Rightarrow> bool" where
  "sys_progress sys fd \<longleftrightarrow> (\<forall>s w. s \<noteq> [] \<longrightarrow> 0 < fst (sys_send sys fd s w) \<and> fst (sys_send sys fd s w) \<le> int (length s))"

definition ex_conn :: tcp_client where
  "ex_conn = ex_client\<lparr>tc_sock_fd := 3, tc_is_connected := True\<rparr>"

text \<open>The calls that the main loop makes on the client once it runs.\<close>

inductive main_net_step :: "'w sys \<Rightarrow> tcp_client \<times> 'w io \<Rightarrow> tcp_client \<times> 'w io \<Rightarrow> bool" for sys where
  poll: "tcp_client_is_connected sys (Some c) io = (b, Some c', io') \<Longrightarrow> main_net_step sys (c, io) (c', io')"
| reconnect: "tcp_client_reconnect sys n (Some c) io = Some (r, Some c', io') \<Longrightarrow> main_net_step sys (c, io) (c', io')"
| send: "tcp_client_send sys n (Some c) (Some data) len io = Some (r, Some c', io') \<Longrightarrow> main_net_step sys (c, io) (c', io')"
| world: "main_net_step sys (c, io) (c, io')"

definition gave_up :: "tcp_client \<times> 'w io \<Rightarrow> bool" where
  "gave_up s \<longleftrightarrow> RECONNECT_MAX_RETRIES \<le> tc_reconnect_retries (fst s) \<and> \<not> tc_is_connected (fst s)"

section \<open>Lemmas\<close>

lemma backoff_Suc:
  assumes "0 \<le> r" "r < 10"
  shows "calculate_backoff_delay (r + 1) 1000 30000 = Some (backoff (r + 1))"
proof -
  have "2 ^ nat (r + 1) \<le> (2 :: int) ^ 10" using assms by (intro power_increasing) auto
  moreover have "(1 :: int) \<le> 2 ^ nat (r + 1)" by simp
  ultimately show ?thesis using assms by (auto simp: calculate_backoff_delay_def backoff_def Let_def)
qed

lemma backoff_0 [simp]: "backoff 0 = 1000"
  by (simp add: backoff_def)

lemma backoff_bounds: "1000 \<le> backoff r" "backoff r \<le> 30000"
  by (simp_all add: backoff_def)

lemma sys_call_world [simp]: "io_world (snd (sys_call f io)) = snd (snd (f (io_world io)))"
  by (simp add: sys_call_def split: prod.splits)

lemma keeps_call:
  assumes "keeps opens f" "sys_call f io = (r, io')"
  shows "opens (io_world io') = opens (io_world io)"
  using assms sys_call_world [of f io] by (simp add: keeps_def)

lemma sys_fdsD:
  assumes "sys_fds sys opens"
  shows "keeps opens (sys_getfl sys fd)" "keeps opens (sys_setfl sys fd fl)" "keeps opens (sys_connect sys fd ip p)"
    "keeps opens (sys_select_write sys fd)" "keeps opens (sys_select_read sys fd)" "keeps opens (sys_getsockopt sys fd)"
    "keeps opens (sys_send sys fd s)" "keeps opens (sys_recv sys fd)" "keeps opens (sys_peek sys fd)"
  using assms by (simp_all add: sys_fds_def)

lemma sys_fds_socket:
  assumes "sys_fds sys opens" "sys_call (sys_socket sys) io = (r, io')"
  shows "r < 1024" "r < 0 \<Longrightarrow> opens (io_world io') = opens (io_world io)"
    "0 \<le> r \<Longrightarrow> r \<notin> opens (io_world io) \<and> opens (io_world io') = insert r (opens (io_world io))"
  using assms by (auto simp: sys_fds_def sys_call_def split: prod.splits)

lemma owns_world: "owns opens B c io \<Longrightarrow> opens (io_world io') = opens (io_world io) \<Longrightarrow> owns opens B c io'"
  by (simp add: owns_def)

lemma owns_client: "owns opens B c io \<Longrightarrow> tc_sock_fd c' = tc_sock_fd c \<Longrightarrow> owns opens B c' io"
  by (simp add: owns_def)

lemma close_sock_owns:
  assumes "sys_fds sys opens" "owns opens B c io" "0 \<le> tc_sock_fd c" "close_sock sys c io = (c', io')"
  shows "c' = c\<lparr>tc_sock_fd := -1\<rparr>" "opens (io_world io') = B"
proof -
  show "c' = c\<lparr>tc_sock_fd := -1\<rparr>" using assms(4) by (simp add: close_sock_def)
  have "\<forall>fd w. opens (snd (snd (sys_close sys fd w))) = opens w - {fd}" using assms(1) by (simp add: sys_fds_def)
  with assms(2-4) show "opens (io_world io') = B" by (auto simp: close_sock_def owns_def)
qed

lemma attempted_closed:
  assumes "sys_fds sys opens" "owns opens B c io" "0 \<le> tc_sock_fd c" "close_sock sys c io = (c', io')"
    "io_world io'' = io_world io'"
  shows "attempted opens B c (-1, c', io'')"
  using close_sock_owns [OF assms(1-4)] assms(5) by (simp add: attempted_def owns_def)

lemma await_connect_attempted:
  assumes fds: "sys_fds sys opens" and own: "owns opens B c io" and fd: "0 \<le> tc_sock_fd c" "tc_sock_fd c < 1024"
  shows "\<exists>res. await_connect sys c io = Some res \<and> attempted opens B c res"
proof -
  obtain ret io1 where s: "sys_call (sys_select_write sys (tc_sock_fd c)) io = (ret, io1)" by fastforce
  have own1: "owns opens B c io1" using own keeps_call [OF sys_fdsD(4) [OF fds] s] by (rule owns_world)
  obtain ret2 io2 where g: "sys_call (sys_getsockopt sys (tc_sock_fd c)) io1 = (ret2, io2)" by fastforce
  have own2: "owns opens B c io2" using own1 keeps_call [OF sys_fdsD(6) [OF fds] g] by (rule owns_world)
  have "fd_set_ok (tc_sock_fd c)" using fd by (simp add: fd_set_ok_def)
  moreover have "attempted opens B c (0, c\<lparr>tc_is_connected := True\<rparr>, io2)"
    using own2 fd by (simp add: attempted_def owns_def)
  ultimately show ?thesis
    using s g attempted_closed [OF fds own1 fd(1)] attempted_closed [OF fds own2 fd(1)]
    by (auto simp: await_connect_def Let_def set_errno_def split: prod.splits)
qed

lemma set_nonblocking_keeps:
  assumes "sys_fds sys opens" "set_nonblocking sys fd io = (r, io')"
  shows "opens (io_world io') = opens (io_world io)"
  using assms(2) keeps_call [OF sys_fdsD(1) [OF assms(1)]] keeps_call [OF sys_fdsD(2) [OF assms(1)]]
  by (fastforce simp: set_nonblocking_def split: prod.splits if_splits)

lemma try_connect_attempted:
  assumes fds: "sys_fds sys opens" and own: "owns opens B c io" and closed: "tc_sock_fd c < 0"
  shows "\<exists>res. tcp_client_try_connect sys c io = Some res \<and> attempted opens B c res"
proof -
  obtain fd io1 where s: "sys_call (sys_socket sys) io = (fd, io1)" by fastforce
  note sock = sys_fds_socket [OF fds s]
  let ?c = "c\<lparr>tc_sock_fd := fd\<rparr>"
  have lift: "attempted opens B c res" if "attempted opens B ?c res" for res
    using that by (auto simp: attempted_def split: prod.splits)
  show ?thesis
  proof (cases "fd < 0")
    case True
    with s sock(2) own closed show ?thesis
      by (simp add: tcp_client_try_connect_def attempted_def owns_def)
  next
    case False
    have own1: "owns opens B ?c io1" using sock(3) False own closed by (simp add: owns_def)
    obtain r2 io2 where nb: "set_nonblocking sys fd io1 = (r2, io2)" by fastforce
    have own2: "owns opens B ?c io2" using own1 set_nonblocking_keeps [OF fds nb] by (rule owns_world)
    obtain r3 io3 where cn: "sys_call (sys_connect sys fd (cstr (tc_server_ip c)) (tc_server_port c)) io2 = (r3, io3)"
      by fastforce
    have own3: "owns opens B ?c io3" using own2 keeps_call [OF sys_fdsD(3) [OF fds] cn] by (rule owns_world)
    have fd: "0 \<le> tc_sock_fd ?c" "tc_sock_fd ?c < 1024" using False sock(1) by simp_all
    have "attempted opens B c (0, ?c\<lparr>tc_is_connected := True\<rparr>, io3)"
      using own3 fd by (intro lift) (simp add: attempted_def owns_def)
    moreover obtain res where "await_connect sys ?c io3 = Some res" "attempted opens B c res"
      using await_connect_attempted [OF fds own3 fd] lift by blast
    moreover have "attempted opens B c (-1, close_sock sys ?c io2)" "attempted opens B c (-1, close_sock sys ?c io3)"
      using attempted_closed [OF fds own2 fd(1)] attempted_closed [OF fds own3 fd(1)] lift
      by (cases "close_sock sys ?c io2"; cases "close_sock sys ?c io3"; simp)+
    moreover have "attempted opens B c (-1, c2, set_errno EINVAL io4)" if "close_sock sys ?c io2 = (c2, io4)" for c2 io4
      using attempted_closed [OF fds own2 fd(1) that] lift by (simp add: set_errno_def)
    ultimately show ?thesis
      using s nb cn False
      by (auto simp: tcp_client_try_connect_def Let_def simp del: split_paired_Ex split: prod.splits)
  qed
qed

lemma do_connect_spec:
  assumes fds: "sys_fds sys opens" and own: "owns opens B c io" and inv: "tc_inv c"
    and closed: "tc_sock_fd c < 0"
  shows "\<exists>r c' io'. do_connect sys c io = Some (r, c', io') \<and> owns opens B c' io' \<and> tc_inv c' \<and>
    (r = 0 \<and> tc_is_connected c' \<and> tc_reconnect_retries c' = 0 \<or>
     r = -1 \<and> \<not> tc_is_connected c' \<and> tc_reconnect_retries c' = tc_reconnect_retries c \<and> tc_sock_fd c' < 0) \<and>
    tc_auto_reconnect c' = tc_auto_reconnect c \<and> tc_bytes_sent c' = tc_bytes_sent c \<and> tc_bytes_lost c' = tc_bytes_lost c"
proof -
  have nc: "\<not> tc_is_connected c" using inv closed by (auto simp: tc_inv_def)
  obtain r c1 io1 where t: "tcp_client_try_connect sys c io = Some (r, c1, io1)" "attempted opens B c (r, c1, io1)"
    using try_connect_attempted [OF fds own closed] by (metis prod_cases3)
  from t(2) consider "r = 0" "0 \<le> tc_sock_fd c1" "c1 = c\<lparr>tc_sock_fd := tc_sock_fd c1, tc_is_connected := True\<rparr>"
    | "r = -1" "tc_sock_fd c1 < 0" "c1 = c\<lparr>tc_sock_fd := tc_sock_fd c1\<rparr>" by (auto simp: attempted_def)
  then show ?thesis
  proof cases
    case 1
    obtain fd where c1: "c1 = c\<lparr>tc_sock_fd := fd, tc_is_connected := True\<rparr>" "0 \<le> fd" "fd < 1024"
      using 1 t(2) by (auto simp: attempted_def)
    with t nc inv 1(1) show ?thesis by (auto simp: do_connect_def attempted_def owns_def tc_inv_def)
  next
    case 2
    obtain fd where c1: "c1 = c\<lparr>tc_sock_fd := fd\<rparr>" "fd < 0" using 2 by metis
    with t nc inv 2(1) show ?thesis by (auto simp: do_connect_def attempted_def owns_def tc_inv_def)
  qed
qed

lemma do_disconnect_spec:
  assumes fds: "sys_fds sys opens" and own: "owns opens B c io" and inv: "tc_inv c"
  shows "\<exists>fd io'. do_disconnect sys (Suc n) c io = Some (c\<lparr>tc_sock_fd := fd, tc_is_connected := False\<rparr>, io') \<and>
    fd < 0 \<and> opens (io_world io') = B \<and> tc_inv (c\<lparr>tc_sock_fd := fd, tc_is_connected := False\<rparr>)"
proof (cases "0 \<le> tc_sock_fd c")
  case True
  obtain c1 io1 where cl: "close_sock sys c io = (c1, io1)" by fastforce
  note closed = close_sock_owns [OF fds own True cl]
  have "tc_send_buffer_len c = 0" using inv by (simp add: tc_inv_def)
  with True cl closed inv show ?thesis
    by (intro exI [of _ "-1"] exI [of _ io1]) (auto simp: tc_inv_def)
next
  case False
  with own inv show ?thesis
    by (intro exI [of _ "tc_sock_fd c"] exI [of _ io]) (auto simp: owns_def tc_inv_def)
qed

lemma do_reconnect_spec:
  assumes fds: "sys_fds sys opens" and own: "owns opens B c io" and inv: "tc_inv c"
  shows "\<exists>r c' io'. do_reconnect sys (Suc (Suc n)) c io = Some (r, c', io') \<and> owns opens B c' io' \<and> tc_inv c' \<and>
    (r = 0 \<longrightarrow> tc_is_connected c' \<and> tc_reconnect_retries c' = 0) \<and>
    (tc_reconnect_retries c = 10 \<longrightarrow> r = -1 \<and> tc_reconnect_retries c' = 10 \<and> tc_is_connected c' = tc_is_connected c) \<and>
    tc_auto_reconnect c' = tc_auto_reconnect c \<and> tc_bytes_sent c' = tc_bytes_sent c \<and> tc_bytes_lost c' = tc_bytes_lost c"
proof -
  let ?c0 = "c\<lparr>tc_last_reconnect_time := clock_ms sys io\<rparr>"
  have own0: "owns opens B ?c0 io" and inv0: "tc_inv ?c0" using own inv by (simp_all add: owns_def tc_inv_def)
  obtain fd io1 where d: "do_disconnect sys (Suc n) ?c0 io = Some (?c0\<lparr>tc_sock_fd := fd, tc_is_connected := False\<rparr>, io1)"
    "fd < 0" "opens (io_world io1) = B" "tc_inv (?c0\<lparr>tc_sock_fd := fd, tc_is_connected := False\<rparr>)"
    using do_disconnect_spec [OF fds own0 inv0] by blast
  let ?c1 = "?c0\<lparr>tc_sock_fd := fd, tc_is_connected := False\<rparr>"
  have own1: "owns opens B ?c1 io1" using d by (simp add: owns_def)
  obtain r c2 io2 where k: "do_connect sys ?c1 io1 = Some (r, c2, io2)" "owns opens B c2 io2" "tc_inv c2"
    "r = 0 \<and> tc_is_connected c2 \<and> tc_reconnect_retries c2 = 0 \<or>
     r = -1 \<and> \<not> tc_is_connected c2 \<and> tc_reconnect_retries c2 = tc_reconnect_retries c \<and> tc_sock_fd c2 < 0"
    "tc_auto_reconnect c2 = tc_auto_reconnect c" "tc_bytes_sent c2 = tc_bytes_sent c" "tc_bytes_lost c2 = tc_bytes_lost c"
    using do_connect_spec [OF fds own1 d(4)] d(2) by auto
  have rt: "0 \<le> tc_reconnect_retries c" "tc_reconnect_retries c \<le> 10" using inv by (simp_all add: tc_inv_def)
  have ok: "owns opens B (c2\<lparr>tc_reconnect_count := x, tc_reconnect_retries := 0, tc_reconnect_delay_ms := 1000\<rparr>) io2 \<and>
      tc_inv (c2\<lparr>tc_reconnect_count := x, tc_reconnect_retries := 0, tc_reconnect_delay_ms := 1000\<rparr>)" for x
    using k(2,3) by (simp add: owns_def tc_inv_def)
  have fail: "\<exists>c'. do { retries \<leftarrow> inc_int (tc_reconnect_retries c2);
                delay \<leftarrow> calculate_backoff_delay retries 1000 30000;
                Some (- 1 :: int, c2\<lparr>tc_reconnect_retries := retries, tc_reconnect_delay_ms := delay\<rparr>, io2) } = Some (-1, c', io2) \<and>
      owns opens B c' io2 \<and> tc_inv c' \<and> tc_auto_reconnect c' = tc_auto_reconnect c \<and>
      tc_bytes_sent c' = tc_bytes_sent c \<and> tc_bytes_lost c' = tc_bytes_lost c"
    if "r = -1" "tc_reconnect_retries c < 10"
    using that k rt backoff_Suc [of "tc_reconnect_retries c"] by (auto simp: inc_int_def owns_def tc_inv_def)
  show ?thesis
  proof (cases "tc_reconnect_retries c = 10")
    case True
    with own inv own0 inv0 show ?thesis by (auto simp: Let_def)
  next
    case False
    with own inv own0 inv0 d(1) k(1,4-) ok fail rt show ?thesis by (auto simp: Let_def)
  qed
qed

lemma do_reconnect_keeps:
  assumes fds: "sys_fds sys opens" and own: "owns opens B c io" and inv: "tc_inv c"
    and res: "do_reconnect sys n c io = Some (r, c', io')"
  shows "owns opens B c' io' \<and> tc_inv c'"
proof -
  have own0: "owns opens B (c\<lparr>tc_last_reconnect_time := t\<rparr>) io" and inv0: "tc_inv (c\<lparr>tc_last_reconnect_time := t\<rparr>)" for t
    using own inv by (simp_all add: owns_def tc_inv_def)
  consider "n = 0" | "n = 1" | m where "n = Suc (Suc m)" by (metis One_nat_def not0_implies_Suc)
  then show ?thesis
  proof cases
    case 2
    with res own inv own0 inv0 show ?thesis by (auto simp: Let_def split: if_splits)
  next
    case (3 m)
    with do_reconnect_spec [OF fds own inv, of m] res show ?thesis by auto
  qed (use res in simp)
qed

lemma send_loop_keeps:
  assumes "sys_fds sys opens" "send_loop sys n fd buf tot io = Some (how, tot', io')"
  shows "opens (io_world io') = opens (io_world io)"
  using assms(2)
proof (induction n arbitrary: tot io)
  case (Suc n)
  obtain r io1 where s: "sys_call (sys_send sys fd (drop tot buf)) io = (r, io1)" by fastforce
  obtain q io2 where q: "sys_call (sys_select_write sys fd) io1 = (q, io2)" by fastforce
  from Suc s q keeps_call [OF sys_fdsD(7) [OF assms(1)] s] keeps_call [OF sys_fdsD(4) [OF assms(1)] q] show ?case
    by (auto split: if_splits)
qed simp

lemma drain_keeps:
  assumes "sys_fds sys opens" "drain_response sys fd io = Some io'"
  shows "opens (io_world io') = opens (io_world io)"
proof -
  obtain r io1 where s: "sys_call (sys_select_read sys fd) io = (r, io1)" by fastforce
  obtain q io2 where q: "sys_call (sys_recv sys fd) io1 = (q, io2)" by fastforce
  from assms(2) s q keeps_call [OF sys_fdsD(5) [OF assms(1)] s] keeps_call [OF sys_fdsD(8) [OF assms(1)] q] show ?thesis
    by (auto simp: drain_response_def split: if_splits)
qed

lemma http_exchange_keeps:
  assumes fds: "sys_fds sys opens" and own: "owns opens B c io" and inv: "tc_inv c"
    and res: "http_exchange sys n c data len io = Some (lost, r, c', io')"
  shows "owns opens B c' io' \<and> tc_inv c'"
proof -
  have upd: "owns opens B (c\<lparr>tc_is_connected := False, tc_bytes_lost := b\<rparr>) io2 \<and>
      tc_inv (c\<lparr>tc_is_connected := False, tc_bytes_lost := b\<rparr>) \<and>
      owns opens B (c\<lparr>tc_bytes_sent := b\<rparr>) io2 \<and> tc_inv (c\<lparr>tc_bytes_sent := b\<rparr>) \<and> owns opens B c io2 \<and> tc_inv c"
    if "opens (io_world io2) = opens (io_world io)" for b io2
    using own inv that by (simp add: owns_def tc_inv_def)
  obtain buf where buf: "http_request c data len = Some buf"
    using res by (cases "http_request c data len") (auto simp: http_exchange_def)
  show ?thesis
  proof (cases "65536 \<le> length buf")
    case True
    have "owns opens B c (set_errno EMSGSIZE io)" using own by (simp add: owns_def set_errno_def)
    with res buf True inv show ?thesis by (auto simp: http_exchange_def)
  next
    case False
    with res buf obtain how tot io1 where s: "send_loop sys n (tc_sock_fd c) buf 0 io = Some (how, tot, io1)"
      by (cases "send_loop sys n (tc_sock_fd c) buf 0 io") (auto simp: http_exchange_def)
    note k1 = send_loop_keeps [OF fds s]
    show ?thesis
    proof (cases how)
      case Sent
      with res buf False s obtain io2 where d: "drain_response sys (tc_sock_fd c) io1 = Some io2"
        by (cases "drain_response sys (tc_sock_fd c) io1") (auto simp: http_exchange_def)
      from upd [of io2] drain_keeps [OF fds d] k1 res buf False s d Sent show ?thesis
        by (auto simp: http_exchange_def)
    qed (use upd [of io1] k1 res buf False s in \<open>auto simp: http_exchange_def\<close>)
  qed
qed

lemma do_send_keeps:
  assumes fds: "sys_fds sys opens" and own: "owns opens B c io" and inv: "tc_inv c"
    and res: "do_send sys n c data len io = Some (r, c', io')"
  shows "owns opens B c' io' \<and> tc_inv c'"
proof -
  obtain m where n: "n = Suc m" using res by (cases n) auto
  let ?pre = "if \<not> tc_is_connected c \<and> tc_auto_reconnect c then map_option snd (do_reconnect sys m c io) else Some (c, io)"
  obtain c1 io1 where pre: "?pre = Some (c1, io1)" using res by (auto simp: n bind_eq_Some_conv)
  then have 1: "owns opens B c1 io1" "tc_inv c1"
    using own inv do_reconnect_keeps [OF fds own inv] by (auto split: if_splits)
  show ?thesis
  proof (cases "tc_is_connected c1")
    case False
    with res pre 1 show ?thesis by (auto simp: n set_errno_def owns_def)
  next
    case True
    with res pre obtain lost ret c2 io2 where
      2: "http_exchange sys m c1 data len io1 = Some (lost, ret, c2, io2)"
      and fin: "(if lost \<and> tc_auto_reconnect c2 then map_option (\<lambda>(_, c, io). (ret, c, io)) (do_reconnect sys m c2 io2)
            else Some (ret, c2, io2)) = Some (r, c', io')"
      by (auto simp: n bind_eq_Some_conv)
    from http_exchange_keeps [OF fds 1 2] have "owns opens B c2 io2" "tc_inv c2" by simp_all
    with fin do_reconnect_keeps [OF fds this] show ?thesis by (auto split: if_splits)
  qed
qed

lemma closed_connect_inv:
  assumes "tcp_state_inv sys opens B (c, io)" "do_connect sys c io = Some (r, c', io')" "tc_sock_fd c < 0"
  shows "tcp_state_inv sys opens B (c', io')"
proof -
  have "sys_fds sys opens" "owns opens B c io" "tc_inv c" using assms(1) by (simp_all add: tcp_state_inv_def)
  from do_connect_spec [OF this assms(3)] assms(2) \<open>sys_fds sys opens\<close> show ?thesis by (auto simp: tcp_state_inv_def)
qed

text \<open>
  A \<open>tcp_client_connect\<close> over an open socket behaves as on a client without one, and the old socket
  joins the descriptors that are not the client's.
\<close>

lemma connect_loses:
  assumes "tcp_state_inv sys opens B (c, io)" "do_connect sys c io = Some (r, c', io')"
  shows "B \<inter> overwritten c = {} \<and> tcp_state_inv sys opens (B \<union> overwritten c) (c', io')"
proof (cases "overwritten c = {}")
  case True
  then consider "tc_is_connected c" | "tc_sock_fd c < 0" by (auto simp: overwritten_def split: if_split_asm)
  then show ?thesis
  proof cases
    case 1
    with assms True show ?thesis by (simp add: do_connect_def)
  next
    case 2
    with closed_connect_inv [OF assms] True show ?thesis by simp
  qed
next
  case False
  then have c: "\<not> tc_is_connected c" "0 \<le> tc_sock_fd c" "overwritten c = {tc_sock_fd c}"
    by (auto simp: overwritten_def split: if_split_asm)
  let ?c = "c\<lparr>tc_sock_fd := -1\<rparr>"
  have "do_connect sys ?c io = Some (r, c', io')"
    using assms(2) c(1) by (simp add: do_connect_def tcp_client_try_connect_def)
  moreover have "tcp_state_inv sys opens (B \<union> overwritten c) (?c, io)" "tc_sock_fd c \<notin> B"
    using assms(1) c by (simp_all add: tcp_state_inv_def tc_inv_def owns_def)
  ultimately show ?thesis using closed_connect_inv [of sys opens "B \<union> overwritten c" ?c io r c' io'] c by simp
qed

interpretation tcp_calls: step_system "tcp_call sys opens" "tcp_state_inv sys opens B" for sys opens B
proof
  fix s s' :: "tcp_client \<times> 'a io"
  assume "tcp_call sys opens s s'" "tcp_state_inv sys opens B s"
  then show "tcp_state_inv sys opens B s'"
  proof (induction rule: tcp_call.induct)
    case (reconnect n c io r c' io')
    then have "sys_fds sys opens" "owns opens B c io" "tc_inv c" by (simp_all add: tcp_state_inv_def)
    from do_reconnect_keeps [OF this reconnect.hyps] \<open>sys_fds sys opens\<close> show ?case
      unfolding tcp_state_inv_def fst_conv snd_conv by blast
  next
    case (send n c data len io r c' io')
    then have "sys_fds sys opens" "owns opens B c io" "tc_inv c" by (simp_all add: tcp_state_inv_def)
    from do_send_keeps [OF this send.hyps] \<open>sys_fds sys opens\<close> show ?case
      unfolding tcp_state_inv_def fst_conv snd_conv by blast
  next
    case (flush n c io r c' io')
    then have "tc_send_buffer_len c = 0" by (simp add: tcp_state_inv_def tc_inv_def)
    with flush.hyps have "c' = c \<and> io' = io" by (cases n) simp_all
    with flush.prems show ?case by simp
  next
    case (disconnect n c io c' io')
    from disconnect.hyps obtain m where m: "n = Suc m" by (cases n) auto
    from disconnect.prems have "sys_fds sys opens" "owns opens B c io" "tc_inv c" by (simp_all add: tcp_state_inv_def)
    from do_disconnect_spec [OF this, of m] disconnect.hyps obtain fd where
      "c' = c\<lparr>tc_sock_fd := fd, tc_is_connected := False\<rparr>" "fd < 0" "opens (io_world io') = B" "tc_inv c'"
      unfolding m by auto
    with disconnect.prems show ?case by (simp add: tcp_state_inv_def owns_def)
  next
    case (poll c io b c' io')
    obtain r io1 where p: "sys_call (sys_peek sys (tc_sock_fd c)) io = (r, io1)" by fastforce
    from poll.prems have pre: "sys_fds sys opens" "owns opens B c io" "tc_inv c" by (simp_all add: tcp_state_inv_def)
    have own1: "owns opens B c io1" using pre(2) keeps_call [OF sys_fdsD(9) [OF pre(1)] p] by (rule owns_world)
    have off: "tc_inv (c\<lparr>tc_is_connected := False\<rparr>)" "owns opens B (c\<lparr>tc_is_connected := False\<rparr>) io1"
      using pre(3) own1 by (simp_all add: tc_inv_def owns_def)
    from poll.hyps p have "(c' = c \<or> c' = c\<lparr>tc_is_connected := False\<rparr>) \<and> io' = io1 \<or> c' = c \<and> io' = io"
      by (auto simp: tcp_client_is_connected_def split: if_splits)
    with pre own1 off show ?case by (auto simp: tcp_state_inv_def)
  next
    case (world w io c)
    then show ?case by (simp add: tcp_state_inv_def owns_def)
  qed
qed

interpretation tcp_machine: step_system "tcp_step sys opens" "tcp_lost_inv sys opens B" for sys opens B
proof
  fix s s' :: "int set \<times> tcp_client \<times> 'a io"
  assume "tcp_step sys opens s s'" "tcp_lost_inv sys opens B s"
  then show "tcp_lost_inv sys opens B s'"
  proof (induction rule: tcp_step.induct)
    case (connect c io r c' io' lost)
    then have "B \<inter> lost = {}" "tcp_state_inv sys opens (B \<union> lost) (c, io)" by (simp_all add: tcp_lost_inv_def)
    with connect_loses [OF this(2) connect.hyps] show ?case by (auto simp: tcp_lost_inv_def Un_assoc)
  next
    case (call c io c' io' lost)
    with tcp_calls.step_inv [OF call.hyps] show ?case by (simp add: tcp_lost_inv_def)
  qed
qed

text \<open>
  A client that is connected once, at the start, and then used through every other call loses no
  descriptor: this is how \<open>main\<close> uses it.
\<close>

lemma connect_once_loses_nothing:
  assumes "tcp_state_inv sys opens B (c, io)" "tc_sock_fd c < 0" "do_connect sys c io = Some (r, c1, io1)"
    "(tcp_call sys opens)\<^sup>*\<^sup>* (c1, io1) (c', io')"
  shows "opens (io_world io') = B \<union> (if 0 \<le> tc_sock_fd c' then {tc_sock_fd c'} else {})"
  using tcp_calls.reach_inv [OF assms(4) closed_connect_inv [OF assms(1,3,2)]]
  by (simp add: tcp_state_inv_def owns_def)

lemma sys_fds_ex: "sys_fds ex_sys (\<lambda>w. set (ew_fds w))"
  by (auto simp: sys_fds_def ex_sys_def keeps_def ex_ok_def ex_send_def)

lemma sys_fds_hangup: "sys_fds ex_hangup (\<lambda>w. set (ew_fds w))"
  using sys_fds_ex by (simp add: sys_fds_def ex_hangup_def keeps_def ex_ok_def)

lemma tcp_client_init_inv:
  assumes "tcp_client_init alloc ip port auto = Some c"
  shows "tc_inv c" "tc_sock_fd c = -1" "\<not> tc_is_connected c" "tc_auto_reconnect c = auto"
proof -
  have "wf_cbuf 16 ((set_field (zbuf 16) s)[15 := NUL])" for s
  proof -
    have "length ((set_field (zbuf 16) s)[15 := NUL]) = 16" by simp
    then have "(set_field (zbuf 16) s)[15 := NUL] \<noteq> []" by (metis length_0_conv zero_neq_numeral)
    then show ?thesis by (simp add: wf_cbuf_def last_conv_nth del: list_update_nonempty)
  qed
  with assms show "tc_inv c" "tc_sock_fd c = -1" "\<not> tc_is_connected c" "tc_auto_reconnect c = auto"
    by (auto simp: tcp_client_init_def tc_inv_def split: option.splits if_splits)
qed

text \<open>
  C21: From \<open>tcp_client_init\<close> on, after any sequence of calls in any order, every open descriptor is
  accounted for: it was open at the start, or it is the client's socket, or a
  \<open>tcp_client_connect\<close> was called while the flag was clear and the socket still open and stored a new
  descriptor over it (\<open>lost\<close>, which no other call adds to).  These three never overlap, so the
  client's own socket is never one it does not own.  A connected client has a valid socket, the retry
  count stays within 0 to 10, and the delay is always the documented backoff for it.
\<close>

theorem tcp_client_reachable_inv:
  assumes "tcp_client_init alloc ip port auto = Some c" "sys_fds sys opens"
    "(tcp_step sys opens)\<^sup>*\<^sup>* ({}, c, io) (lost, c', io')"
  shows "opens (io_world io') = opens (io_world io) \<union> lost \<union> (if 0 \<le> tc_sock_fd c' then {tc_sock_fd c'} else {}) \<and>
    opens (io_world io) \<inter> lost = {} \<and>
    (0 \<le> tc_sock_fd c' \<longrightarrow> tc_sock_fd c' \<notin> opens (io_world io) \<union> lost) \<and>
    (tc_is_connected c' \<longrightarrow> 0 \<le> tc_sock_fd c') \<and>
    0 \<le> tc_reconnect_retries c' \<and> tc_reconnect_retries c' \<le> 10 \<and>
    tc_reconnect_delay_ms c' = min 30000 (1000 * 2 ^ nat (tc_reconnect_retries c'))"
proof -
  note init = tcp_client_init_inv [OF assms(1)]
  have "tcp_lost_inv sys opens (opens (io_world io)) ({}, c, io)"
    using init assms(2) by (simp add: tcp_lost_inv_def tcp_state_inv_def owns_def)
  from tcp_machine.reach_inv [OF assms(3) this] show ?thesis
    by (auto simp: tcp_lost_inv_def tcp_state_inv_def owns_def tc_inv_def backoff_def split: if_split_asm)
qed

text \<open>
  The sequence that loses a descriptor: connect, a poll that sees the peer gone, connect again.
\<close>

theorem tcp_client_reachable_inv_witness:
  "\<exists>c io. (tcp_step ex_hangup (\<lambda>w. set (ew_fds w)))\<^sup>*\<^sup>* ({}, ex_client, ex_io) ({3}, c, io) \<and>
     tc_sock_fd c < 0 \<and> set (ew_fds (io_world io)) = {3}"
proof -
  let ?o = "\<lambda>w. set (ew_fds w)"
  have i: "tcp_client_init True (Some ''10.0.0.1'') 9104 True = Some ex_client"
    by (simp add: ex_client_def tcp_client_init_def)
  note hangup = ex_hangup_def ex_sys_def ex_ok_def sys_call_def
  note eval = hangup do_connect_def tcp_client_try_connect_def ex_io_def set_nonblocking_def Let_def
  obtain r c1 io1 where 1: "do_connect ex_hangup ex_client ex_io = Some (r, c1, io1)"
    "tc_sock_fd c1 = 3" "tc_is_connected c1" "ew_fds (io_world io1) = [3]"
    using tcp_client_init_inv(3) [OF i] by (simp add: eval)
  have 2: "tcp_client_is_connected ex_hangup (Some c1) io1 = (False, Some (c1\<lparr>tc_is_connected := False\<rparr>), io1)"
    using 1 by (simp add: tcp_client_is_connected_def hangup)
  let ?c2 = "c1\<lparr>tc_is_connected := False\<rparr>"
  obtain r3 c3 io3 where 3: "do_connect ex_hangup ?c2 io1 = Some (r3, c3, io3)" "tc_sock_fd c3 < 0"
    using 1 by (simp add: eval)
  have s1: "tcp_step ex_hangup ?o ({}, ex_client, ex_io) ({}, c1, io1)"
    using tcp_step.connect [OF 1(1), of ?o "{}"] tcp_client_init_inv(2) [OF i] by (simp add: overwritten_def)
  have s2: "tcp_step ex_hangup ?o ({}, c1, io1) ({}, ?c2, io1)"
    using tcp_step.call [OF tcp_call.poll [OF 2]] by simp
  have s3: "tcp_step ex_hangup ?o ({}, ?c2, io1) ({3}, c3, io3)"
    using tcp_step.connect [OF 3(1), of ?o "{}"] 1(2) by (simp add: overwritten_def)
  have "(tcp_step ex_hangup ?o)\<^sup>*\<^sup>* ({}, ex_client, ex_io) ({3}, c3, io3)"
    using rtranclp.rtrancl_into_rtrancl [OF rtranclp.rtrancl_into_rtrancl [OF r_into_rtranclp [of "tcp_step ex_hangup ?o", OF s1] s2] s3] .
  with tcp_client_reachable_inv [OF i sys_fds_hangup this] 3(2) show ?thesis by (auto simp: ex_io_def)
qed

lemma sys_stream_send:
  assumes "sys_stream sys fd lg" "sys_call (sys_send sys fd s) io = (r, io')"
  shows "r < 0 \<Longrightarrow> lg (io_world io') = lg (io_world io)"
    "0 \<le> r \<Longrightarrow> nat r \<le> length s \<and> lg (io_world io') = lg (io_world io) @ take (nat r) s"
proof -
  obtain e w where s: "sys_send sys fd s (io_world io) = (r, e, w)" "io_world io' = w"
    using assms(2) by (auto simp: sys_call_def split: prod.splits)
  have "case sys_send sys fd s (io_world io) of (r, e, w') \<Rightarrow>
      if r < 0 then lg w' = lg (io_world io) else nat r \<le> length s \<and> lg w' = lg (io_world io) @ take (nat r) s"
    by (rule conjunct1 [OF assms(1) [unfolded sys_stream_def], THEN spec, THEN spec])
  with s show "r < 0 \<Longrightarrow> lg (io_world io') = lg (io_world io)"
    "0 \<le> r \<Longrightarrow> nat r \<le> length s \<and> lg (io_world io') = lg (io_world io) @ take (nat r) s" by auto
qed

lemma sys_stream_select:
  assumes "sys_stream sys fd lg" "sys_call (sys_select_write sys fd) io = (r, io')"
  shows "lg (io_world io') = lg (io_world io)"
  using assms sys_call_world [of "sys_select_write sys fd" io] by (simp add: sys_stream_def)

lemma send_loop_stream:
  assumes "sys_stream sys fd lg" "send_loop sys n fd buf tot io = Some (how, tot', io')" "tot \<le> length buf"
  shows "tot \<le> tot' \<and> tot' \<le> length buf \<and> (how = Sent \<longleftrightarrow> tot' = length buf) \<and>
    lg (io_world io') = lg (io_world io) @ take (tot' - tot) (drop tot buf)"
  using assms(2,3)
proof (induction n arbitrary: tot io)
  case (Suc n)
  obtain r io1 where s: "sys_call (sys_send sys fd (drop tot buf)) io = (r, io1)" by fastforce
  obtain q io2 where q: "sys_call (sys_select_write sys fd) io1 = (q, io2)" by fastforce
  note st = sys_stream_send [OF assms(1) s] and sel = sys_stream_select [OF assms(1) q]
  show ?case
  proof (cases "tot < length buf \<and> 0 \<le> r")
    case True
    with Suc.prems s have rec: "send_loop sys n fd buf (tot + nat r) io1 = Some (how, tot', io')" by simp
    have le: "tot + nat r \<le> length buf" using st(2) True by auto
    note ih = Suc.IH [OF rec le]
    then have "take (nat r) (drop tot buf) @ take (tot' - (tot + nat r)) (drop (tot + nat r) buf) = take (tot' - tot) (drop tot buf)"
      using take_add [of "nat r" "tot' - (tot + nat r)" "drop tot buf"] by (simp add: add.commute)
    with ih st(2) True show ?thesis by simp
  next
    case False
    with Suc s q st(1) sel show ?thesis by (auto split: if_splits)
  qed
qed simp

lemma send_loop_progress:
  assumes "sys_progress sys fd" "length buf - tot < n"
  shows "\<exists>tot' io'. send_loop sys n fd buf tot io = Some (Sent, tot', io')"
  using assms(2)
proof (induction n arbitrary: tot io)
  case (Suc n)
  obtain r io1 where s: "sys_call (sys_send sys fd (drop tot buf)) io = (r, io1)" by fastforce
  have r: "r = fst (sys_send sys fd (drop tot buf) (io_world io))"
    using s by (auto simp: sys_call_def split: prod.splits)
  show ?case
  proof (cases "tot < length buf")
    case True
    then have "0 < r" using assms(1) r by (simp add: sys_progress_def)
    then have "length buf - (tot + nat r) < n" using Suc.prems True by linarith
    with Suc.IH [OF this, of io1] True s \<open>0 < r\<close> show ?thesis by simp
  qed simp
qed simp

lemma drain_stream:
  assumes "sys_stream sys fd lg" "drain_response sys fd io = Some io'"
  shows "lg (io_world io') = lg (io_world io)"
proof -
  obtain r io1 where s: "sys_call (sys_select_read sys fd) io = (r, io1)" by fastforce
  have "lg (io_world io1) = lg (io_world io)"
    using assms(1) sys_call_world [of "sys_select_read sys fd" io] s by (simp add: sys_stream_def)
  with assms s sys_call_world [of "sys_recv sys fd" io1] show ?thesis
    by (auto simp: drain_response_def sys_stream_def split: if_splits)
qed

text \<open>
  Every outcome of sending on a connected socket.  What reached the wire is a prefix of the HTTP
  request.  Either all of it: then the result is its length and it is counted as sent.  Or the
  connection was lost: then the client is disconnected and exactly the unsent rest is counted as
  lost.  Or the call gave up (timeout, other error, request too large): then the result is the
  number of bytes written, or -1, and neither counter changes.
\<close>

theorem http_exchange_outcomes:
  assumes "sys_stream sys (tc_sock_fd c) lg" "http_request c data len = Some req"
    "http_exchange sys n c data len io = Some (lost, r, c', io')"
  shows "\<exists>k \<le> length req. lg (io_world io') = lg (io_world io) @ take k req \<and>
    (lost \<and> r = -1 \<and> c' = c\<lparr>tc_is_connected := False, tc_bytes_lost := tc_bytes_lost c + of_nat (length req - k)\<rparr> \<or>
     \<not> lost \<and> k = length req \<and> r = int k \<and> c' = c\<lparr>tc_bytes_sent := tc_bytes_sent c + of_nat k\<rparr> \<or>
     \<not> lost \<and> k < length req \<and> r = (if k > 0 then int k else -1) \<and> c' = c)"
proof (cases "65536 \<le> length req")
  case True
  with assms(2,3) have "\<not> lost" "r = -1" "c' = c" "io_world io' = io_world io"
    by (auto simp: http_exchange_def set_errno_def)
  moreover from True have "0 < length req" by linarith
  ultimately show ?thesis by (intro exI [of _ 0]) simp
next
  case False
  with assms(2,3) obtain how tot io1 where s: "send_loop sys n (tc_sock_fd c) req 0 io = Some (how, tot, io1)"
    by (cases "send_loop sys n (tc_sock_fd c) req 0 io") (auto simp: http_exchange_def)
  note st = send_loop_stream [OF assms(1) s]
  show ?thesis
  proof (cases how)
    case Sent
    with assms(2,3) False s obtain io2 where d: "drain_response sys (tc_sock_fd c) io1 = Some io2"
      by (cases "drain_response sys (tc_sock_fd c) io1") (auto simp: http_exchange_def)
    with assms(2,3) False s Sent have "\<not> lost" "r = int tot" "io' = io2"
      "c' = c\<lparr>tc_bytes_sent := tc_bytes_sent c + of_nat tot\<rparr>" by (auto simp: http_exchange_def)
    with drain_stream [OF assms(1) d] st Sent show ?thesis by (intro exI [of _ tot]) simp
  next
    case Lost
    with assms(2,3) False s have "lost" "r = -1" "io' = io1"
      "c' = c\<lparr>tc_is_connected := False, tc_bytes_lost := tc_bytes_lost c + of_nat (length req - tot)\<rparr>"
      by (auto simp: http_exchange_def)
    with st Lost show ?thesis by (intro exI [of _ tot]) simp
  next
    case GaveUp
    with assms(2,3) False s have "\<not> lost" "r = (if tot > 0 then int tot else -1)" "io' = io1" "c' = c"
      by (auto simp: http_exchange_def)
    with st GaveUp show ?thesis by (intro exI [of _ tot]) simp
  qed
qed

lemma sys_stream_ex: "sys_stream ex_sys fd ew_log"
  by (auto simp: sys_stream_def ex_sys_def ex_ok_def ex_send_def min_def)

lemma sys_progress_ex: "sys_progress ex_sys fd"
  by (auto simp: sys_progress_def ex_sys_def ex_send_def)

lemma cstr_ex_conn: "cstr (tc_server_ip ex_conn) = ''10.0.0.1''"
proof -
  have "tc_server_ip ex_conn = (set_field (zbuf 16) ''10.0.0.1'')[15 := NUL]"
    by (simp add: ex_conn_def ex_client_def tcp_client_init_def)
  moreover have "cstr ((set_field (zbuf 16) ''10.0.0.1'')[15 := NUL]) = ''10.0.0.1''" by code_simp
  ultimately show ?thesis by simp
qed

lemma http_request_body:
  assumes "NUL \<notin> set (take (nat len) data)" "nat len \<le> length data"
  shows "http_request c data len = Some (http_header (cstr (tc_server_ip c)) len @ take (nat len) data)"
  using assms by (auto simp: http_request_def cstr_def takeWhile_eq_all_conv)

lemma do_send_delivers:
  assumes "tc_is_connected c" "fd_set_ok (tc_sock_fd c)" "sys_stream sys (tc_sock_fd c) lg" "sys_progress sys (tc_sock_fd c)"
    and req: "http_request c data len = Some req" "length req < 65536" "length req < n"
  shows "\<exists>io'. do_send sys (Suc n) c data len io =
      Some (int (length req), c\<lparr>tc_bytes_sent := tc_bytes_sent c + of_nat (length req)\<rparr>, io') \<and>
    lg (io_world io') = lg (io_world io) @ req"
proof -
  obtain tot io1 where s: "send_loop sys n (tc_sock_fd c) req 0 io = Some (Sent, tot, io1)"
    using send_loop_progress [OF assms(4), of req 0 n io] req(3) by auto
  note st = send_loop_stream [OF assms(3) s]
  obtain io2 where d: "drain_response sys (tc_sock_fd c) io1 = Some io2"
    using assms(2) by (cases "sys_call (sys_select_read sys (tc_sock_fd c)) io1") (simp add: drain_response_def)
  from s d st req assms(1) drain_stream [OF assms(3) d] show ?thesis by (simp add: http_exchange_def)
qed

text \<open>
  C22: A batch is delivered as one HTTP request.  On a connected client whose socket keeps accepting
  bytes (however few at a time), \<open>tcp_client_send\<close> ends, puts exactly the POST header with the
  body's length followed by the body on the wire, and returns and counts its size.
\<close>

theorem tcp_client_send_delivers:
  assumes "tc_inv c" "tc_is_connected c" "sys_stream sys (tc_sock_fd c) lg" "sys_progress sys (tc_sock_fd c)"
    "0 < len" "nat len \<le> length data" "NUL \<notin> set (take (nat len) data)"
    "length req < 65536" "req = http_header (cstr (tc_server_ip c)) len @ take (nat len) data"
  shows "\<exists>io'. tcp_client_send sys 65537 (Some c) (Some data) len io =
      Some (int (length req), Some (c\<lparr>tc_bytes_sent := tc_bytes_sent c + of_nat (length req)\<rparr>), io') \<and>
    lg (io_world io') = lg (io_world io) @ req"
proof -
  have fd: "fd_set_ok (tc_sock_fd c)" using assms(1,2) by (simp add: tc_inv_def fd_set_ok_def)
  have req: "http_request c data len = Some req" using assms(6,7,9) by (simp add: http_request_body)
  have "(65537 :: nat) = Suc 65536" by simp
  from do_send_delivers [OF assms(2) fd assms(3,4) req assms(8), of 65536 io, folded this] assms(5,8) show ?thesis
    by (auto simp: tcp_client_send_def simp del: do_send.simps)
qed

theorem tcp_client_send_delivers_witness:
  "\<exists>io'. tcp_client_send ex_sys 65537 (Some ex_conn) (Some ''[]'') 2 ex_io =
      Some (int (length (http_header ''10.0.0.1'' 2) + 2), Some (ex_conn\<lparr>tc_bytes_sent := of_nat (length (http_header ''10.0.0.1'' 2) + 2)\<rparr>), io') \<and>
     ew_log (io_world io') = http_header ''10.0.0.1'' 2 @ ''[]''"
proof -
  have i: "tcp_client_init True (Some ''10.0.0.1'') 9104 True = Some ex_client"
    by (simp add: ex_client_def tcp_client_init_def)
  have inv: "tc_inv ex_conn" "tc_is_connected ex_conn"
    using tcp_client_init_inv [OF i] by (simp_all add: ex_conn_def tc_inv_def)
  have z: "tc_bytes_sent ex_conn = 0" by (simp add: ex_conn_def ex_client_def tcp_client_init_def)
  have small: "length (http_header ''10.0.0.1'' 2 @ take (nat 2) ''[]'') < 65536"
    by (simp add: http_header_def CRLF_def show_int_def show_nat.simps)
  from tcp_client_send_delivers [OF inv sys_stream_ex sys_progress_ex, of 2 "''[]''"
      "http_header ''10.0.0.1'' 2 @ take (nat 2) ''[]''" ex_io] small
  show ?thesis by (simp add: cstr_ex_conn z ex_io_def)
qed

theorem http_exchange_outcomes_witness:
  "\<exists>lost r c' io' k. http_exchange ex_sys 65536 ex_conn ''[]'' 2 ex_io = Some (lost, r, c', io') \<and>
     ew_log (io_world io') = take k (http_header ''10.0.0.1'' 2 @ ''[]'')"
proof -
  let ?req = "http_header ''10.0.0.1'' 2 @ ''[]''"
  have req: "http_request ex_conn ''[]'' 2 = Some ?req"
    by (simp add: http_request_body cstr_ex_conn)
  have len: "length ?req < 65536" by (simp add: http_header_def CRLF_def show_int_def show_nat.simps)
  obtain tot io1 where s: "send_loop ex_sys 65536 (tc_sock_fd ex_conn) ?req 0 ex_io = Some (Sent, tot, io1)"
    using send_loop_progress [OF sys_progress_ex, of ?req 0 65536 "tc_sock_fd ex_conn" ex_io] len by auto
  obtain io2 where d: "drain_response ex_sys (tc_sock_fd ex_conn) io1 = Some io2"
    by (simp add: drain_response_def ex_conn_def fd_set_ok_def ex_sys_def ex_ok_def sys_call_def)
  have "http_exchange ex_sys 65536 ex_conn ''[]'' 2 ex_io =
      Some (False, int tot, ex_conn\<lparr>tc_bytes_sent := tc_bytes_sent ex_conn + of_nat tot\<rparr>, io2)"
    using req len s d by (simp add: http_exchange_def)
  from http_exchange_outcomes [OF sys_stream_ex req this] this show ?thesis
    by (auto simp: ex_io_def)
qed

text \<open>
  A batch of 64 KiB or more is refused.  The request is built in a buffer of 65536 bytes, so for
  larger data \<open>tcp_client_send\<close> returns -1 with \<open>EMSGSIZE\<close>, sends nothing and counts nothing as
  lost, although the batch writer of the main loop fills up to 128 KiB.
\<close>

theorem oversized_batch_refused:
  assumes "tc_is_connected c" "65536 \<le> len" "nat len \<le> length data" "NUL \<notin> set (take (nat len) data)"
  shows "tcp_client_send sys (Suc n) (Some c) (Some data) len io = Some (-1, Some c, set_errno EMSGSIZE io)"
proof -
  have "65536 \<le> length (http_header (cstr (tc_server_ip c)) len @ take (nat len) data)"
    using assms(2,3) by simp
  with assms http_request_body [OF assms(4,3), of c] show ?thesis
    by (simp add: tcp_client_send_def http_exchange_def)
qed

theorem oversized_batch_refused_witness:
  "tcp_client_send ex_sys 1 (Some ex_conn) (Some (replicate 70000 CHR ''1'')) 70000 ex_io =
     Some (-1, Some ex_conn, set_errno EMSGSIZE ex_io)"
proof -
  have "tc_is_connected ex_conn" by (simp add: ex_conn_def)
  from oversized_batch_refused [OF this, of 70000 "replicate 70000 CHR ''1''" ex_sys 0 ex_io] show ?thesis by simp
qed

lemma do_reconnect_gave_up:
  assumes "gave_up (c, io)" "do_reconnect sys n c io = Some (r, c', io')"
  shows "r = -1 \<and> gave_up (c', io') \<and> io' = io"
  using assms by (cases n) (auto simp: gave_up_def Let_def split: if_splits)

interpretation gave_up_machine: step_system "main_net_step sys" gave_up for sys
proof
  fix s s' :: "tcp_client \<times> 'a io"
  assume "main_net_step sys s s'" "gave_up s"
  then show "gave_up s'"
  proof (induction rule: main_net_step.induct)
    case (poll c io b c' io')
    then show ?case by (auto simp: tcp_client_is_connected_def gave_up_def split: if_splits)
  next
    case (reconnect n c io r c' io')
    then show ?case using do_reconnect_gave_up [of c io sys n] by (auto simp: tcp_client_reconnect_def)
  next
    case (send n c data len io r c' io')
    show ?case
    proof (cases "len \<le> 0")
      case True
      with send show ?thesis by (simp add: tcp_client_send_def gave_up_def)
    next
      case False
      with send.hyps have d: "do_send sys n c data len io = Some (r, c', io')" by (auto simp: tcp_client_send_def)
      then obtain m where n: "n = Suc m" by (cases n) auto
      let ?pre = "if \<not> tc_is_connected c \<and> tc_auto_reconnect c then map_option snd (do_reconnect sys m c io) else Some (c, io)"
      obtain c1 io1 where pre: "?pre = Some (c1, io1)" using d by (auto simp: n bind_eq_Some_conv)
      then have g: "gave_up (c1, io1)" using send.prems do_reconnect_gave_up by (fastforce split: if_splits)
      then have "c' = c1" using d pre by (auto simp: n gave_up_def)
      with g show ?thesis by (simp add: gave_up_def)
    qed
  qed (simp add: gave_up_def)
qed

text \<open>
  The client gives up for good.  Once ten reconnects in a row have failed, nothing the main loop
  does (polling, reconnecting, sending, waiting any time) ever connects it again, whatever the
  network does.
\<close>

theorem gives_up_for_good:
  assumes "tc_reconnect_retries c = 10" "\<not> tc_is_connected c" "(main_net_step sys)\<^sup>*\<^sup>* (c, io) (c', io')"
  shows "\<not> tc_is_connected c' \<and> (\<forall>n r c'' io''. do_reconnect sys n c' io' = Some (r, c'', io'') \<longrightarrow> r = -1 \<and> io'' = io')"
proof -
  have "gave_up (c, io)" using assms(1,2) by (simp add: gave_up_def)
  from gave_up_machine.reach_inv [OF assms(3) this] have g: "gave_up (c', io')" .
  then show ?thesis using do_reconnect_gave_up [OF g] by (auto simp: gave_up_def)
qed

theorem gives_up_for_good_witness:
  "\<not> tc_is_connected (ex_client\<lparr>tc_reconnect_retries := 10, tc_last_reconnect_time := 5000\<rparr>)"
proof -
  let ?c = "ex_client\<lparr>tc_reconnect_retries := 10\<rparr>"
  have i: "tcp_client_init True (Some ''10.0.0.1'') 9104 True = Some ex_client"
    by (simp add: ex_client_def tcp_client_init_def)
  note init = tcp_client_init_inv [OF i]
  have "tc_last_reconnect_time ex_client = 0" by (simp add: ex_client_def tcp_client_init_def)
  then have "do_reconnect ex_sys (Suc 1) ?c ex_io = Some (-1, ?c\<lparr>tc_last_reconnect_time := 5000\<rparr>, ex_io)"
    using init by (simp add: Let_def clock_ms_def ex_sys_def ex_io_def)
  then have "tcp_client_reconnect ex_sys (Suc 1) (Some ?c) ex_io = Some (-1, Some (?c\<lparr>tc_last_reconnect_time := 5000\<rparr>), ex_io)"
    by (simp add: tcp_client_reconnect_def)
  then have "main_net_step ex_sys (?c, ex_io) (?c\<lparr>tc_last_reconnect_time := 5000\<rparr>, ex_io)"
    by (rule main_net_step.reconnect)
  then have "(main_net_step ex_sys)\<^sup>*\<^sup>* (?c, ex_io) (?c\<lparr>tc_last_reconnect_time := 5000\<rparr>, ex_io)"
    by (rule r_into_rtranclp)
  from gives_up_for_good [OF _ _ this] init show ?thesis by simp
qed

text \<open>
  C23: Reconnecting always returns, with neither overflow nor undefined behaviour, and keeps the
  invariant.  Before the backoff delay has passed it does nothing at all.
\<close>

theorem reconnect_returns:
  assumes "tc_inv c" "sys_fds sys opens" "owns opens B c io"
  shows "\<exists>r c' io'. tcp_client_reconnect sys (Suc (Suc n)) (Some c) io = Some (r, Some c', io') \<and>
    tc_inv c' \<and> owns opens B c' io' \<and> (r = 0 \<longrightarrow> tc_is_connected c' \<and> tc_reconnect_retries c' = 0) \<and>
    (0 < tc_last_reconnect_time c \<and>
     clock_ms sys io - tc_last_reconnect_time c < of_int (min 30000 (1000 * 2 ^ nat (tc_reconnect_retries c))) \<longrightarrow>
       r = -1 \<and> c' = c \<and> io' = io)"
proof -
  from do_reconnect_spec [OF assms(2,3,1), of n] obtain r c' io' where
    1: "do_reconnect sys (Suc (Suc n)) c io = Some (r, c', io')" "owns opens B c' io'" "tc_inv c'"
      "r = 0 \<longrightarrow> tc_is_connected c' \<and> tc_reconnect_retries c' = 0" by blast
  have "r = -1 \<and> c' = c \<and> io' = io" if "0 < tc_last_reconnect_time c"
      "clock_ms sys io - tc_last_reconnect_time c < of_int (min 30000 (1000 * 2 ^ nat (tc_reconnect_retries c)))"
    using that 1(1) assms(1) by (auto simp: tc_inv_def backoff_def Let_def split: if_splits)
  with 1 show ?thesis by (simp add: tcp_client_reconnect_def del: do_reconnect.simps)
qed

theorem reconnect_returns_witness:
  "\<exists>r c' io'. tcp_client_reconnect ex_sys 2 (Some ex_client) ex_io = Some (r, Some c', io') \<and> tc_inv c'"
proof -
  have i: "tcp_client_init True (Some ''10.0.0.1'') 9104 True = Some ex_client"
    by (simp add: ex_client_def tcp_client_init_def)
  note init = tcp_client_init_inv [OF i]
  have own: "owns (\<lambda>w. set (ew_fds w)) {} ex_client ex_io" using init by (simp add: owns_def ex_io_def)
  have "Suc (Suc 0) = 2" by simp
  from reconnect_returns [OF init(1) sys_fds_ex own, of 0, unfolded this] show ?thesis by blast
qed

end
