(* ===== verification/C_Text.thy ===== *)
theory C_Text
  imports Complex_Main Stb_Prelude
begin

text \<open>
  The part of the C library that reads text: \<open>strchr\<close>, \<open>strcasestr\<close>, \<open>atoi\<close>, \<open>fgets\<close> and the
  \<open>scanf\<close> conversions of the sources (\<open>%d\<close>, \<open>%u\<close>, \<open>%llu\<close>, \<open>%x\<close>, \<open>%lf\<close>, \<open>%n[^c]\<close>, \<open>*\<close>
  suppression, literal characters and white space).  A C string is the list of its characters
  without the terminator; a pointer into it is the suffix it points to; a text stream is the
  list of the characters still to be read.

  On the 32-bit target \<open>long\<close> has 32 bits, so \<open>strtol\<close>, on which \<open>atoi\<close> is built, saturates at
  the bounds of \<open>int\<close>.  An unsigned conversion of \<open>w\<close> bits saturates at its largest value.
  Infinities, NaNs and hexadecimal floating-point input of \<open>%lf\<close> are not covered.
\<close>

section \<open>Searching\<close>

definition isspace :: "char \<Rightarrow> bool" where
  "isspace c \<longleftrightarrow> c \<in> {CHR '' '', CHR 0x09, CHR 0x0A, CHR 0x0B, CHR 0x0C, CHR 0x0D}"

definition strchr :: "string \<Rightarrow> char \<Rightarrow> string ptr" where
  "strchr s c = (case dropWhile (\<lambda>x. x \<noteq> c) s of [] \<Rightarrow> None | r \<Rightarrow> Some r)"

definition tolower :: "char \<Rightarrow> char" where
  "tolower c = (let n = of_char c :: nat in if 65 \<le> n \<and> n \<le> 90 then char_of (n + 32) else c)"

fun starts_ci :: "string \<Rightarrow> string \<Rightarrow> bool" where
  "starts_ci [] s = True"
| "starts_ci (n # ns) [] = False"
| "starts_ci (n # ns) (c # cs) = (tolower n = tolower c \<and> starts_ci ns cs)"

fun strcasestr :: "string \<Rightarrow> string \<Rightarrow> string ptr" where
  "strcasestr [] needle = (if needle = [] then Some [] else None)"
| "strcasestr (c # cs) needle =
     (if starts_ci needle (c # cs) then Some (c # cs) else strcasestr cs needle)"

section \<open>Numbers\<close>

text \<open>Value of a hexadecimal digit; 16 for any other character.\<close>

definition xdigit_val :: "char \<Rightarrow> nat" where
  "xdigit_val c =
     (let n = of_char c :: nat in
      if 48 \<le> n \<and> n \<le> 57 then n - 48
      else if 65 \<le> n \<and> n \<le> 70 then n - 55
      else if 97 \<le> n \<and> n \<le> 102 then n - 87 else 16)"

fun base_val :: "nat \<Rightarrow> string \<Rightarrow> nat \<Rightarrow> nat" where
  "base_val b [] a = a"
| "base_val b (c # cs) a = base_val b cs (b * a + xdigit_val c)"

definition split_sign :: "string \<Rightarrow> bool \<times> string" where
  "split_sign s = (case s of
       c # cs \<Rightarrow> if c = CHR ''-'' then (True, cs) else if c = CHR ''+'' then (False, cs) else (False, s)
     | [] \<Rightarrow> (False, s))"

definition atoi :: "string \<Rightarrow> int" where
  "atoi s =
     (let (neg, s1) = split_sign (dropWhile isspace s);
          v = int (dec_val (takeWhile is_digit s1) 0)
      in max INT_MIN (min INT_MAX (if neg then - v else v)))"

section \<open>Streams\<close>

definition fgets :: "nat \<Rightarrow> string \<Rightarrow> (string \<times> string) option" where
  "fgets n s =
     (if s = [] then None
      else let k = min (n - 1) (Suc (length (takeWhile (\<lambda>c. c \<noteq> CHR 0x0A) s)))
           in Some (take k s, drop k s))"

section \<open>scanf\<close>

text \<open>
  A directive of a format: white space, a literal character, an integer conversion (assigned or
  suppressed, its base and the width in bits of its target), a floating-point conversion, and a
  run of at most \<open>n\<close> characters other than \<open>c\<close>.
\<close>

datatype scan_dir = Space | Lit char | Num bool nat nat | Float | NotIn nat char

datatype scan_val = SNum nat | SRat rat | SStr string

definition saturate :: "nat \<Rightarrow> bool \<Rightarrow> nat \<Rightarrow> nat" where
  "saturate bits neg v =
     (if 2 ^ bits \<le> v then 2 ^ bits - 1 else if neg then (2 ^ bits - v) mod 2 ^ bits else v)"

definition hex_prefix :: "string \<Rightarrow> bool" where
  "hex_prefix s \<longleftrightarrow> take 2 s = ''0x'' \<or> take 2 s = ''0X''"

definition scan_num :: "nat \<Rightarrow> nat \<Rightarrow> string \<Rightarrow> (nat \<times> string) option" where
  "scan_num base bits s =
     (let (neg, s1) = split_sign s;
          s2 = (if base = 16 \<and> hex_prefix s1 then drop 2 s1 else s1);
          ds = takeWhile (\<lambda>c. xdigit_val c < base) s2
      in if ds = [] then None
         else Some (saturate bits neg (base_val base ds 0), drop (length ds) s2))"

definition scan_exp :: "string \<Rightarrow> int \<times> string" where
  "scan_exp s = (case s of
       c # cs \<Rightarrow>
         (if c = CHR ''e'' \<or> c = CHR ''E'' then
            let (neg, s1) = split_sign cs; ds = takeWhile is_digit s1; v = int (dec_val ds 0)
            in if ds = [] then (0, s) else (if neg then - v else v, drop (length ds) s1)
          else (0, s))
     | [] \<Rightarrow> (0, s))"

definition scan_float :: "string \<Rightarrow> (rat \<times> string) option" where
  "scan_float s =
     (let (neg, s1) = split_sign s;
          ip = takeWhile is_digit s1;
          s2 = drop (length ip) s1;
          fp = (case s2 of c # cs \<Rightarrow> if c = CHR ''.'' then takeWhile is_digit cs else [] | [] \<Rightarrow> []);
          s3 = (case s2 of c # cs \<Rightarrow> if c = CHR ''.'' then drop (length fp) cs else s2 | [] \<Rightarrow> s2);
          (e, s4) = scan_exp s3;
          v = of_nat (dec_val (ip @ fp) 0) / 10 ^ length fp
      in if ip = [] \<and> fp = [] then None
         else Some ((if neg then - v else v) * (if 0 \<le> e then 10 ^ nat e else 1 / 10 ^ nat (- e)), s4))"

text \<open>
  The values that are assigned before the first directive that does not match.  \<open>scanf\<close> returns
  their number; \<open>EOF\<close> for exhausted input is not told apart from 0, which no caller does either.
\<close>

fun scanf :: "scan_dir list \<Rightarrow> string \<Rightarrow> scan_val list" where
  "scanf [] s = []"
| "scanf (Space # ds) s = scanf ds (dropWhile isspace s)"
| "scanf (Lit c # ds) s = (case s of [] \<Rightarrow> [] | x # xs \<Rightarrow> if x = c then scanf ds xs else [])"
| "scanf (Num assign base bits # ds) s =
     (case scan_num base bits (dropWhile isspace s) of
        None \<Rightarrow> []
      | Some (v, r) \<Rightarrow> (if assign then [SNum v] else []) @ scanf ds r)"
| "scanf (Float # ds) s =
     (case scan_float (dropWhile isspace s) of None \<Rightarrow> [] | Some (v, r) \<Rightarrow> SRat v # scanf ds r)"
| "scanf (NotIn n c # ds) s =
     (let t = take n (takeWhile (\<lambda>x. x \<noteq> c) s)
      in if t = [] then [] else SStr t # scanf ds (drop (length t) s))"

definition snum :: "scan_val list \<Rightarrow> nat \<Rightarrow> nat ub" where
  "snum vs i = (if i < length vs then case vs ! i of SNum v \<Rightarrow> Some v | _ \<Rightarrow> None else None)"

section \<open>Lemmas\<close>

named_theorems text_simps \<open>the library functions on text of a known shape\<close>

lemma isspace_simps [simp]:
  "isspace CHR '' ''" "isspace CHR 0x0A" "isspace CHR 0x09" "\<not> isspace CHR ''-''" "\<not> isspace CHR '':''"
  by (simp_all add: isspace_def)

lemma is_digit_nat: "is_digit c \<longleftrightarrow> 48 \<le> (of_char c :: nat) \<and> (of_char c :: nat) \<le> 57"
proof
  assume "48 \<le> (of_char c :: nat) \<and> (of_char c :: nat) \<le> 57"
  then have less: "of_char c - 48 < (10 :: nat)" and "of_char c = (48 + (of_char c - 48) :: nat)"
    by linarith+
  then have "(of_char c :: nat) = of_char (digit_char (of_char c - 48))"
    by simp
  then have "c = digit_char (of_char c - 48)"
    by (simp only: of_char_eq_iff)
  with less show "is_digit c"
    by (metis digit_char_digit)
qed (auto simp: is_digit_def)

lemma digit_not_space [simp]: "is_digit c \<Longrightarrow> \<not> isspace c"
  by (auto simp: is_digit_nat isspace_def)

lemma xdigit_val_dec: "xdigit_val c < 10 \<longleftrightarrow> is_digit c"
  by (auto simp: xdigit_val_def is_digit_nat Let_def)

lemma xdigit_val_digit [simp]: "is_digit c \<Longrightarrow> xdigit_val c = of_char c - 48"
  by (auto simp: xdigit_val_def is_digit_nat Let_def)

lemma base_val_dec: "list_all is_digit ds \<Longrightarrow> base_val 10 ds a = dec_val ds a"
  by (induction ds arbitrary: a) auto

lemma takeWhile_digits_append:
  "list_all P xs \<Longrightarrow> ys = [] \<or> \<not> P (hd ys) \<Longrightarrow> takeWhile P (xs @ ys) = xs"
  by (induction xs) (auto simp: takeWhile_eq_Nil_iff)

lemma split_sign_digit: "s \<noteq> [] \<Longrightarrow> is_digit (hd s) \<Longrightarrow> split_sign s = (False, s)"
  by (cases s) (auto simp: split_sign_def is_digit_nat)

lemma hd_show_nat_digit: "is_digit (hd (show_nat n))"
  using show_nat_digits [of n] by (cases "show_nat n") auto

lemma split_sign_show_nat [text_simps]: "split_sign (show_nat n @ r) = (False, show_nat n @ r)"
  by (rule split_sign_digit) (auto simp: hd_show_nat_digit hd_append)

lemma dropWhile_space_show_nat [text_simps]: "dropWhile isspace (show_nat n @ r) = show_nat n @ r"
  using hd_show_nat_digit [of n] by (cases "show_nat n") auto

lemma scan_num_show_nat [text_simps]:
  assumes "r = [] \<or> \<not> is_digit (hd r)" "n < 2 ^ bits"
  shows "scan_num 10 bits (show_nat n @ r) = Some (n, r)"
proof -
  have "takeWhile (\<lambda>c. xdigit_val c < 10) (show_nat n @ r) = show_nat n"
    using assms(1) show_nat_digits [of n]
    by (intro takeWhile_digits_append) (auto simp: xdigit_val_dec list_all_iff)
  then show ?thesis
    using assms(2) show_nat_digits [of n]
    by (simp add: scan_num_def split_sign_show_nat Let_def saturate_def base_val_dec)
qed

lemma atoi_show_nat [text_simps]:
  assumes "r = [] \<or> \<not> is_digit (hd r)" "int n \<le> INT_MAX"
  shows "atoi (show_nat n @ r) = int n"
proof -
  have "takeWhile is_digit (show_nat n @ r) = show_nat n"
    using assms(1) show_nat_digits [of n] by (intro takeWhile_digits_append) auto
  with assms(2) show ?thesis
    by (simp add: atoi_def dropWhile_space_show_nat split_sign_show_nat Let_def)
qed

lemma strchr_append [text_simps]: "c \<notin> set s \<Longrightarrow> strchr (s @ c # r) c = Some (c # r)"
  by (simp add: strchr_def dropWhile_append)

lemma fgets_line [text_simps]:
  assumes "CHR 0x0A \<notin> set l" "length l + 1 < n"
  shows "fgets n (l @ CHR 0x0A # r) = Some (l @ [CHR 0x0A], r)"
proof -
  have "takeWhile (\<lambda>c. c \<noteq> CHR 0x0A) (l @ CHR 0x0A # r) = l"
    using assms(1) by (subst takeWhile_append2) auto
  moreover have "min (n - 1) (Suc (length l)) = Suc (length l)"
    using assms(2) by simp
  ultimately show ?thesis by (simp add: fgets_def Let_def)
qed

lemma fgets_shorter: "fgets n s = Some (l, r) \<Longrightarrow> 1 < n \<Longrightarrow> length r < length s"
  by (auto simp: fgets_def Let_def split: if_splits)

lemma fgets_Nil [simp]: "fgets n [] = None"
  by (simp add: fgets_def)

end
