(* ===== verification/Proc_Net.thy ===== *)
theory Proc_Net
  imports Stb_Common C_Text
begin

text \<open>
  \<open>src/proc_net.c\<close>: the socket tables \<open>/proc/net/tcp\<close>, \<open>udp\<close>, \<open>tcp6\<close>, \<open>udp6\<close> and the interface
  counters \<open>/proc/net/dev\<close>.  The file system is a parameter: a map from paths to contents, where
  a path that is not mapped is a file that \<open>fopen\<close> cannot open.
\<close>

type_synonym files = "string \<Rightarrow> string option"

section \<open>Socket tables\<close>

text \<open>\<open>" %*d %x:%x %x:%x %x %x:%x %*x:%x %*x %*d %*d %u %u"\<close>, with nine arguments.\<close>

definition socket_format :: "scan_dir list" where
  "socket_format =
     [Space, Num False 10 32, Space, Num True 16 32, Lit CHR '':'', Num True 16 32,
      Space, Num True 16 32, Lit CHR '':'', Num True 16 32, Space, Num True 16 32,
      Space, Num True 16 32, Lit CHR '':'', Num True 16 32,
      Space, Num False 16 32, Lit CHR '':'', Num True 16 32,
      Space, Num False 16 32, Space, Num False 10 32, Space, Num False 10 32,
      Space, Num True 10 32, Space, Num True 10 32]"

text \<open>
  One line: \<open>Some None\<close> is a rejected line.  A tenth conversion has no argument to be stored in,
  and a variable that was not assigned is read uninitialised: both are undefined.
\<close>

definition scan_socket :: "string \<Rightarrow> nat list option ub" where
  "scan_socket line =
     (let vs = scanf socket_format (cstr line) in
      if length vs < 5 then Some None
      else if 9 < length vs then None
      else do {
        lip \<leftarrow> snum vs 0; lport \<leftarrow> snum vs 1; rip \<leftarrow> snum vs 2; rport \<leftarrow> snum vs 3;
        state \<leftarrow> snum vs 4; rxq \<leftarrow> snum vs 5; txq \<leftarrow> snum vs 6; uid \<leftarrow> snum vs 7; inode \<leftarrow> snum vs 8;
        Some (Some [lip, lport, rip, rport, state, rxq, txq, uid, inode])
      })"

text \<open>The assignments to \<open>entries[count]\<close>; \<open>ip_version\<close> is not among them.\<close>

definition store_socket :: "bool \<Rightarrow> nat list \<Rightarrow> proc_net_entry \<Rightarrow> proc_net_entry" where
  "store_socket is_tcp v e =
     e\<lparr>pn_local_ip := of_nat (v ! 0), pn_local_port := of_nat (v ! 1),
       pn_remote_ip := of_nat (v ! 2), pn_remote_port := of_nat (v ! 3),
       pn_state := of_nat (v ! 4), pn_rx_queue := of_nat (v ! 5), pn_tx_queue := of_nat (v ! 6),
       pn_uid := of_nat (v ! 7), pn_inode := of_nat (v ! 8),
       pn_protocol := (if is_tcp then 6 else 17)\<rparr>"

function socket_lines ::
  "bool \<Rightarrow> int \<Rightarrow> string \<Rightarrow> proc_net_entry list \<Rightarrow> nat \<Rightarrow> (nat \<times> proc_net_entry list) ub" where
  "socket_lines is_tcp max_entries s entries count =
     (if int count < max_entries then
        case fgets 1024 s of
          None \<Rightarrow> Some (count, entries)
        | Some (line, r) \<Rightarrow>
            (case scan_socket line of
               None \<Rightarrow> None
             | Some None \<Rightarrow> socket_lines is_tcp max_entries r entries count
             | Some (Some v) \<Rightarrow>
                 (if count < length entries
                  then socket_lines is_tcp max_entries r
                         (entries[count := store_socket is_tcp v (entries ! count)]) (count + 1)
                  else None))
      else Some (count, entries))"
  by pat_completeness auto
termination
  by (relation "measure (\<lambda>(_, _, s, _). length s)") (auto dest: fgets_shorter)

definition parse_proc_net_file ::
  "files \<Rightarrow> string \<Rightarrow> bool \<Rightarrow> proc_net_entry list \<Rightarrow> int \<Rightarrow> (nat \<times> proc_net_entry list) ub" where
  "parse_proc_net_file files path is_tcp entries max_entries =
     (case files path of
        None \<Rightarrow> Some (0, entries)
      | Some s \<Rightarrow>
          (case fgets 1024 s of
             None \<Rightarrow> Some (0, entries)
           | Some (_, r) \<Rightarrow> socket_lines is_tcp max_entries r entries 0))"

definition proc_net_read_tcp where
  "proc_net_read_tcp files entries max_entries =
     parse_proc_net_file files ''/proc/net/tcp'' True entries max_entries"

definition proc_net_read_udp where
  "proc_net_read_udp files entries max_entries =
     parse_proc_net_file files ''/proc/net/udp'' False entries max_entries"

definition proc_net_read_tcp6 where
  "proc_net_read_tcp6 files entries max_entries =
     parse_proc_net_file files ''/proc/net/tcp6'' True entries max_entries"

definition proc_net_read_udp6 where
  "proc_net_read_udp6 files entries max_entries =
     parse_proc_net_file files ''/proc/net/udp6'' False entries max_entries"

section \<open>Interface counters\<close>

text \<open>\<open>" %63[^:]: %llu %*u %*u %*u %*u %*u %*u %*u %llu"\<close>\<close>

definition dev_format :: "scan_dir list" where
  "dev_format =
     [Space, NotIn 63 CHR '':'', Lit CHR '':'', Space, Num True 10 64,
      Space, Num False 10 32, Space, Num False 10 32, Space, Num False 10 32,
      Space, Num False 10 32, Space, Num False 10 32, Space, Num False 10 32,
      Space, Num False 10 32, Space, Num True 10 64]"

text \<open>A call of \<open>fgets\<close> whose result is ignored.\<close>

definition skip_line :: "nat \<Rightarrow> string \<Rightarrow> string" where
  "skip_line n s = (case fgets n s of None \<Rightarrow> s | Some (_, r) \<Rightarrow> r)"

function dev_lines :: "string \<Rightarrow> u64 \<Rightarrow> u64 \<Rightarrow> u64 \<times> u64" where
  "dev_lines s total_rx total_tx =
     (case fgets 512 s of
        None \<Rightarrow> (total_rx, total_tx)
      | Some (line, r) \<Rightarrow>
          (case scanf dev_format (cstr line) of
             [SStr iface, SNum rx, SNum tx] \<Rightarrow> dev_lines r (total_rx + of_nat rx) (total_tx + of_nat tx)
           | _ \<Rightarrow> dev_lines r total_rx total_tx))"
  by pat_completeness auto
termination
  by (relation "measure (\<lambda>(s, _). length s)") (auto dest: fgets_shorter)

definition proc_net_read_dev :: "files \<Rightarrow> u64 \<Rightarrow> u64 \<Rightarrow> int \<times> u64 \<times> u64" where
  "proc_net_read_dev files rx_bytes tx_bytes =
     (case files ''/proc/net/dev'' of
        None \<Rightarrow> (- 1, rx_bytes, tx_bytes)
      | Some s \<Rightarrow> (0, dev_lines (skip_line 512 (skip_line 512 s)) 0 0))"

section \<open>The kernel's formats\<close>

text \<open>
  A row of a socket table starts with the slot number and a colon; a row of the interface table
  is a name, a colon and columns, each a gap of blanks and a number.
\<close>

definition socket_row :: "nat \<times> nat \<times> string \<Rightarrow> string" where
  "socket_row = (\<lambda>(pad, sl, rest). replicate pad CHR '' '' @ show_nat sl @ CHR '':'' # rest)"

definition columns :: "(nat \<times> nat) list \<Rightarrow> string" where
  "columns cs = concat (map (\<lambda>(gap, v). replicate (Suc gap) CHR '' '' @ show_nat v) cs)"

definition dev_row :: "nat \<times> string \<times> (nat \<times> nat) list \<Rightarrow> string" where
  "dev_row = (\<lambda>(pad, name, cs). replicate pad CHR '' '' @ name @ CHR '':'' # columns cs)"

definition text_line :: "nat \<Rightarrow> string \<Rightarrow> bool" where
  "text_line n l \<longleftrightarrow> CHR 0x0A \<notin> set l \<and> NUL \<notin> set l \<and> length l + 1 < n"

definition unlines :: "string list \<Rightarrow> string" where
  "unlines ls = concat (map (\<lambda>l. l @ [CHR 0x0A]) ls)"

definition wf_iface :: "string \<Rightarrow> bool" where
  "wf_iface name \<longleftrightarrow> name \<noteq> [] \<and> length name \<le> 63 \<and> CHR '':'' \<notin> set name \<and> \<not> isspace (hd name)"

text \<open>Example tables.\<close>

definition ex_sockets :: "(nat \<times> nat \<times> string) list" where
  "ex_sockets = [(3, 0, '' 0100007F:1F90 00000000:0000 0A 00000000:00000000 00:00000000 00000000'')]"

definition ex_ifaces :: "(nat \<times> string \<times> (nat \<times> nat) list) list" where
  "ex_ifaces =
     [(4, ''lo'', [(4, 500), (0, 5), (0, 0), (0, 0), (0, 0), (0, 0), (0, 0), (0, 0), (2, 500)]),
      (2, ''eth0'', [(1, 70000), (0, 5), (0, 0), (0, 0), (0, 0), (0, 0), (0, 0), (0, 0), (2, 1234), (0, 9)])]"

section \<open>Lemmas\<close>

declare socket_lines.simps [simp del] dev_lines.simps [simp del]

lemma unlines_simps [simp]:
  "unlines [] = []" "unlines (l # ls) = l @ CHR 0x0A # unlines ls"
  by (simp_all add: unlines_def)

lemma fgets_text_line [text_simps]:
  "text_line n l \<Longrightarrow> fgets n (l @ CHR 0x0A # r) = Some (l @ [CHR 0x0A], r)"
  by (simp add: text_line_def fgets_line)

lemma cstr_text_line [text_simps]: "text_line n l \<Longrightarrow> cstr (l @ [CHR 0x0A]) = l @ [CHR 0x0A]"
  unfolding cstr_def text_line_def by (subst takeWhile_eq_all_conv) auto

lemma dropWhile_space_replicate [text_simps]:
  "dropWhile isspace (replicate k CHR '' '' @ s) = dropWhile isspace s"
  by (induction k) simp_all

lemma scan_num_show_nat_saturate [text_simps]:
  assumes "r = [] \<or> \<not> is_digit (hd r)"
  shows "scan_num 10 bits (show_nat n @ r) = Some (saturate bits False n, r)"
proof -
  have "takeWhile (\<lambda>c. xdigit_val c < 10) (show_nat n @ r) = show_nat n"
    using assms show_nat_digits [of n]
    by (intro takeWhile_digits_append) (auto simp: xdigit_val_dec list_all_iff)
  then show ?thesis
    using show_nat_digits [of n]
    by (simp add: scan_num_def split_sign_show_nat Let_def base_val_dec)
qed

lemma scan_socket_row:
  assumes "text_line 1024 (socket_row row)"
  shows "scan_socket (socket_row row @ [CHR 0x0A]) = Some None"
proof (cases row)
  case (fields pad sl rest)
  have "scanf socket_format (socket_row row @ [CHR 0x0A]) = []"
    unfolding fields socket_row_def socket_format_def
    by (simp add: text_simps is_digit_nat scan_num_def [of 16] split_sign_def xdigit_val_def
        hex_prefix_def)
  then show ?thesis
    unfolding scan_socket_def Let_def cstr_text_line [OF assms] by simp
qed

lemma socket_lines_rows:
  "\<forall>row \<in> set rows. text_line 1024 (socket_row row) \<Longrightarrow>
   socket_lines t m (unlines (map socket_row rows)) es c = Some (c, es)"
proof (induction rows)
  case (Cons row rows)
  then show ?case
    by (subst socket_lines.simps) (simp add: fgets_text_line scan_socket_row)
qed (subst socket_lines.simps, simp)

lemma columns_simps [simp]:
  "columns [] = []" "columns ((g, v) # cs) = replicate (Suc g) CHR '' '' @ show_nat v @ columns cs"
  by (simp_all add: columns_def)

lemma hd_columns: "columns cs @ [CHR 0x0A] = [] \<or> \<not> is_digit (hd (columns cs @ [CHR 0x0A]))"
  by (cases cs) (auto simp: is_digit_nat)

text \<open>One column of a row, read by white space and an integer conversion.\<close>

lemma scanf_column [text_simps]:
  assumes "r = [] \<or> \<not> is_digit (hd r)"
  shows "scanf (Space # Num a 10 bits # ds) (replicate g CHR '' '' @ show_nat v @ r) =
    (if a then [SNum (saturate bits False v)] else []) @ scanf ds r"
  using assms by (simp add: text_simps)

lemma isspace_prefix_name:
  "wf_iface name \<Longrightarrow> dropWhile isspace (replicate pad CHR '' '' @ name @ r) = name @ r"
  by (cases name) (auto simp: text_simps wf_iface_def)

lemma scanf_dev_row:
  assumes "wf_iface name" "8 < length cs"
  shows "scanf dev_format (dev_row (pad, name, cs) @ [CHR 0x0A]) =
    [SStr name, SNum (saturate 64 False (snd (cs ! 0))), SNum (saturate 64 False (snd (cs ! 8)))]"
proof -
  have colon: "CHR '':'' \<notin> set name" and fits: "length name \<le> 63" and "name \<noteq> []"
    using assms(1) by (auto simp: wf_iface_def)
  have "takeWhile (\<lambda>x. x \<noteq> CHR '':'') (name @ CHR '':'' # r) = name" for r
    using colon by (subst takeWhile_append2) auto
  then have name: "scanf (NotIn 63 CHR '':'' # Lit CHR '':'' # ds) (name @ CHR '':'' # r) =
      SStr name # scanf ds r" for ds r
    using fits \<open>name \<noteq> []\<close> by simp
  obtain g0 v0 g1 v1 g2 v2 g3 v3 g4 v4 g5 v5 g6 v6 g7 v7 g8 v8 rest where
    cs: "cs = [(g0, v0), (g1, v1), (g2, v2), (g3, v3), (g4, v4), (g5, v5), (g6, v6), (g7, v7),
               (g8, v8)] @ rest"
    using assms(2) by (auto simp: less_eq_Suc_le Suc_le_length_iff numeral_eq_Suc)
  have col: "scanf (Space # Num a 10 bits # ds)
       (CHR '' '' # replicate g CHR '' '' @ show_nat v @ CHR '' '' # r) =
     (if a then [SNum (saturate bits False v)] else []) @ scanf ds (CHR '' '' # r)" for a bits ds g v r
    using scanf_column [of "CHR '' '' # r" a bits ds "Suc g" v] by (simp add: is_digit_nat)
  have last: "scanf [Space, Num True 10 64]
       (CHR '' '' # replicate g8 CHR '' '' @ show_nat v8 @ columns rest @ [CHR 0x0A]) =
     [SNum (saturate 64 False v8)]"
    using scanf_column [OF hd_columns [of rest], of True 64 "[]" "Suc g8" v8] by simp
  show ?thesis
    unfolding dev_format_def dev_row_def cs prod.case append_assoc append_Cons
    by (subst scanf.simps(2))
       (simp only: isspace_prefix_name [OF assms(1)] append_assoc append_Cons append_Nil name
         columns_simps replicate_Suc col last if_True if_False list.inject scan_val.inject
         nth_Cons_0 nth_Cons_numeral snd_conv, simp)
qed

lemma dev_lines_rows:
  assumes "\<forall>(pad, name, cs) \<in> set rows. text_line 512 (dev_row (pad, name, cs)) \<and> wf_iface name \<and>
    8 < length cs \<and> snd (cs ! 0) < 2 ^ 64 \<and> snd (cs ! 8) < 2 ^ 64"
  shows "dev_lines (unlines (map dev_row rows)) rx tx =
    (rx + of_nat (\<Sum>(_, _, cs) \<leftarrow> rows. snd (cs ! 0)), tx + of_nat (\<Sum>(_, _, cs) \<leftarrow> rows. snd (cs ! 8)))"
  using assms
proof (induction rows arbitrary: rx tx)
  case (Cons row rows)
  obtain pad name cs where row: "row = (pad, name, cs)" by (cases row)
  with Cons.prems have *: "text_line 512 (dev_row row)" "wf_iface name" "8 < length cs"
    "snd (cs ! 0) < 2 ^ 64" "snd (cs ! 8) < 2 ^ 64" by auto
  have "scanf dev_format (cstr (dev_row row @ [CHR 0x0A])) =
      [SStr name, SNum (snd (cs ! 0)), SNum (snd (cs ! 8))]"
    using * scanf_dev_row [OF *(2,3), of pad] by (simp add: cstr_text_line row saturate_def)
  moreover have "fgets 512 (unlines (map dev_row (row # rows))) =
      Some (dev_row row @ [CHR 0x0A], unlines (map dev_row rows))"
    using *(1) by (simp add: fgets_text_line)
  ultimately have "dev_lines (unlines (map dev_row (row # rows))) rx tx =
      dev_lines (unlines (map dev_row rows)) (rx + of_nat (snd (cs ! 0))) (tx + of_nat (snd (cs ! 8)))"
    by (subst dev_lines.simps) simp
  also have "\<dots> = (rx + of_nat (snd (cs ! 0)) + of_nat (\<Sum>(_, _, cs) \<leftarrow> rows. snd (cs ! 0)),
      tx + of_nat (snd (cs ! 8)) + of_nat (\<Sum>(_, _, cs) \<leftarrow> rows. snd (cs ! 8)))"
    using Cons.prems by (intro Cons.IH) auto
  finally show ?case by (simp add: row)
qed (subst dev_lines.simps, simp)

section \<open>Properties\<close>

text \<open>
  C38: No socket of the kernel's tables is ever reported: in every row the slot number is followed
  by a colon, which the format string does not have, so each row is rejected before its first
  conversion is assigned, and the four readers return 0 entries and leave the array alone.
\<close>

theorem kernel_sockets_rejected:
  assumes "files path = Some (unlines (header # map socket_row rows))"
    and "text_line 1024 header" "\<forall>row \<in> set rows. text_line 1024 (socket_row row)"
  shows "parse_proc_net_file files path is_tcp entries max_entries = Some (0, entries)"
  using assms
  by (simp add: parse_proc_net_file_def fgets_text_line socket_lines_rows)

theorem kernel_sockets_rejected_witness:
  "parse_proc_net_file [''/proc/net/tcp'' \<mapsto> unlines (''  sl  local_address'' # map socket_row ex_sockets)]
     ''/proc/net/tcp'' True [] 512 = Some (0, [])"
proof (rule kernel_sockets_rejected [where header = "''  sl  local_address''" and rows = ex_sockets])
  show "\<forall>row \<in> set ex_sockets. text_line 1024 (socket_row row)" by code_simp
qed (simp_all add: text_line_def)

text \<open>
  The interface counters are read correctly: for a table with two header lines and any number
  of interfaces, with any column widths, the results are the sums of the first (received bytes)
  and the ninth column (sent bytes) over all interfaces, modulo 2 to the 64.
\<close>

theorem read_dev_totals:
  assumes "files ''/proc/net/dev'' = Some (unlines (h1 # h2 # map dev_row rows))"
    and "text_line 512 h1" "text_line 512 h2"
    and "\<forall>(pad, name, cs) \<in> set rows. text_line 512 (dev_row (pad, name, cs)) \<and> wf_iface name \<and>
      8 < length cs \<and> snd (cs ! 0) < 2 ^ 64 \<and> snd (cs ! 8) < 2 ^ 64"
  shows "proc_net_read_dev files rx tx =
    (0, of_nat (\<Sum>(_, _, cs) \<leftarrow> rows. snd (cs ! 0)), of_nat (\<Sum>(_, _, cs) \<leftarrow> rows. snd (cs ! 8)))"
  using assms(1-3) dev_lines_rows [OF assms(4), of 0 0]
  by (simp add: proc_net_read_dev_def skip_line_def fgets_text_line)

theorem read_dev_totals_witness:
  "proc_net_read_dev [''/proc/net/dev'' \<mapsto> unlines (''Inter-|'' # '' face |'' # map dev_row ex_ifaces)]
     7 7 = (0, 70500, 1734)"
proof -
  have "\<forall>row \<in> set ex_ifaces. text_line 512 (dev_row row)"
    by (simp add: ex_ifaces_def text_line_def dev_row_def show_nat.simps digit_char_def)
  then have "\<forall>(pad, name, cs) \<in> set ex_ifaces. text_line 512 (dev_row (pad, name, cs)) \<and> wf_iface name \<and>
      8 < length cs \<and> snd (cs ! 0) < 2 ^ 64 \<and> snd (cs ! 8) < 2 ^ 64"
    by (simp add: ex_ifaces_def wf_iface_def isspace_def)
  from read_dev_totals [OF _ _ _ this, of "[''/proc/net/dev'' \<mapsto> unlines (''Inter-|'' # '' face |'' # map dev_row ex_ifaces)]"
      "''Inter-|''" "'' face |''" 7 7]
  show ?thesis by (simp add: text_line_def) (simp add: ex_ifaces_def)
qed

end
