(* ===== verification/Host_Metrics.thy ===== *)
theory Host_Metrics
  imports Proc_Net
begin

text \<open>
  \<open>src/host_metrics.c\<close>: CPU, memory and disk usage and the network totals of the host.  The
  contents of \<open>/proc\<close>, the output of the \<open>df\<close> pipeline and the clock are parameters.  Percentages
  are exact rationals, the rounding of \<open>double\<close> is not modelled.
\<close>

section \<open>Operations\<close>

text \<open>\<open>"cpu %llu %llu %llu %llu %llu %llu %llu"\<close>\<close>

definition cpu_format :: "scan_dir list" where
  "cpu_format = map Lit ''cpu'' @ concat (replicate 7 [Space, Num True 10 64])"

definition read_cpu_percent :: "files \<Rightarrow> rat ub" where
  "read_cpu_percent files =
     (case files ''/proc/stat'' of
        None \<Rightarrow> Some 0
      | Some s \<Rightarrow>
          (let vs = scanf cpu_format (skip_line 256 s) in
           if length vs < 4 then Some 0
           else do {
             user \<leftarrow> snum vs 0; nice \<leftarrow> snum vs 1; system \<leftarrow> snum vs 2; idle \<leftarrow> snum vs 3;
             iowait \<leftarrow> snum vs 4; irq \<leftarrow> snum vs 5; softirq \<leftarrow> snum vs 6;
             let total = (of_nat user + of_nat nice + of_nat system + of_nat idle + of_nat iowait +
                          of_nat irq + of_nat softirq :: u64);
             let busy = total - of_nat idle - of_nat iowait;
             Some (if 0 < total then of_nat (unat busy) * 100 / of_nat (unat total) else 0)
           }))"

definition memtotal_format :: "scan_dir list" where
  "memtotal_format = map Lit ''MemTotal:'' @ [Space, Num True 10 64, Space, Lit CHR ''k'', Lit CHR ''B'']"

definition memavailable_format :: "scan_dir list" where
  "memavailable_format =
     map Lit ''MemAvailable:'' @ [Space, Num True 10 64, Space, Lit CHR ''k'', Lit CHR ''B'']"

function meminfo_lines :: "string \<Rightarrow> nat \<Rightarrow> nat \<Rightarrow> nat \<times> nat" where
  "meminfo_lines s tot available =
     (case fgets 256 s of
        None \<Rightarrow> (tot, available)
      | Some (line, r) \<Rightarrow>
          (case scanf memtotal_format (cstr line) of
             [SNum v] \<Rightarrow> meminfo_lines r v available
           | _ \<Rightarrow>
               (case scanf memavailable_format (cstr line) of
                  [SNum v] \<Rightarrow> (tot, v)
                | _ \<Rightarrow> meminfo_lines r tot available)))"
  by pat_completeness auto
termination
  by (relation "measure (\<lambda>(s, _). length s)") (auto dest: fgets_shorter)

definition read_memory_percent :: "files \<Rightarrow> rat" where
  "read_memory_percent files =
     (case files ''/proc/meminfo'' of
        None \<Rightarrow> 0
      | Some s \<Rightarrow>
          (let (tot, available) = meminfo_lines s 0 0 in
           if tot = 0 then 0
           else of_nat (unat (of_nat tot - of_nat available :: u64)) * 100 / of_nat tot))"

text \<open>\<open>"%lf%%"\<close>, on the first line the pipeline prints (\<open>None\<close>: \<open>popen\<close> fails).\<close>

definition read_disk_percent :: "string option \<Rightarrow> rat" where
  "read_disk_percent df =
     (case df of
        None \<Rightarrow> 0
      | Some s \<Rightarrow>
          (case fgets 32 s of
             None \<Rightarrow> 0
           | Some (buf, _) \<Rightarrow>
               (case scanf [Float, Lit CHR ''%''] (cstr buf) of [SRat pct] \<Rightarrow> pct | _ \<Rightarrow> 0)))"

definition host_metrics_collect ::
  "files \<Rightarrow> string option \<Rightarrow> u64 \<times> u64 \<Rightarrow> host_metric_t \<Rightarrow> string \<Rightarrow> (int \<times> host_metric_t) ub" where
  "host_metrics_collect files df ts metric probe_id = do {
     let m1 = metric\<lparr>hm_timestamp_ns := fst ts * 1000000000 + snd ts,
                     hm_probe_id := set_field (hm_probe_id metric) probe_id\<rparr>;
     cpu \<leftarrow> read_cpu_percent files;
     let m2 = m1\<lparr>hm_cpu_percent := cpu, hm_memory_percent := read_memory_percent files,
                 hm_disk_percent := read_disk_percent df\<rparr>;
     let (_, rx, tx) = proc_net_read_dev files (hm_net_rx_bytes m2) (hm_net_tx_bytes m2);
     Some (0, m2\<lparr>hm_net_rx_bytes := rx, hm_net_tx_bytes := tx,
                  hm_disk_read_bytes := 0, hm_disk_write_bytes := 0\<rparr>)
   }"

section \<open>The kernel's formats\<close>

text \<open>
  \<open>/proc/stat\<close> starts with a line for all processors and one for the first processor: user,
  nice, system, idle, I/O wait, interrupt and soft-interrupt time.
\<close>

definition stat_text :: "string \<Rightarrow> (nat \<times> nat) list \<Rightarrow> string \<Rightarrow> string" where
  "stat_text aggregate cpu0 rest =
     aggregate @ CHR 0x0A # ''cpu0'' @ columns cpu0 @ CHR 0x0A # rest"

definition meminfo_line :: "string \<Rightarrow> nat \<Rightarrow> nat \<Rightarrow> string" where
  "meminfo_line name gap v = name @ CHR '':'' # replicate gap CHR '' '' @ show_nat v @ '' kB''"

section \<open>Lemmas\<close>

declare meminfo_lines.simps [simp del]

lemma scanf_lits [text_simps]: "scanf (map Lit l @ ds) (l @ s) = scanf ds s"
  by (induction l) simp_all

lemma scanf_lits_no_prefix: "take (length l) s \<noteq> l \<Longrightarrow> scanf (map Lit l @ ds) s = []"
proof (induction l arbitrary: s)
  case (Cons c l)
  then show ?case by (cases s) auto
qed simp

text \<open>A line with another name does not match a format that starts with a name and a colon.\<close>

lemma scanf_other_name:
  assumes "CHR '':'' \<notin> set name" "CHR '':'' \<notin> set label" "name \<noteq> label"
  shows "scanf (map Lit (label @ '':'') @ ds) (name @ CHR '':'' # r) = []"
proof (rule scanf_lits_no_prefix, rule notI)
  assume "take (length (label @ '':'')) (name @ CHR '':'' # r) = label @ '':''"
  then have "name @ CHR '':'' # r = label @ CHR '':'' # drop (length (label @ '':'')) (name @ CHR '':'' # r)"
    by (metis append.assoc append_Cons append_Nil append_take_drop_id)
  moreover have "takeWhile (\<lambda>c. c \<noteq> CHR '':'') (l @ CHR '':'' # t) = l" if "CHR '':'' \<notin> set l" for l t
    using that by (subst takeWhile_append2) auto
  ultimately show False
    using assms by metis
qed

lemma scanf_column1 [text_simps]:
  "r = [] \<or> \<not> is_digit (hd r) \<Longrightarrow>
   scanf (Space # Num a 10 bits # ds) (CHR '' '' # replicate g CHR '' '' @ show_nat v @ r) =
   (if a then [SNum (saturate bits False v)] else []) @ scanf ds r"
  using scanf_column [of r a bits ds "Suc g" v] by simp

lemma scanf_column0 [text_simps]:
  "r = [] \<or> \<not> is_digit (hd r) \<Longrightarrow>
   scanf (Space # Num a 10 bits # ds) (show_nat v @ r) =
   (if a then [SNum (saturate bits False v)] else []) @ scanf ds r"
  using scanf_column [of r a bits ds 0 v] by simp

lemma cpu_format_unfold:
  "cpu_format = map Lit ''cpu'' @
     [Space, Num True 10 64, Space, Num True 10 64, Space, Num True 10 64, Space, Num True 10 64,
      Space, Num True 10 64, Space, Num True 10 64, Space, Num True 10 64]"
  unfolding cpu_format_def by code_simp

lemma read_cpu_percent_stat:
  assumes "files ''/proc/stat'' = Some (stat_text agg ([(g1, u), (g2, n), (g3, s), (g4, i), (g5, w), (g6, q)] @ cs) rest)"
    and "text_line 256 agg" "0 < u + n + s + i + w + q" "u + n + s + i + w + q < 2 ^ 64"
  shows "read_cpu_percent files =
    Some (of_nat (u + n + w + q) * 100 / of_nat (u + n + s + i + w + q))"
proof -
  have hd: "columns cs @ CHR 0x0A # rest = [] \<or> \<not> is_digit (hd (columns cs @ CHR 0x0A # rest))"
    by (cases cs) (auto simp: is_digit_nat)
  have sp: "CHR '' '' # r = [] \<or> \<not> is_digit (hd (CHR '' '' # r))" for r
    by (simp add: is_digit_nat)
  have zero: "''0'' = show_nat 0" by (simp add: show_nat.simps digit_char_def)
  have "scanf cpu_format (''cpu'' @ show_nat 0 @ columns ([(g1, u), (g2, n), (g3, s), (g4, i), (g5, w), (g6, q)] @ cs) @
      CHR 0x0A # rest) = map (SNum \<circ> saturate 64 False) [0, u, n, s, i, w, q]"
    unfolding cpu_format_unfold scanf_lits
    by (simp only: append_Cons append_Nil append_assoc columns_simps replicate_Suc if_True
        scanf_column0 [OF sp] scanf_column1 [OF sp] scanf_column1 [OF hd]) simp
  also have "\<dots> = map SNum [0, u, n, s, i, w, q]"
    using assms(4) by (simp add: saturate_def)
  finally have "scanf cpu_format (''cpu'' @ show_nat 0 @ columns ([(g1, u), (g2, n), (g3, s), (g4, i), (g5, w), (g6, q)] @ cs) @
      CHR 0x0A # rest) = map SNum [0, u, n, s, i, w, q]" .
  then have vs: "scanf cpu_format (skip_line 256 (stat_text agg ([(g1, u), (g2, n), (g3, s), (g4, i), (g5, w), (g6, q)] @ cs) rest)) =
      map SNum [0, u, n, s, i, w, q]"
    using assms(2) unfolding zero [symmetric] by (simp add: stat_text_def skip_line_def fgets_text_line)
  obtain T B where T: "T = u + n + s + i + w + q" and B: "B = u + n + w + q" by blast
  have tot: "(of_nat 0 + of_nat u + of_nat n + of_nat s + of_nat i + of_nat w + of_nat q :: u64) = of_nat T"
    and busy: "(of_nat T - of_nat s - of_nat i :: u64) = of_nat B"
    by (simp_all add: T B)
  have unat: "unat (of_nat T :: u64) = T" "unat (of_nat B :: u64) = B"
    using assms(4) by (intro unat_of_nat_less; simp add: T B)+
  have "unat (of_nat T :: u64) \<noteq> unat (0 :: u64)"
    using assms(3) unfolding unat T [symmetric] by simp
  then have pos: "0 < (of_nat T :: u64)"
    by (auto simp only: word_neq_0_conv [symmetric])
  have vals: "snum (map SNum [0, u, n, s, i, w, q]) 0 = Some 0" "snum (map SNum [0, u, n, s, i, w, q]) 1 = Some u"
    "snum (map SNum [0, u, n, s, i, w, q]) 2 = Some n" "snum (map SNum [0, u, n, s, i, w, q]) 3 = Some s"
    "snum (map SNum [0, u, n, s, i, w, q]) 4 = Some i" "snum (map SNum [0, u, n, s, i, w, q]) 5 = Some w"
    "snum (map SNum [0, u, n, s, i, w, q]) 6 = Some q" "\<not> length (map SNum [0, u, n, s, i, w, q]) < 4"
    by (simp_all add: snum_def)
  show ?thesis
    unfolding read_cpu_percent_def assms(1) option.case vs T [symmetric] B [symmetric]
    by (simp only: vals Let_def bind.bind_lunit if_False tot busy pos unat if_True)
qed

lemma meminfo_formats:
  "memtotal_format = map Lit (''MemTotal'' @ '':'') @ [Space, Num True 10 64, Space, Lit CHR ''k'', Lit CHR ''B'']"
  "memavailable_format =
     map Lit (''MemAvailable'' @ '':'') @ [Space, Num True 10 64, Space, Lit CHR ''k'', Lit CHR ''B'']"
  by (simp_all add: memtotal_format_def memavailable_format_def)

lemma scanf_meminfo_line:
  assumes "v < 2 ^ 64"
  shows "scanf (map Lit (name @ '':'') @ [Space, Num True 10 64, Space, Lit CHR ''k'', Lit CHR ''B''])
    (meminfo_line name gap v @ [CHR 0x0A]) = [SNum v]"
proof -
  have "meminfo_line name gap v @ [CHR 0x0A] =
      (name @ '':'') @ replicate gap CHR '' '' @ show_nat v @ '' kB'' @ [CHR 0x0A]"
    by (simp add: meminfo_line_def)
  moreover have "'' kB'' @ [CHR 0x0A] = [] \<or> \<not> is_digit (hd ('' kB'' @ [CHR 0x0A]))"
    by (simp add: is_digit_nat)
  ultimately show ?thesis
    using assms by (simp only: scanf_lits scanf_column) (simp add: saturate_def)
qed

lemma scanf_meminfo_other:
  assumes "CHR '':'' \<notin> set name" "name \<noteq> label" "CHR '':'' \<notin> set label"
  shows "scanf (map Lit (label @ '':'') @ ds) (meminfo_line name gap v @ [CHR 0x0A]) = []"
  unfolding meminfo_line_def append_assoc append_Cons using assms(1,3,2) by (rule scanf_other_name)

lemma meminfo_lines_others:
  assumes "\<forall>(name, gap, v) \<in> set others. CHR '':'' \<notin> set name \<and> name \<noteq> ''MemTotal'' \<and>
      name \<noteq> ''MemAvailable'' \<and> text_line 256 (meminfo_line name gap v)"
  shows "meminfo_lines (unlines (map (\<lambda>(name, gap, v). meminfo_line name gap v) others) @ r) t a =
    meminfo_lines r t a"
  using assms
proof (induction others)
  case (Cons line others)
  obtain name gap v where line: "line = (name, gap, v)" by (cases line)
  with Cons.prems have names: "CHR '':'' \<notin> set name" "name \<noteq> ''MemTotal''" "name \<noteq> ''MemAvailable''"
    and *: "text_line 256 (meminfo_line name gap v)" by auto
  have "scanf memtotal_format (cstr (meminfo_line name gap v @ [CHR 0x0A])) = []"
    "scanf memavailable_format (cstr (meminfo_line name gap v @ [CHR 0x0A])) = []"
    unfolding meminfo_formats cstr_text_line [OF *]
    by (rule scanf_meminfo_other [OF names(1,2)], simp) (rule scanf_meminfo_other [OF names(1,3)], simp)
  with * Cons show ?case
    by (subst meminfo_lines.simps) (simp add: line fgets_text_line)
qed simp

lemma read_memory_percent_meminfo:
  assumes "files ''/proc/meminfo'' = Some (meminfo_line ''MemTotal'' g t @ CHR 0x0A #
      unlines (map (\<lambda>(name, gap, v). meminfo_line name gap v) others) @
      meminfo_line ''MemAvailable'' g' a @ CHR 0x0A # rest)"
    and others: "\<forall>(name, gap, v) \<in> set others. CHR '':'' \<notin> set name \<and> name \<noteq> ''MemTotal'' \<and>
      name \<noteq> ''MemAvailable'' \<and> text_line 256 (meminfo_line name gap v)"
    and lines: "text_line 256 (meminfo_line ''MemTotal'' g t)" "text_line 256 (meminfo_line ''MemAvailable'' g' a)"
    and "0 < t" "a \<le> t" "t < 2 ^ 64"
  shows "read_memory_percent files = of_nat (t - a) * 100 / of_nat t"
proof -
  have total: "scanf memtotal_format (cstr (meminfo_line ''MemTotal'' g t @ [CHR 0x0A])) = [SNum t]"
    unfolding meminfo_formats cstr_text_line [OF lines(1)] using assms(7) by (rule scanf_meminfo_line)
  have "scanf memtotal_format (cstr (meminfo_line ''MemAvailable'' g' a @ [CHR 0x0A])) = []"
    unfolding meminfo_formats cstr_text_line [OF lines(2)] by (rule scanf_meminfo_other) simp_all
  moreover have "scanf memavailable_format (cstr (meminfo_line ''MemAvailable'' g' a @ [CHR 0x0A])) = [SNum a]"
    unfolding meminfo_formats cstr_text_line [OF lines(2)] using assms(6,7) by (intro scanf_meminfo_line) simp
  ultimately have avail: "meminfo_lines (meminfo_line ''MemAvailable'' g' a @ CHR 0x0A # rest) t 0 = (t, a)"
    using lines(2) by (subst meminfo_lines.simps) (simp add: fgets_text_line)
  have "meminfo_lines (meminfo_line ''MemTotal'' g t @ CHR 0x0A #
      unlines (map (\<lambda>(name, gap, v). meminfo_line name gap v) others) @
      meminfo_line ''MemAvailable'' g' a @ CHR 0x0A # rest) 0 0 = (t, a)"
    using total lines(1)
    by (subst meminfo_lines.simps) (simp add: fgets_text_line meminfo_lines_others [OF others] avail)
  moreover have "unat (of_nat t - of_nat a :: u64) = t - a"
    using assms(6,7) by (simp add: of_nat_diff [symmetric] unat_of_nat_less del: of_nat_diff)
  ultimately show ?thesis
    using assms(5) unfolding read_memory_percent_def assms(1) option.case Let_def
    by (simp only: prod.case) simp
qed

lemma read_disk_percent_df:
  assumes "p < 10 ^ 20"
  shows "read_disk_percent (Some (show_nat p @ ''%'' @ CHR 0x0A # rest)) = of_nat p"
proof -
  have digits: "takeWhile is_digit (show_nat p @ r) = show_nat p" if "r = [] \<or> \<not> is_digit (hd r)" for r
    using that show_nat_digits [of p] by (intro takeWhile_digits_append) auto
  have "scan_float (show_nat p @ ''%'' @ [CHR 0x0A]) = Some (of_nat p, ''%'' @ [CHR 0x0A])"
    by (simp add: scan_float_def split_sign_show_nat digits is_digit_nat scan_exp_def)
  moreover have line: "text_line 32 (show_nat p @ ''%'')"
    using length_show_nat [of p 20] assms digit_not_in_show_nat [of "CHR 0x0A" p]
    by (simp add: text_line_def is_digit_nat)
  have "fgets 32 (show_nat p @ ''%'' @ CHR 0x0A # rest) = Some (show_nat p @ ''%'' @ [CHR 0x0A], rest)"
    using fgets_text_line [OF line] by simp
  moreover have "cstr (show_nat p @ ''%'' @ [CHR 0x0A]) = show_nat p @ ''%'' @ [CHR 0x0A]"
    using cstr_text_line [OF line] by simp
  ultimately show ?thesis
    by (simp add: read_disk_percent_def dropWhile_space_show_nat)
qed

section \<open>Properties\<close>

text \<open>
  C39: What one collection reports, on files of the kernel's format.  Memory usage is
  (total - available) / total and disk usage the number \<open>df\<close> prints.  CPU usage is not the
  machine's: the first line of \<open>/proc/stat\<close> has been consumed when \<open>fscanf\<close> starts, so the line
  of processor 0 is read with its number 0 as the user time and every column shifted by one; the
  result counts I/O wait as busy, system time as idle, and leaves soft interrupts out.
\<close>

theorem host_metrics_of_proc:
  assumes "files ''/proc/stat'' = Some (stat_text agg ([(g1, user), (g2, nice), (g3, system), (g4, idle), (g5, iowait), (g6, irq)] @ cs) rest)"
    and "text_line 256 agg" "0 < user + nice + system + idle + iowait + irq"
    and "user + nice + system + idle + iowait + irq < 2 ^ 64"
    and "files ''/proc/meminfo'' = Some (meminfo_line ''MemTotal'' g t @ CHR 0x0A #
      unlines (map (\<lambda>(name, gap, v). meminfo_line name gap v) others) @
      meminfo_line ''MemAvailable'' g' a @ CHR 0x0A # rest')"
    and "\<forall>(name, gap, v) \<in> set others. CHR '':'' \<notin> set name \<and> name \<noteq> ''MemTotal'' \<and>
      name \<noteq> ''MemAvailable'' \<and> text_line 256 (meminfo_line name gap v)"
    and "text_line 256 (meminfo_line ''MemTotal'' g t)" "text_line 256 (meminfo_line ''MemAvailable'' g' a)"
    and "0 < t" "a \<le> t" "t < 2 ^ 64" "p < 10 ^ 20"
    and "proc_net_read_dev files (hm_net_rx_bytes m) (hm_net_tx_bytes m) = (r, rx, tx)"
  shows "host_metrics_collect files (Some (show_nat p @ ''%'' @ CHR 0x0A # rest'')) (sec, nsec) m probe_id =
    Some (0, \<lparr>hm_timestamp_ns = sec * 1000000000 + nsec, hm_probe_id = set_field (hm_probe_id m) probe_id,
       hm_cpu_percent = of_nat (user + nice + iowait + irq) * 100 /
         of_nat (user + nice + system + idle + iowait + irq),
       hm_memory_percent = of_nat (t - a) * 100 / of_nat t, hm_disk_percent = of_nat p,
       hm_net_rx_bytes = rx, hm_net_tx_bytes = tx, hm_disk_read_bytes = 0, hm_disk_write_bytes = 0\<rparr>)"
proof -
  have "read_cpu_percent files = Some (of_nat (user + nice + iowait + irq) * 100 /
      of_nat (user + nice + system + idle + iowait + irq))"
    using assms(1-4) by (rule read_cpu_percent_stat)
  moreover have "read_memory_percent files = of_nat (t - a) * 100 / of_nat t"
    using assms(5-11) by (rule read_memory_percent_meminfo)
  ultimately show ?thesis
    unfolding host_metrics_collect_def read_disk_percent_df [OF assms(12)] using assms(13) by simp
qed

theorem host_metrics_of_proc_witness:
  "host_metrics_collect
     [''/proc/stat'' \<mapsto> stat_text ''cpu  9 9 9 9 9 9'' ([(0, 10), (0, 0), (0, 30), (0, 40), (0, 20), (0, 0)] @ []) [],
      ''/proc/meminfo'' \<mapsto> meminfo_line ''MemTotal'' 3 400 @ CHR 0x0A #
         unlines (map (\<lambda>(name, gap, v). meminfo_line name gap v) [(''MemFree'', 2, 50)]) @
         meminfo_line ''MemAvailable'' 1 100 @ CHR 0x0A # []]
     (Some (show_nat 42 @ ''%'' @ CHR 0x0A # [])) (2, 7)
     \<lparr>hm_timestamp_ns = 0, hm_probe_id = zbuf 64, hm_cpu_percent = 0, hm_memory_percent = 0,
      hm_disk_percent = 0, hm_net_rx_bytes = 5, hm_net_tx_bytes = 6, hm_disk_read_bytes = 1,
      hm_disk_write_bytes = 1\<rparr> ''stb'' =
   Some (0, \<lparr>hm_timestamp_ns = 2000000007, hm_probe_id = set_field (zbuf 64) ''stb'', hm_cpu_percent = 30,
      hm_memory_percent = 75, hm_disk_percent = 42, hm_net_rx_bytes = 5, hm_net_tx_bytes = 6,
      hm_disk_read_bytes = 0, hm_disk_write_bytes = 0\<rparr>)"
  apply (subst host_metrics_of_proc [where user = 10 and nice = 0 and system = 30 and idle = 40 and
        iowait = 20 and irq = 0 and t = 400 and a = 100 and r = "- 1" and rx = 5 and tx = 6 and
        others = "[(''MemFree'', 2, 50)]" and g = 3 and g' = 1 and rest' = "[]" and rest = "[]" and cs = "[]" and
        ?g1.0 = 0 and ?g2.0 = 0 and ?g3.0 = 0 and ?g4.0 = 0 and ?g5.0 = 0 and ?g6.0 = 0 and agg = "''cpu  9 9 9 9 9 9''"])
  apply (simp_all add: text_line_def meminfo_line_def show_nat.simps digit_char_def proc_net_read_dev_def)
  done

end
