(* ===== verification/Runtime_Config.thy ===== *)
theory Runtime_Config
  imports C_Text
begin

text \<open>
  \<open>src/runtime_config.c\<close> and the constants of \<open>src/config.h\<close> it uses: compile-time defaults and
  the environment variables that override them.  The environment is a parameter.  The caller's
  structure is an uninitialised local variable, so its previous contents are arbitrary.
\<close>

definition RELAY_SERVER_IP :: string where [simp]: "RELAY_SERVER_IP = ''10.115.69.95''"
definition RELAY_SERVER_PORT :: int where [simp]: "RELAY_SERVER_PORT = 9104"
definition PROBE_ID :: string where [simp]: "PROBE_ID = ''stb-tyson-01''"
definition LOG_LEVEL :: int where [simp]: "LOG_LEVEL = 2"

record stb_config =
  relay_server_ip :: cbuf
  relay_server_port :: int
  probe_id :: cbuf
  log_level :: int

type_synonym environ = "string \<Rightarrow> string option"

text \<open>\<open>v = getenv(name); if (v && v[0]) f(v)\<close>\<close>

definition override :: "environ \<Rightarrow> string \<Rightarrow> (string \<Rightarrow> 'a \<Rightarrow> 'a) \<Rightarrow> 'a \<Rightarrow> 'a" where
  "override env name f x = (case env name of Some v \<Rightarrow> if v \<noteq> [] then f v x else x | None \<Rightarrow> x)"

definition load_settings :: "environ \<Rightarrow> stb_config \<Rightarrow> stb_config" where
  "load_settings env cfg =
     (let c1 = cfg\<lparr>relay_server_ip := set_field (relay_server_ip cfg) RELAY_SERVER_IP,
                  relay_server_port := RELAY_SERVER_PORT,
                  probe_id := set_field (probe_id cfg) PROBE_ID,
                  log_level := LOG_LEVEL\<rparr>;
          c2 = override env ''STB_RELAY_IP''
                 (\<lambda>v c. c\<lparr>relay_server_ip := set_field (relay_server_ip c) v\<rparr>) c1;
          c3 = override env ''STB_RELAY_PORT'' (\<lambda>v c. c\<lparr>relay_server_port := atoi v\<rparr>) c2;
          c4 = override env ''STB_PROBE_ID'' (\<lambda>v c. c\<lparr>probe_id := set_field (probe_id c) v\<rparr>) c3
      in override env ''STB_LOG_LEVEL'' (\<lambda>v c. c\<lparr>log_level := atoi v\<rparr>) c4)"

text \<open>
  The configuration and the line that is printed.  Printing reads both strings up to their
  terminator; without one it runs past the array.
\<close>

definition config_load_from_env :: "environ \<Rightarrow> stb_config \<Rightarrow> (stb_config \<times> string) ub" where
  "config_load_from_env env cfg = do {
     let c = load_settings env cfg;
     ip \<leftarrow> c_string (relay_server_ip c);
     pid \<leftarrow> c_string (probe_id c);
     Some (c, ''[INFO] Config: server='' @ ip @ '':'' @ show_int (relay_server_port c) @
       '' probe_id='' @ pid @ '' log='' @ show_int (log_level c) @ [CHR 0x0A])
   }"

section \<open>Specification\<close>

definition setting :: "environ \<Rightarrow> string \<Rightarrow> string \<Rightarrow> string" where
  "setting env name dflt = (case env name of Some v \<Rightarrow> if v \<noteq> [] then v else dflt | None \<Rightarrow> dflt)"

definition int_setting :: "environ \<Rightarrow> string \<Rightarrow> int \<Rightarrow> int" where
  "int_setting env name dflt = (case env name of Some v \<Rightarrow> if v \<noteq> [] then atoi v else dflt | None \<Rightarrow> dflt)"

text \<open>A 64-byte field ends in a terminator if the value is short or the last byte was zero.\<close>

definition terminated :: "cbuf \<Rightarrow> string \<Rightarrow> bool" where
  "terminated old v \<longleftrightarrow> length v < 63 \<or> last old = NUL"

section \<open>Lemmas\<close>

lemma drop_set_field: "drop (length d - 1) (set_field d u) = drop (length d - 1) d"
proof -
  have "length (take (length d - 1) u @ replicate (length d - 1 - length u) NUL) = length d - 1"
    by simp
  then show ?thesis
    unfolding set_field_def strncpy_def append_assoc [symmetric] by (metis append_eq_conv_conj)
qed

lemma set_field_twice: "set_field (set_field d u) v = set_field d v"
  unfolding set_field_def [of "set_field d u"] length_set_field
  by (simp only: strncpy_def drop_set_field) (simp only: set_field_def strncpy_def)

lemma c_string_set_field:
  assumes "length d = 64" "NUL \<notin> set v"
  shows "c_string (set_field d v) = (if terminated d v then Some (take 63 v) else None)"
proof -
  obtain e x where d: "d = e @ [x]" "length e = 63"
    using assms(1) by (metis Suc_numeral append_butlast_last_id length_append_singleton length_0_conv
      nat.distinct(1) nat.inject semiring_norm(5) semiring_norm(2) semiring_norm(8) zero_neq_numeral)
  then have "set_field d v = take 63 v @ replicate (63 - length v) NUL @ [x]"
    by (simp add: set_field_def strncpy_def)
  moreover have "NUL \<notin> set (take 63 v)"
    using assms(2) by (meson in_set_takeD)
  ultimately show ?thesis
    by (cases "length v < 63")
       (auto simp: terminated_def c_string_def cstr_def d takeWhile_append takeWhile_replicate)
qed

lemma override_simps [simp]:
  "relay_server_ip (override env n (\<lambda>v c. c\<lparr>relay_server_ip := set_field (relay_server_ip c) v\<rparr>) c) =
     override env n (\<lambda>v b. set_field b v) (relay_server_ip c)"
  "probe_id (override env n (\<lambda>v c. c\<lparr>probe_id := set_field (probe_id c) v\<rparr>) c) =
     override env n (\<lambda>v b. set_field b v) (probe_id c)"
  "relay_server_port (override env n (\<lambda>v c. c\<lparr>relay_server_port := atoi v\<rparr>) c) =
     int_setting env n (relay_server_port c)"
  "log_level (override env n (\<lambda>v c. c\<lparr>log_level := atoi v\<rparr>) c) = int_setting env n (log_level c)"
  by (simp_all add: override_def int_setting_def split: option.splits)

lemma override_frame:
  "(\<And>v. sel (f v c) = sel c) \<Longrightarrow> sel (override env n f c) = sel c"
  by (simp add: override_def split: option.splits)

lemma override_set_field:
  "override env n (\<lambda>v b. set_field b v) (set_field b d) = set_field b (setting env n d)"
  by (simp add: override_def setting_def set_field_twice split: option.splits)

lemma load_settings_fields:
  "relay_server_ip (load_settings env cfg) =
     set_field (relay_server_ip cfg) (setting env ''STB_RELAY_IP'' RELAY_SERVER_IP)"
  "relay_server_port (load_settings env cfg) = int_setting env ''STB_RELAY_PORT'' RELAY_SERVER_PORT"
  "probe_id (load_settings env cfg) = set_field (probe_id cfg) (setting env ''STB_PROBE_ID'' PROBE_ID)"
  "log_level (load_settings env cfg) = int_setting env ''STB_LOG_LEVEL'' LOG_LEVEL"
  unfolding load_settings_def Let_def
  by (simp_all add: override_set_field override_frame [of relay_server_ip]
      override_frame [of relay_server_port] override_frame [of probe_id] override_frame [of log_level]
      del: RELAY_SERVER_IP_def RELAY_SERVER_PORT_def PROBE_ID_def LOG_LEVEL_def)

section \<open>Properties\<close>

text \<open>
  C40: The complete result of loading the configuration: each setting is the variable if it is set
  and not empty, else the default; strings are cut to 63 characters, numbers are read by \<open>atoi\<close>.
  The call is undefined exactly when one of the two strings has 63 or more characters and the
  last byte of its uninitialised field is not zero, because \<open>strncpy\<close> then leaves no terminator.
\<close>

theorem config_from_env:
  assumes "length (relay_server_ip cfg) = 64" "length (probe_id cfg) = 64"
    and "\<forall>name v. env name = Some v \<longrightarrow> NUL \<notin> set v"
    and "ip = setting env ''STB_RELAY_IP'' RELAY_SERVER_IP" "pid = setting env ''STB_PROBE_ID'' PROBE_ID"
  shows "map_option (\<lambda>(c, _). (cstr (relay_server_ip c), relay_server_port c, cstr (probe_id c), log_level c))
      (config_load_from_env env cfg) =
    (if terminated (relay_server_ip cfg) ip \<and> terminated (probe_id cfg) pid
     then Some (take 63 ip, int_setting env ''STB_RELAY_PORT'' RELAY_SERVER_PORT,
                take 63 pid, int_setting env ''STB_LOG_LEVEL'' LOG_LEVEL)
     else None)"
proof -
  have nul: "NUL \<notin> set ip" "NUL \<notin> set pid"
    using assms(3) by (auto simp: assms(4,5) setting_def split: option.splits)
  have "cstr b = s" if "c_string b = Some s" for b s
    using that by (simp add: c_string_def split: if_splits)
  then show ?thesis
    using c_string_set_field [OF assms(1) nul(1)] c_string_set_field [OF assms(2) nul(2)]
    by (auto simp only: config_load_from_env_def load_settings_fields assms(4,5) [symmetric] Let_def
        bind.bind_lunit bind.bind_lzero option.map if_True if_False prod.case split: if_splits)
qed

theorem config_from_env_witness:
  "map_option (\<lambda>(c, _). (cstr (relay_server_ip c), relay_server_port c, cstr (probe_id c), log_level c))
     (config_load_from_env [''STB_RELAY_PORT'' \<mapsto> ''8080'', ''STB_PROBE_ID'' \<mapsto> replicate 70 CHR ''a'']
        \<lparr>relay_server_ip = replicate 64 CHR ''?'', relay_server_port = 0,
         probe_id = replicate 64 CHR ''?'', log_level = 0\<rparr>) = None"
  by (subst config_from_env [OF _ _ _ refl refl])
     (simp_all add: setting_def terminated_def)

end
