(* ===== verification/Payload_Parsers.thy ===== *)
theory Payload_Parsers
  imports Packet_Parser C_Text
begin

text \<open>
  The application-layer parsers of \<open>src/main.c\<close>: \<open>parse_dns_payload\<close>, \<open>parse_http_payload\<close> and
  \<open>extract_tcp_seq_num\<close>.  Every read of the packet is checked against its length; the local
  arrays \<open>name\<close>, \<open>method\<close>, \<open>path\<close>, \<open>host\<close> and \<open>ct_value\<close> are the lists of the characters written so
  far, whose bounds (255, 15, 255, 255, 127) are those of the code's loops.
\<close>

definition chr :: "byte \<Rightarrow> char" where
  "chr b = char_of (unat b)"

definition set_details :: "string \<Rightarrow> flow_event_t \<Rightarrow> flow_event_t" where
  "set_details s e = e\<lparr>fe_details := print_field (fe_details e) s\<rparr>"

section \<open>DNS\<close>

text \<open>
  The loop over the labels of the query name, from \<open>offset\<close>: the offset it stops at, the name
  and whether a compression pointer stopped it.
\<close>

function dns_labels :: "byte list \<Rightarrow> nat \<Rightarrow> nat \<Rightarrow> string \<Rightarrow> (nat \<times> string \<times> bool) ub" where
  "dns_labels payload len offset name =
     (if \<not> offset < len then Some (offset, name, False)
      else do {
        b \<leftarrow> rd payload offset;
        let label_len = unat b;
        if label_len = 0 then Some (offset, name, False)
        else if 0xC0 \<le> label_len then Some (offset, name, True)
        else let offset1 = offset + 1 in
          if len < offset1 + label_len then Some (offset1, name, False)
          else do {
            let name1 = (if 0 < length name \<and> length name < 255 then name @ ''.'' else name);
            bs \<leftarrow> rd_bytes payload offset1 (min label_len (255 - length name1));
            dns_labels payload len (offset1 + label_len) (name1 @ map chr bs)
          }
      })"
  by pat_completeness auto
termination
  by (relation "measure (\<lambda>(_, len, offset, _). len - offset)") auto

definition dns_type_str :: "u16 \<Rightarrow> string" where
  "dns_type_str qtype =
     (if qtype = 1 then ''A'' else if qtype = 28 then ''AAAA'' else if qtype = 5 then ''CNAME''
      else if qtype = 12 then ''PTR'' else if qtype = 15 then ''MX'' else if qtype = 16 then ''TXT''
      else if qtype = 33 then ''SRV'' else ''UNKNOWN'')"

definition parse_dns_query :: "byte list \<Rightarrow> nat \<Rightarrow> flow_event_t \<Rightarrow> flow_event_t ub" where
  "parse_dns_query payload len flow = do {
     (offset, raw, jumped) \<leftarrow> dns_labels payload len 12 [];
     let name = cstr (raw @ [NUL]);
     let type_offset = offset + 1;
     if \<not> jumped \<and> type_offset + 1 < len then do {
       b0 \<leftarrow> rd payload type_offset;
       b1 \<leftarrow> rd payload (type_offset + 1);
       Some (set_details (''dns_query:name='' @ name @ '',type='' @ dns_type_str (be16 b0 b1)) flow)
     } else Some (set_details (''dns_query:name='' @ name) flow)
   }"

definition parse_dns_payload ::
  "byte list ptr \<Rightarrow> int \<Rightarrow> flow_event_t ptr \<Rightarrow> bool \<Rightarrow> flow_event_t ptr ub" where
  "parse_dns_payload payload_p len flow_p is_reply =
     (case (payload_p, flow_p) of
        (Some payload, Some flow) \<Rightarrow>
          (if len < 12 then Some flow_p
           else do {
             hdr \<leftarrow> rd_bytes payload 0 8;
             let flags = be16 (hdr ! 2) (hdr ! 3);
             let qdcount = be16 (hdr ! 4) (hdr ! 5);
             let ancount = be16 (hdr ! 6) (hdr ! 7);
             if is_reply then
               Some (Some (set_details (''dns_reply:rcode='' @ show_word (flags AND 0x0F) @
                 '',ancount='' @ show_word ancount) flow))
             else if 0 < qdcount then map_option Some (parse_dns_query payload (nat len) flow)
             else Some flow_p
           })
      | _ \<Rightarrow> Some flow_p)"

section \<open>HTTP\<close>

text \<open>
  The value of a header: after the name, blanks are skipped and at most \<open>n\<close> characters up to
  the end of the line are copied.
\<close>

definition header_value :: "string \<Rightarrow> string \<Rightarrow> string \<Rightarrow> nat \<Rightarrow> string" where
  "header_value buf name lower n =
     (let hdr = (case strcasestr buf name of None \<Rightarrow> strcasestr buf lower | h \<Rightarrow> h) in
      case hdr of
        None \<Rightarrow> []
      | Some h \<Rightarrow> take n (takeWhile (\<lambda>c. c \<noteq> CHR 0x0D \<and> c \<noteq> CHR 0x0A)
                   (dropWhile (\<lambda>c. c = CHR '' '') (drop (length name) h))))"

definition or_else :: "string \<Rightarrow> string \<Rightarrow> string" where
  "or_else s d = (if s \<noteq> [] then s else d)"

definition set_http :: "string \<Rightarrow> flow_event_t \<Rightarrow> flow_event_t" where
  "set_http s e = (set_details s e)\<lparr>fe_service := set_field (fe_service e) ''HTTP''\<rparr>"

definition parse_http_response :: "string \<Rightarrow> flow_event_t \<Rightarrow> flow_event_t" where
  "parse_http_response buf flow =
     (if take 4 buf = ''HTTP'' then
        let status_code = (case strchr buf CHR '' '' of None \<Rightarrow> 0 | Some sp \<Rightarrow> atoi (tl sp));
            ct_value = header_value buf ''Content-Type:'' ''content-type:'' 127
        in set_http (''http_resp:status='' @ show_int status_code @ '',content_type='' @
             or_else ct_value ''unknown'') flow
      else flow)"

definition parse_http_request :: "string \<Rightarrow> flow_event_t \<Rightarrow> flow_event_t" where
  "parse_http_request buf flow =
     (let (method, path) =
        (case strchr buf CHR '' '' of
           None \<Rightarrow> ([], [])
         | Some sp \<Rightarrow>
             (take 15 (take (length buf - length sp) buf),
              (case strchr (tl sp) CHR '' '' of
                 None \<Rightarrow> []
               | Some path_end \<Rightarrow> take 255 (take (length (tl sp) - length path_end) (tl sp)))));
          host = header_value buf ''Host:'' ''host:'' 255
      in set_http (''http_req:method='' @ or_else method ''UNKNOWN'' @ '',path='' @ or_else path ''/'' @
           '',host='' @ or_else host ''unknown'') flow)"

definition parse_http_payload ::
  "byte list ptr \<Rightarrow> int \<Rightarrow> flow_event_t ptr \<Rightarrow> bool \<Rightarrow> flow_event_t ptr ub" where
  "parse_http_payload payload_p len flow_p is_response =
     (case (payload_p, flow_p) of
        (Some payload, Some flow) \<Rightarrow>
          (if len < 10 then Some flow_p
           else do {
             bs \<leftarrow> rd_bytes payload 0 (nat (if len < 2047 then len else 2047));
             let buf = cstr (map chr bs @ [NUL]);
             Some (Some ((if is_response then parse_http_response else parse_http_request) buf flow))
           })
      | _ \<Rightarrow> Some flow_p)"

section \<open>TCP sequence numbers\<close>

definition seq_has_vlan :: "byte list \<Rightarrow> int \<Rightarrow> bool ub" where
  "seq_has_vlan pkt_buf len =
     (if 16 \<le> len then do {
        t0 \<leftarrow> rd pkt_buf 12;
        if t0 = 0x81 then do { t1 \<leftarrow> rd pkt_buf 13; Some (t1 = 0x00) } else Some False
      } else Some False)"

definition seq_tcp_offset :: "byte list \<Rightarrow> int \<Rightarrow> pkt_event_t \<Rightarrow> nat option ub" where
  "seq_tcp_offset pkt_buf len pkt = do {
     vlan \<leftarrow> seq_has_vlan pkt_buf len;
     let eth_offset = (if vlan then 18 else 14 :: nat);
     if pe_ip_version pkt = 4 then
       if len < int (eth_offset + 20) then Some None
       else do {
         b \<leftarrow> rd pkt_buf eth_offset;
         Some (Some (eth_offset + unat (b AND 0x0F) * 4))
       }
     else if pe_ip_version pkt = 6 then Some (Some (eth_offset + 40))
     else Some None
   }"

definition seq_tcp_flags :: "byte \<Rightarrow> u8" where
  "seq_tcp_flags flags =
     (let f0 = 0;
          f1 = (if flags AND 0x02 \<noteq> 0 then f0 OR 0x02 else f0);
          f2 = (if flags AND 0x10 \<noteq> 0 then f1 OR 0x10 else f1);
          f3 = (if flags AND 0x01 \<noteq> 0 then f2 OR 0x01 else f2)
      in if flags AND 0x04 \<noteq> 0 then f3 OR 0x04 else f3)"

text \<open>
  \<open>Some None\<close> is the return value 0; otherwise the sequence number, the payload length (an
  \<open>int\<close> stored in 16 bits) and the flags.  The pointer arguments of the only caller are not NULL.
\<close>

definition extract_tcp_seq_num ::
  "byte list \<Rightarrow> int \<Rightarrow> pkt_event_t \<Rightarrow> (u32 \<times> u16 \<times> u8) option ub" where
  "extract_tcp_seq_num pkt_buf len pkt =
     (if pe_protocol pkt \<noteq> IPPROTO_TCP then Some None
      else do {
        off \<leftarrow> seq_tcp_offset pkt_buf len pkt;
        case off of
          None \<Rightarrow> Some None
        | Some tcp_offset \<Rightarrow>
            (if len < int (tcp_offset + 20) then Some None
             else do {
               tcp \<leftarrow> rd_bytes pkt_buf tcp_offset 14;
               let seq_num = be32 (tcp ! 4) (tcp ! 5) (tcp ! 6) (tcp ! 7);
               let tcp_hdr_len = unat (drop_bit 4 (tcp ! 12) AND 0x0F) * 4;
               let total_hdr = int (tcp_offset + tcp_hdr_len);
               let payload_len = (if total_hdr < len then len - total_hdr else 0);
               Some (Some (seq_num, of_int payload_len, seq_tcp_flags (tcp ! 13)))
             })
      })"

section \<open>Wire formats\<close>

definition bytes_of :: "string \<Rightarrow> byte list" where
  "bytes_of s = map (\<lambda>c. of_nat (of_char c)) s"

text \<open>A DNS query: header, name as labels, the root label, type and class.\<close>

definition dns_label :: "string \<Rightarrow> byte list" where
  "dns_label l = of_nat (length l) # bytes_of l"

definition dns_query :: "u16 \<Rightarrow> u16 \<Rightarrow> u16 \<Rightarrow> u16 \<Rightarrow> string list \<Rightarrow> u16 \<Rightarrow> byte list \<Rightarrow> byte list" where
  "dns_query ident flags qdcount ancount labels qtype rest =
     u16_bytes ident @ u16_bytes flags @ u16_bytes qdcount @ u16_bytes ancount @ [0, 0, 0, 0] @
     concat (map dns_label labels) @ 0 # u16_bytes qtype @ rest"

definition dots :: "string list \<Rightarrow> string" where
  "dots ls = concat (map (\<lambda>l. CHR ''.'' # l) ls)"

definition dotted_name :: "string list \<Rightarrow> string" where
  "dotted_name ls = (case ls of [] \<Rightarrow> [] | l # ls \<Rightarrow> l @ dots ls)"

definition wf_labels :: "string list \<Rightarrow> bool" where
  "wf_labels ls \<longleftrightarrow> (\<forall>l \<in> set ls. l \<noteq> [] \<and> length l < 0xC0 \<and> NUL \<notin> set l) \<and>
     length (dotted_name ls) \<le> 255"

section \<open>Lemmas\<close>

declare dns_labels.simps [simp del]

lemma chr_byte [simp]: "chr (of_nat (of_char c)) = c"
proof -
  have "(of_char c :: nat) < 2 ^ LENGTH(8)" by simp
  then show ?thesis by (simp add: chr_def unat_of_nat_less)
qed

lemma map_chr_bytes [simp]: "map chr (bytes_of s) = s"
  by (simp add: bytes_of_def comp_def)

lemma length_bytes_of [simp]: "length (bytes_of s) = length s"
  by (simp add: bytes_of_def)

lemma dns_labels_safe:
  assumes "len \<le> length p"
  shows "\<exists>o1 n j. dns_labels p len off name = Some (o1, n, j)"
  using assms
proof (induction p len off name rule: dns_labels.induct)
  case (1 p len off name)
  then show ?case
    by (subst dns_labels.simps) (auto simp: Let_def)
qed

lemma dots_simps [simp]: "dots [] = []" "dots (l # ls) = CHR ''.'' # l @ dots ls"
  by (simp_all add: dots_def)

lemma dns_labels_name:
  assumes "\<forall>l \<in> set ls. l \<noteq> [] \<and> length l < 0xC0"
    and "p = pre @ concat (map dns_label ls) @ 0 # r"
    and "length (name @ (if name = [] then dotted_name ls else dots ls)) \<le> 255"
  shows "dns_labels p (length p) (length pre) name =
    Some (length pre + length (concat (map dns_label ls)),
      name @ (if name = [] then dotted_name ls else dots ls), False)"
  using assms
proof (induction ls arbitrary: pre name)
  case Nil
  then show ?case
    by (subst dns_labels.simps) (simp add: dotted_name_def nth_append)
next
  case (Cons l ls)
  let ?name1 = "if 0 < length name \<and> length name < 255 then name @ ''.'' else name"
  have len: "unat (of_nat (length l) :: byte) = length l" and l: "l \<noteq> []" "length l < 192"
    using Cons.prems(1) by (auto intro!: unat_of_nat_less)
  have p: "p = pre @ of_nat (length l) # bytes_of l @ concat (map dns_label ls) @ 0 # r"
    using Cons.prems(2) by (simp add: dns_label_def [of l])
  have name1: "?name1 = (if name = [] then [] else name @ ''.'')"
    "length (?name1 @ l @ dots ls) \<le> 255"
    using Cons.prems(3) by (cases "name = []"; simp add: dotted_name_def)+
  have bytes: "rd_bytes p (length pre + 1) (min (length l) (255 - length ?name1)) = Some (bytes_of l)"
  proof -
    have "min (length l) (255 - length ?name1) = length l"
      using name1(2) by (simp only: length_append)
    then show ?thesis by (simp only:) (simp add: rd_bytes_def p)
  qed
  have step: "dns_labels p (length p) (length pre) name =
      dns_labels p (length p) (length pre + 1 + length l) (?name1 @ l)"
    using len l bytes by (subst dns_labels.simps) (simp add: p nth_append Let_def)
  have "dns_labels p (length p) (length (pre @ of_nat (length l) # bytes_of l)) (?name1 @ l) =
      Some (length (pre @ of_nat (length l) # bytes_of l) + length (concat (map dns_label ls)),
        (?name1 @ l) @ (if ?name1 @ l = [] then dotted_name ls else dots ls), False)"
    using Cons.prems name1(2) l(1) p by (intro Cons.IH) auto
  with step l(1) show ?case
    unfolding name1(1) by (auto simp: dns_label_def [of l] dotted_name_def)
qed

lemma and_mask_bit:
  "(b AND 0x02 \<noteq> 0) = bit b 1" "(b AND 0x10 \<noteq> 0) = bit b 4" "(b AND 0x01 \<noteq> 0) = bit b 0"
  "(b AND 0x04 \<noteq> 0) = bit b 2" for b :: byte
  using and_exp_eq_0_iff_not_bit [of b 1] and_exp_eq_0_iff_not_bit [of b 4]
    and_exp_eq_0_iff_not_bit [of b 0] and_exp_eq_0_iff_not_bit [of b 2] by simp_all

lemma seq_tcp_flags_eq: "seq_tcp_flags f = f AND 0x17"
proof (rule bit_word_eqI)
  fix n assume "n < LENGTH(8)"
  then have "n \<in> {0, 1, 2, 3, 4, 5, 6, 7}" by (intro less_8_cases) simp
  then show "bit (seq_tcp_flags f) n = bit (f AND 0x17) n"
    by (auto simp: seq_tcp_flags_def Let_def and_mask_bit flag_step bit_and_iff simp del: bit_or_iff)
qed

lemma wf_set_details: "wf_flow_event e \<Longrightarrow> wf_cbuf 128 (print_field (fe_details e) s)"
  by (simp add: wf_flow_event_def)

lemma parse_dns_query_safe:
  assumes "len \<le> length p"
  shows "\<exists>s. parse_dns_query p len e = Some (set_details s e)"
  using dns_labels_safe [OF assms, of 12 "[]"] assms
  by (auto simp: parse_dns_query_def Let_def)

lemma parse_dns_payload_safe:
  assumes "len \<le> int (length p)"
  shows "parse_dns_payload (Some p) len (Some e) is_reply = Some (Some e) \<or>
    (\<exists>s. parse_dns_payload (Some p) len (Some e) is_reply = Some (Some (set_details s e)))"
  using parse_dns_query_safe [of "nat len" p e] assms
  by (auto simp: parse_dns_payload_def Let_def)

lemma parse_http_request_shape: "\<exists>s. parse_http_request buf e = set_http s e"
  unfolding parse_http_request_def Let_def split_def by (rule exI, rule refl)

lemma parse_http_response_shape: "parse_http_response buf e = e \<or> (\<exists>s. parse_http_response buf e = set_http s e)"
proof (cases "take 4 buf = ''HTTP''")
  case True
  show ?thesis
    unfolding parse_http_response_def Let_def if_P [OF True] by (rule disjI2, rule exI, rule refl)
qed (simp add: parse_http_response_def)

lemma parse_http_payload_safe:
  assumes "len \<le> int (length p)"
  shows "parse_http_payload (Some p) len (Some e) is_response = Some (Some e) \<or>
    (\<exists>s. parse_http_payload (Some p) len (Some e) is_response = Some (Some (set_http s e)))"
proof (cases "len < 10")
  case False
  define n where "n = nat (if len < 2047 then len else 2047)"
  define buf where "buf = cstr (map chr (take n (drop 0 p)) @ [NUL])"
  have "rd_bytes p 0 n = Some (take n (drop 0 p))"
    using assms False by (intro rd_bytes_Some) (auto simp: n_def)
  then have "parse_http_payload (Some p) len (Some e) is_response =
      Some (Some ((if is_response then parse_http_response else parse_http_request) buf e))"
    using False by (simp add: parse_http_payload_def n_def buf_def)
  then show ?thesis
    using parse_http_request_shape [of buf e] parse_http_response_shape [of buf e]
    by (cases is_response) auto
qed (simp add: parse_http_payload_def)

lemma seq_has_vlan_safe:
  assumes "len \<le> int (length p)"
  shows "seq_has_vlan p len \<noteq> None"
  using assms by (cases "16 \<le> len"; cases "p ! 12 = 0x81") (simp_all add: seq_has_vlan_def)

lemma seq_tcp_offset_safe:
  assumes "len \<le> int (length p)"
  shows "\<exists>off. seq_tcp_offset p len pkt = Some off"
proof -
  obtain v where v: "seq_has_vlan p len = Some v"
    using seq_has_vlan_safe [OF assms] by blast
  have "rd p (if v then 18 else 14) \<noteq> None" if "\<not> len < int ((if v then 18 else 14) + 20)"
    using that assms by (auto split: if_splits)
  then show ?thesis
    by (auto simp: seq_tcp_offset_def Let_def v split del: if_split) (auto split: if_split)
qed

lemma extract_tcp_seq_num_safe:
  assumes "len \<le> int (length p)"
  shows "extract_tcp_seq_num p len pkt \<noteq> None"
proof -
  obtain off where off: "seq_tcp_offset p len pkt = Some off"
    using seq_tcp_offset_safe [OF assms] by blast
  show ?thesis
  proof (cases off)
    case (Some n)
    have "rd_bytes p n 14 \<noteq> None" if "\<not> len < int (n + 20)"
      using that assms by simp
    then show ?thesis
      by (auto simp: extract_tcp_seq_num_def off Some Let_def)
  qed (simp add: extract_tcp_seq_num_def off)
qed

lemma bytes_u16: "be16 (u16_bytes x ! 0) (u16_bytes x ! Suc 0) = x"
  by (simp add: u16_bytes_def endian_simps)

lemma dns_query_parts:
  fixes labels qtype rest
  defines "names \<equiv> concat (map dns_label labels)"
  assumes "p = dns_query ident flags qd an labels qtype rest"
  shows "length p = 15 + length names + length rest"
    "rd_bytes p 0 8 = Some (u16_bytes ident @ u16_bytes flags @ u16_bytes qd @ u16_bytes an)"
    "p ! (13 + length names) = ucast (drop_bit 8 qtype)" "p ! (14 + length names) = ucast qtype"
    "p = (u16_bytes ident @ u16_bytes flags @ u16_bytes qd @ u16_bytes an @ [0, 0, 0, 0]) @ names @ 0 # u16_bytes qtype @ rest"
  unfolding names_def assms(2) dns_query_def
  by (simp_all add: u16_bytes_def rd_bytes_def nth_append)

lemma parse_dns_query_name:
  assumes p: "p = dns_query ident flags qd an labels qtype rest" and wf: "wf_labels labels"
  shows "parse_dns_query p (length p) e =
    Some (set_details (''dns_query:name='' @ dotted_name labels @ '',type='' @ dns_type_str qtype) e)"
proof -
  note parts = dns_query_parts [OF p]
  have labels: "\<forall>l \<in> set labels. l \<noteq> [] \<and> length l < 0xC0"
    "length ([] @ (if [] = [] then dotted_name labels else dots labels)) \<le> 255"
    using wf by (auto simp: wf_labels_def)
  have "NUL \<notin> set (dotted_name labels)"
    using wf by (auto simp: wf_labels_def dotted_name_def dots_def split: list.splits)
  then have name: "cstr (dotted_name labels @ [NUL]) = dotted_name labels"
    unfolding cstr_def by (subst takeWhile_append2) auto
  have "dns_labels p (length p) 12 [] =
      Some (12 + length (concat (map dns_label labels)), dotted_name labels, False)"
    using dns_labels_name [OF labels(1) parts(5) labels(2)]
    by (simp only: length_append length_u16_bytes list.size append_Nil simp_thms if_True) simp
  then show ?thesis
    using parts(1,3,4) by (simp add: parse_dns_query_def name add.commute endian_simps)
qed

lemma be32_u32_bytes [endian_simps]:
  "be32 (ucast (drop_bit 24 x)) (ucast (drop_bit 16 x)) (ucast (drop_bit 8 x)) (ucast x) = (x :: u32)"
proof (rule bit_word_eqI)
  fix n assume "n < LENGTH(32)"
  then consider "n < 8" | "8 \<le> n" "n < 16" | "16 \<le> n" "n < 24" | "24 \<le> n" "n < 32" by fastforce
  then show "bit (be32 (ucast (drop_bit 24 x)) (ucast (drop_bit 16 x)) (ucast (drop_bit 8 x)) (ucast x)) n = bit x n"
    by cases (auto simp: be32_def bit_simps)
qed

lemma seq_has_vlan_frame:
  assumes "length macs = 12" "f = eth_frame macs vlan ETH_P_IP q" "20 \<le> length q"
  shows "seq_has_vlan f (int (length f)) = Some (vlan \<noteq> None)"
  using assms
  by (auto simp: seq_has_vlan_def eth_frame_def u16_bytes_def nth_append split: option.splits)

lemma seq_tcp_offset_frame:
  assumes "length macs = 12" "wf_ipv4 h opts" "pe_ip_version pkt = 4"
    and f: "f = eth_frame macs vlan ETH_P_IP (ipv4_hdr h opts @ q)"
  shows "seq_tcp_offset f (int (length f)) pkt = Some (Some (eth_off vlan + v4_ihl h * 4))"
proof -
  obtain pre where pre: "f = pre @ ipv4_hdr h opts @ q" "eth_off vlan = length pre"
    using eth_frame_split [OF assms(1) f] by blast
  have len: "20 \<le> length (ipv4_hdr h opts)" and ihl: "v4_ihl h < 16"
    using length_ipv4_hdr [OF assms(2)] assms(2) by (auto simp: wf_ipv4_def)
  have first: "rd f (eth_off vlan) = Some (0x40 OR of_nat (v4_ihl h))"
    unfolding pre by (simp add: rd_def ipv4_hdr_def)
  have "seq_has_vlan f (int (length f)) = Some (vlan \<noteq> None)"
    using seq_has_vlan_frame [OF assms(1) f] len by simp
  moreover have "(if vlan \<noteq> None then 18 else 14) = eth_off vlan"
    by (simp add: eth_off_def split: option.splits)
  moreover have "\<not> int (length f) < int (eth_off vlan + 20)"
    using len by (simp add: pre)
  ultimately show ?thesis
    using assms(3) ihl_nibble [OF ihl] first by (simp add: seq_tcp_offset_def)
qed

lemma dns_query_details:
  assumes "p = dns_query ident flags qdcount ancount labels qtype rest" "wf_labels labels"
    and "0 < qdcount" "wf_flow_event e"
  shows "\<exists>e'. parse_dns_payload (Some p) (int (length p)) (Some e) False = Some (Some e') \<and>
    cstr (fe_details e') =
      take 127 (''dns_query:name='' @ dotted_name labels @ '',type='' @ dns_type_str qtype)"
proof -
  note parts = dns_query_parts [OF assms(1)]
  obtain s where s: "s = ''dns_query:name='' @ dotted_name labels @ '',type='' @ dns_type_str qtype" by blast
  have "NUL \<notin> set (dns_type_str qtype)" by (simp add: dns_type_str_def)
  moreover have "NUL \<notin> set (dotted_name labels)"
    using assms(2) by (auto simp: wf_labels_def dotted_name_def dots_def split: list.splits)
  ultimately have nul: "NUL \<notin> set s" by (simp add: s)
  have "be16 ((u16_bytes ident @ u16_bytes flags @ u16_bytes qdcount @ u16_bytes ancount) ! 4)
      ((u16_bytes ident @ u16_bytes flags @ u16_bytes qdcount @ u16_bytes ancount) ! 5) = qdcount"
    by (simp add: u16_bytes_def endian_simps)
  moreover have "\<not> int (length p) < 12" using parts(1) by simp
  ultimately have "parse_dns_payload (Some p) (int (length p)) (Some e) False = Some (Some (set_details s e))"
    using parts(2) parse_dns_query_name [OF assms(1,2), of e] assms(3)
    by (simp add: parse_dns_payload_def Let_def s)
  then show ?thesis
    using assms(4) cstr_print_field [OF _ nul, of 128 "fe_details e"] unfolding s [symmetric]
    by (simp add: set_details_def wf_flow_event_def)
qed

section \<open>Properties\<close>

text \<open>
  C24: Every parser is total on every input of the given length, including malformed and truncated
  ones: the label loop ends, no byte outside the payload is read, and the flow event stays well
  formed and changes at most in its details and service fields.
\<close>

theorem payload_parsers_safe:
  assumes "len \<le> int (length p)" "wf_flow_event e"
  shows "(\<exists>e'. parse_dns_payload (Some p) len (Some e) is_reply = Some (Some e') \<and> wf_flow_event e' \<and>
        e' = e\<lparr>fe_details := fe_details e'\<rparr>) \<and>
      (\<exists>e'. parse_http_payload (Some p) len (Some e) is_response = Some (Some e') \<and> wf_flow_event e' \<and>
        e' = e\<lparr>fe_details := fe_details e', fe_service := fe_service e'\<rparr>) \<and>
      extract_tcp_seq_num p len pkt \<noteq> None"
proof (intro conjI)
  show "\<exists>e'. parse_dns_payload (Some p) len (Some e) is_reply = Some (Some e') \<and> wf_flow_event e' \<and>
      e' = e\<lparr>fe_details := fe_details e'\<rparr>"
    using parse_dns_payload_safe [OF assms(1), of e is_reply] assms(2)
    by (auto simp: set_details_def wf_flow_event_def)
  show "\<exists>e'. parse_http_payload (Some p) len (Some e) is_response = Some (Some e') \<and> wf_flow_event e' \<and>
      e' = e\<lparr>fe_details := fe_details e', fe_service := fe_service e'\<rparr>"
    using parse_http_payload_safe [OF assms(1), of e is_response] assms(2)
    by (auto simp: set_http_def set_details_def wf_flow_event_def)
qed (rule extract_tcp_seq_num_safe [OF assms(1)])

theorem payload_parsers_safe_witness:
  "\<exists>e'. parse_dns_payload (Some (replicate 14 200)) 14 (Some zero_flow_event) False = Some (Some e') \<and>
     wf_flow_event e' \<and> e' = zero_flow_event\<lparr>fe_details := fe_details e'\<rparr>"
  using payload_parsers_safe [of 14 "replicate 14 200" zero_flow_event False]
  by (simp add: wf_flow_event_def zero_flow_event_def)

text \<open>
  C25: Round trip for DNS queries: for a query whose name has non-empty labels of fewer than 192
  characters and at most 255 characters in all, the details are the dotted name and the mnemonic
  of the query type, cut to the 127 characters of the field.
\<close>

theorem dns_query_roundtrip:
  assumes "p = dns_query ident flags qdcount ancount labels qtype rest" "wf_labels labels"
    and "0 < qdcount" "wf_flow_event e"
  shows "\<exists>e'. parse_dns_payload (Some p) (int (length p)) (Some e) False = Some (Some e') \<and>
    cstr (fe_details e') =
      take 127 (''dns_query:name='' @ dotted_name labels @ '',type='' @ dns_type_str qtype)"
  using assms by (rule dns_query_details)

theorem dns_query_roundtrip_witness:
  "\<exists>e'. parse_dns_payload (Some (dns_query 7 0x100 1 0 [''www'', ''example'', ''org''] 28 [0, 1]))
     33 (Some zero_flow_event) False = Some (Some e') \<and>
     cstr (fe_details e') = ''dns_query:name=www.example.org,type=AAAA''"
  using dns_query_roundtrip [OF refl, where labels = "[''www'', ''example'', ''org'']" and qdcount = 1 and
      e = zero_flow_event and ident = 7 and flags = "0x100" and ancount = 0 and qtype = 28 and rest = "[0, 1]"]
  by (simp add: wf_labels_def dotted_name_def wf_flow_event_def zero_flow_event_def dns_query_def
      u16_bytes_def dns_label_def dns_type_str_def)

text \<open>
  Sequence number, flags and payload length of an IPv4/TCP frame, with any IP and TCP
  options.  The length is that of everything after the TCP header up to the end of the frame, so
  the padding of a short Ethernet frame counts as payload: the IP total length is not consulted.
\<close>

theorem tcp_seq_of_frame:
  assumes "length macs = 12" "wf_ipv4 h opts" "pe_protocol pkt = IPPROTO_TCP" "pe_ip_version pkt = 4"
    and f: "f = eth_frame macs vlan ETH_P_IP (ipv4_hdr h opts @ tcp_hdr t @ topts @ data @ padding)"
    and "unat (drop_bit 4 (th_doff t) AND 0x0F) * 4 = 20 + length topts"
  shows "extract_tcp_seq_num f (int (length f)) pkt =
    Some (Some (th_seq t, of_nat (length data + length padding), th_flags t AND 0x17))"
proof -
  obtain pre where pre: "f = pre @ ipv4_hdr h opts @ tcp_hdr t @ topts @ data @ padding" "eth_off vlan = length pre"
    using eth_frame_split [OF assms(1) f] by blast
  have ip: "length (ipv4_hdr h opts) = v4_ihl h * 4"
    using length_ipv4_hdr [OF assms(2)] by simp
  have off: "seq_tcp_offset f (int (length f)) pkt = Some (Some (eth_off vlan + v4_ihl h * 4))"
    using seq_tcp_offset_frame [OF assms(1,2,4) f] .
  have tcp: "rd_bytes f (eth_off vlan + v4_ihl h * 4) 14 = Some (take 14 (tcp_hdr t))"
  proof -
    have "f = (pre @ ipv4_hdr h opts) @ tcp_hdr t @ topts @ data @ padding" by (simp add: pre)
    then show ?thesis by (simp only:) (subst rd_bytes_append; simp add: pre ip)
  qed
  have fields: "take 14 (tcp_hdr t) ! 12 = th_doff t" "take 14 (tcp_hdr t) ! 13 = th_flags t"
    "be32 (take 14 (tcp_hdr t) ! 4) (take 14 (tcp_hdr t) ! 5) (take 14 (tcp_hdr t) ! 6) (take 14 (tcp_hdr t) ! 7) = th_seq t"
    by (simp_all add: tcp_hdr_def u16_bytes_def u32_bytes_def endian_simps)
  have len: "length f = eth_off vlan + v4_ihl h * 4 + 20 + length topts + (length data + length padding)"
    by (simp add: pre ip)
  obtain L n where L: "L = int (length f)" and n: "n = eth_off vlan + v4_ihl h * 4" by blast
  have "\<not> L < int (n + 20)" "L - int (n + (20 + length topts)) = int (length data + length padding)"
    "int (n + (20 + length topts)) < L \<longleftrightarrow> 0 < length data + length padding"
    using len unfolding L n by linarith+
  then show ?thesis
    using assms(3,6) off tcp fields unfolding L [symmetric] n [symmetric]
    by (simp add: extract_tcp_seq_num_def seq_tcp_flags_eq del: of_nat_add)
qed

theorem tcp_seq_of_frame_witness:
  "extract_tcp_seq_num (eth_frame (replicate 12 1) None ETH_P_IP
       (ipv4_hdr (ex_ipv4\<lparr>v4_ihl := 5\<rparr>) [] @ tcp_hdr (ex_tcp\<lparr>th_flags := 0x10\<rparr>) @ [] @ [] @ replicate 6 0))
     60 (zero_pkt_event\<lparr>pe_protocol := 6, pe_ip_version := 4\<rparr>) = Some (Some (1000, 6, 0x10))"
  using tcp_seq_of_frame [OF _ _ _ _ refl, of "replicate 12 1" "ex_ipv4\<lparr>v4_ihl := 5\<rparr>" "[]"
      "zero_pkt_event\<lparr>pe_protocol := 6, pe_ip_version := 4\<rparr>" "ex_tcp\<lparr>th_flags := 0x10\<rparr>" "[]" None "[]" "replicate 6 0"]
  by (simp add: wf_ipv4_def ex_ipv4_def ex_tcp_def eth_frame_def u16_bytes_def ipv4_hdr_def)

end
