(* ===== verification/Bpf_Loader.thy ===== *)
theory Bpf_Loader
  imports Packet_Parser C_Text Sys_Calls "HOL-Library.Sublist"
begin

text \<open>
  \<open>src/bpf_loader.c\<close>: the ELF reader, loading and attaching the socket filter, the per-CPU perf
  rings and the clean-up.  The object file is a list of bytes with a file position; the kernel is
  a record of system calls over an abstract world.  A variable that a short \<open>fread\<close> left
  uninitialised is \<open>None\<close>, and using it is undefined.  \<open>long\<close> and \<open>size_t\<close> have 32 bits on the
  target.  Log output other than the reads it performs is left out.
\<close>

definition PERF_MAX_CPUS :: nat where [simp]: "PERF_MAX_CPUS = 16"
definition PERF_PAGE_CNT :: int where [simp]: "PERF_PAGE_CNT = 64"

section \<open>Reading the object file\<close>

definition le_val :: "byte list \<Rightarrow> nat" where
  "le_val bs = foldr (\<lambda>b v. unat b + 256 * v) bs 0"

text \<open>\<open>fread(&v, n, 1, f)\<close> for an integer: its value, and the new position.\<close>

definition fread_int :: "nat \<Rightarrow> byte list \<Rightarrow> nat \<Rightarrow> nat option \<times> nat" where
  "fread_int n f pos =
     (if pos + n \<le> length f then (Some (le_val (take n (drop pos f))), pos + n)
      else (None, max pos (length f)))"

text \<open>\<open>fseek(f, off, SEEK_SET)\<close>: a negative \<open>long\<close> is refused and leaves the position alone.\<close>

definition fseek_set :: "u64 \<Rightarrow> nat \<Rightarrow> nat" where
  "fseek_set off pos = (let l = sint (ucast off :: u32) in if 0 \<le> l then nat l else pos)"

text \<open>Product of two 16-bit values, computed in \<open>int\<close>.\<close>

definition mul_int :: "nat \<Rightarrow> nat \<Rightarrow> u64 ub" where
  "mul_int a b = (if int (a * b) \<le> INT_MAX then Some (of_nat (a * b)) else None)"

record elf_header =
  eh_shoff :: u64
  eh_shentsize :: nat
  eh_shnum :: nat
  eh_shstrndx :: "nat option"

record elf_bpf_prog =
  ep_insns :: "byte list"
  ep_insn_cnt :: int

text \<open>Identification: 64-bit little-endian ELF.\<close>

definition elf_ident_ok :: "byte list \<Rightarrow> bool" where
  "elf_ident_ok f \<longleftrightarrow>
     16 \<le> length f \<and> take 4 f = [0x7f, 0x45, 0x4c, 0x46] \<and> f ! 4 = 2 \<and> f ! 5 = 1"

text \<open>
  The fields after the identification.  \<open>e_shnum\<close> is used by the loop, so it must have been read,
  and then so have the fields before it; \<open>e_shstrndx\<close>, after it, is used only when a name is read.
\<close>

definition read_elf_header :: "byte list \<Rightarrow> (elf_header \<times> nat) ub" where
  "read_elf_header f =
     (let p0 = 16;
          (e_type, p1) = fread_int 2 f p0;
          (e_machine, p2) = fread_int 2 f p1;
          (e_shoff, p3) = fread_int 8 f (p2 + (4 + 8 + 8));
          (e_shentsize, p4) = fread_int 2 f (p3 + (4 + 2 + 2 + 2));
          (e_shnum, p5) = fread_int 2 f p4;
          (e_shstrndx, p6) = fread_int 2 f p5
      in do {
        num \<leftarrow> e_shnum; shoff \<leftarrow> e_shoff; entsize \<leftarrow> e_shentsize;
        Some (\<lparr>eh_shoff = of_nat shoff, eh_shentsize = entsize, eh_shnum = num, eh_shstrndx = e_shstrndx\<rparr>, p6)
      })"

text \<open>
  A section header and the name of its section.  The name is read only for a non-empty section
  of type \<open>SHT_PROGBITS\<close>; \<open>None\<close> for the others.
\<close>

record elf_section =
  es_name :: string
  es_offset :: u64
  es_size :: u64

definition read_elf_section :: "byte list \<Rightarrow> elf_header \<Rightarrow> nat \<Rightarrow> nat \<Rightarrow> (elf_section option \<times> nat) ub" where
  "read_elf_section f eh i pos = do {
     ioff \<leftarrow> mul_int i (eh_shentsize eh);
     let p0 = fseek_set (eh_shoff eh + ioff) pos;
     let (sh_name, p1) = fread_int 4 f p0;
     let (sh_type, p2) = fread_int 4 f p1;
     let (sh_offset, p3) = fread_int 8 f (p2 + (8 + 8));
     let (sh_size, p4) = fread_int 8 f p3;
     ty \<leftarrow> sh_type;
     if ty \<noteq> 1 then Some (None, p4)
     else do {
       size \<leftarrow> sh_size;
       if size = 0 then Some (None, p4)
       else do {
         strndx \<leftarrow> eh_shstrndx eh;
         soff \<leftarrow> mul_int strndx (eh_shentsize eh);
         let (str_off, p5) = fread_int 8 f (fseek_set (eh_shoff eh + soff + 24) p4);
         str \<leftarrow> str_off; nm \<leftarrow> sh_name;
         let p6 = fseek_set (of_nat str + of_nat nm) p5;
         let name = map (\<lambda>b. char_of (unat b)) (take 31 (drop p6 f));
         off \<leftarrow> sh_offset;
         Some (Some \<lparr>es_name = cstr (name @ [NUL]), es_offset = of_nat off, es_size = of_nat size\<rparr>,
           p6 + length name)
       }
     }
   }"

definition is_program_section :: "string \<Rightarrow> bool" where
  "is_program_section name \<longleftrightarrow> sublist ''text'' name \<or> sublist ''socket'' name"

text \<open>
  Loading the instructions: \<open>Some None\<close> is the return value -1.  The first eight bytes are
  printed, whatever the size of the section.
\<close>

definition load_elf_program ::
  "(nat \<Rightarrow> bool) \<Rightarrow> byte list \<Rightarrow> elf_section \<Rightarrow> nat \<Rightarrow> elf_bpf_prog option ub" where
  "load_elf_program malloc f s pos =
     (let n = unat (ucast (es_size s) :: u32) in
      if \<not> malloc n then Some None
      else let insns = take n (drop (fseek_set (es_offset s) pos) f) in
        if length insns \<noteq> unat (es_size s) then Some None
        else if length insns < 8 then None
        else Some (Some \<lparr>ep_insns = insns, ep_insn_cnt = int (unat (es_size s) div 8)\<rparr>))"

fun elf_sections ::
  "(nat \<Rightarrow> bool) \<Rightarrow> byte list \<Rightarrow> elf_header \<Rightarrow> nat list \<Rightarrow> nat \<Rightarrow> elf_bpf_prog option ub" where
  "elf_sections malloc f eh [] pos = Some None"
| "elf_sections malloc f eh (i # is) pos = do {
     (sec, pos1) \<leftarrow> read_elf_section f eh i pos;
     case sec of
       None \<Rightarrow> elf_sections malloc f eh is pos1
     | Some s \<Rightarrow>
         (if is_program_section (es_name s) then load_elf_program malloc f s pos1
          else elf_sections malloc f eh is pos1)
   }"

definition parse_bpf_elf ::
  "(nat \<Rightarrow> bool) \<Rightarrow> (string \<Rightarrow> byte list option) \<Rightarrow> string \<Rightarrow> elf_bpf_prog option ub" where
  "parse_bpf_elf malloc files path =
     (case files path of
        None \<Rightarrow> Some None
      | Some f \<Rightarrow>
          (if \<not> elf_ident_ok f then Some None
           else do {
             (eh, pos) \<leftarrow> read_elf_header f;
             elf_sections malloc f eh [0..<eh_shnum eh] pos
           }))"

section \<open>The embedded filter\<close>

text \<open>
  \<open>struct sock_filter\<close> is a 16-bit code, two 8-bit jump offsets and a 32-bit constant; the fifth
  initialiser of each entry has no field.
\<close>

record sock_filter =
  sf_code :: u16
  sf_jt :: u8
  sf_jf :: u8
  sf_k :: u32

definition embedded_bpf_prog :: "sock_filter list" where
  "embedded_bpf_prog =
     [\<lparr>sf_code = 0x61, sf_jt = 0, sf_jf = 0, sf_k = 0\<rparr>, \<lparr>sf_code = 0x95, sf_jt = 0, sf_jf = 0, sf_k = 0\<rparr>]"

definition sock_filter_bytes :: "sock_filter \<Rightarrow> byte list" where
  "sock_filter_bytes s =
     [ucast (sf_code s), ucast (drop_bit 8 (sf_code s)), sf_jt s, sf_jf s,
      ucast (sf_k s), ucast (drop_bit 8 (sf_k s)), ucast (drop_bit 16 (sf_k s)), ucast (drop_bit 24 (sf_k s))]"

section \<open>Status and system calls\<close>

record bpf_loader_status =
  bl_socket_fd :: int
  bl_perf_map_fd :: int
  bl_bpf_prog_fd :: int
  bl_use_bpf :: int
  bl_nr_cpus :: int
  bl_perf_fds :: "int list"
  bl_perf_mmap :: "int ptr list"
  bl_perf_page_cnt :: int
  bl_error :: cbuf

definition zero_status :: bpf_loader_status where
  "zero_status = \<lparr>bl_socket_fd = 0, bl_perf_map_fd = 0, bl_bpf_prog_fd = 0, bl_use_bpf = 0,
     bl_nr_cpus = 0, bl_perf_fds = replicate PERF_MAX_CPUS 0,
     bl_perf_mmap = replicate PERF_MAX_CPUS None, bl_perf_page_cnt = 0, bl_error = zbuf 256\<rparr>"

text \<open>
  \<open>bs_prog_load\<close> is \<open>bpf(BPF_PROG_LOAD)\<close> with the instructions and their number, \<open>bs_log\<close> the
  verifier's log, \<open>bs_ifreq\<close> the \<open>SIOCGIFINDEX\<close> request and \<open>bs_ifindex\<close> its answer, \<open>bs_attach\<close>
  \<open>SO_ATTACH_BPF\<close>, \<open>bs_mmap\<close> a mapping, negative for \<open>MAP_FAILED\<close>.
\<close>

record 'w bpf_sys =
  bs_prog_load :: "byte list \<Rightarrow> int \<Rightarrow> 'w call"
  bs_log :: "'w \<Rightarrow> string"
  bs_socket :: "'w call"
  bs_ifreq :: "int \<Rightarrow> string \<Rightarrow> 'w call"
  bs_ifindex :: "'w \<Rightarrow> int"
  bs_bind :: "int \<Rightarrow> int \<Rightarrow> 'w call"
  bs_attach :: "int \<Rightarrow> int \<Rightarrow> 'w call"
  bs_close :: "int \<Rightarrow> 'w call"
  bs_perf_open :: "nat \<Rightarrow> 'w call"
  bs_map_update :: "int \<Rightarrow> nat \<Rightarrow> int \<Rightarrow> 'w call"
  bs_mmap :: "int \<Rightarrow> int \<Rightarrow> 'w call"
  bs_munmap :: "int \<Rightarrow> int \<Rightarrow> 'w call"
  bs_prog_load_empty :: "'w call"
  bs_strerror :: "int \<Rightarrow> string"
  bs_page_size :: int
  bs_nprocs :: int

section \<open>Calls of \<open>bpf()\<close> that are not used\<close>

text \<open>
  Three wrappers that nothing calls; the \<open>bpf()\<close> command is a parameter.  \<open>bpf_map_get_next_id\<close>
  never stores to \<open>next_id\<close>; \<open>bpf_obj_get_info_by_fd\<close> stores the length that the kernel leaves in
  the attribute.
\<close>

definition bpf_map_get_next_id :: "(u32 \<Rightarrow> 'w call) \<Rightarrow> u32 \<Rightarrow> u32 ptr \<Rightarrow> 'w io \<Rightarrow> int \<times> u32 ptr \<times> 'w io" where
  "bpf_map_get_next_id bpf start_id next_id io = (let (r, io1) = sys_call (bpf start_id) io in (r, next_id, io1))"

definition bpf_map_get_fd_by_id :: "(u32 \<Rightarrow> 'w call) \<Rightarrow> u32 \<Rightarrow> 'w io \<Rightarrow> int \<times> 'w io" where
  "bpf_map_get_fd_by_id bpf map_id io = sys_call (bpf map_id) io"

definition bpf_obj_get_info_by_fd ::
  "(int \<Rightarrow> u32 \<Rightarrow> 'w call) \<Rightarrow> ('w \<Rightarrow> u32) \<Rightarrow> int \<Rightarrow> u32 \<Rightarrow> 'w io \<Rightarrow> int \<times> u32 \<times> 'w io" where
  "bpf_obj_get_info_by_fd bpf attr_info_len fd info_len io =
     (let (r, io1) = sys_call (bpf fd info_len) io in (r, attr_info_len (io_world io1), io1))"

section \<open>Initialisation\<close>

definition set_error :: "string \<Rightarrow> bpf_loader_status \<Rightarrow> bpf_loader_status" where
  "set_error s st = st\<lparr>bl_error := print_field (bl_error st) s\<rparr>"

definition close_fd :: "'w bpf_sys \<Rightarrow> int \<Rightarrow> 'w io \<Rightarrow> 'w io" where
  "close_fd sys fd io = snd (sys_call (bs_close sys fd) io)"

text \<open>Steps 3 to 5, with the program loaded: socket, interface, bind, attach.\<close>

definition attach_filter ::
  "'w bpf_sys \<Rightarrow> string \<Rightarrow> int \<Rightarrow> bpf_loader_status \<Rightarrow> 'w io \<Rightarrow> int \<times> bpf_loader_status \<times> 'w io" where
  "attach_filter sys ifname prog_fd st io =
     (let (sock_fd, io1) = sys_call (bs_socket sys) io in
      if sock_fd < 0 then
        (- 1, set_error (''socket(AF_PACKET) failed: '' @ bs_strerror sys (io_errno io1) @ '' (need root)'') st,
         close_fd sys prog_fd io1)
      else let (r2, io2) = sys_call (bs_ifreq sys sock_fd (take 15 ifname)) io1 in
      if r2 < 0 then
        (- 1, set_error (''ioctl(SIOCGIFINDEX) failed: '' @ bs_strerror sys (io_errno io2)) st,
         close_fd sys prog_fd (close_fd sys sock_fd io2))
      else let (r3, io3) = sys_call (bs_bind sys sock_fd (bs_ifindex sys (io_world io2))) io2 in
      if r3 < 0 then
        (- 1, set_error (''bind(AF_PACKET) failed: '' @ bs_strerror sys (io_errno io3)) st,
         close_fd sys prog_fd (close_fd sys sock_fd io3))
      else let (r4, io4) = sys_call (bs_attach sys sock_fd prog_fd) io3 in
      if r4 < 0 then
        (- 1, set_error (''SO_ATTACH_BPF failed: '' @ bs_strerror sys (io_errno io4)) st,
         close_fd sys prog_fd (close_fd sys sock_fd io4))
      else (0, st\<lparr>bl_socket_fd := sock_fd, bl_use_bpf := 1\<rparr>, io4))"

section \<open>Perf rings\<close>

text \<open>One CPU: open the event, enter it into the map, map the ring.  \<open>None\<close>: the CPU is skipped.\<close>

definition setup_cpu ::
  "'w bpf_sys \<Rightarrow> int \<Rightarrow> int \<Rightarrow> nat \<Rightarrow> 'w io \<Rightarrow> (int \<times> int) option \<times> 'w io" where
  "setup_cpu sys map_fd page_cnt cpu io =
     (let (fd, io1) = sys_call (bs_perf_open sys cpu) io in
      if fd < 0 then (None, io1)
      else let (r2, io2) = sys_call (bs_map_update sys map_fd cpu fd) io1 in
      if r2 < 0 then (None, close_fd sys fd io2)
      else let (buf, io3) = sys_call (bs_mmap sys fd ((page_cnt + 1) * bs_page_size sys)) io2 in
      if buf < 0 then (None, close_fd sys fd io3)
      else (Some (fd, buf), io3))"

fun setup_cpus ::
  "'w bpf_sys \<Rightarrow> nat list \<Rightarrow> bpf_loader_status \<Rightarrow> 'w io \<Rightarrow> bpf_loader_status \<times> 'w io" where
  "setup_cpus sys [] st io = (st, io)"
| "setup_cpus sys (cpu # cpus) st io =
     (case setup_cpu sys (bl_perf_map_fd st) (bl_perf_page_cnt st) cpu io of
        (None, io1) \<Rightarrow> setup_cpus sys cpus (st\<lparr>bl_perf_fds := (bl_perf_fds st)[cpu := - 1]\<rparr>) io1
      | (Some (fd, buf), io1) \<Rightarrow>
          setup_cpus sys cpus
            (st\<lparr>bl_perf_fds := (bl_perf_fds st)[cpu := fd], bl_perf_mmap := (bl_perf_mmap st)[cpu := Some buf],
                bl_nr_cpus := bl_nr_cpus st + 1\<rparr>) io1)"

definition clamp_cpus :: "int \<Rightarrow> nat" where
  "clamp_cpus n = (if n \<le> 0 then 1 else if int PERF_MAX_CPUS < n then PERF_MAX_CPUS else nat n)"

definition bpf_loader_create_perf_buffer ::
  "'w bpf_sys \<Rightarrow> bpf_loader_status \<Rightarrow> 'w io \<Rightarrow> int \<times> bpf_loader_status \<times> 'w io" where
  "bpf_loader_create_perf_buffer sys st io =
     (let st0 = st\<lparr>bl_perf_page_cnt := PERF_PAGE_CNT, bl_nr_cpus := 0\<rparr> in
      if bl_perf_map_fd st0 < 0 then (- 1, st0, io)
      else let (st1, io1) = setup_cpus sys [0..<clamp_cpus (bs_nprocs sys)] st0 io
           in (if bl_nr_cpus st1 = 0 then - 1 else 0, st1, io1))"

definition bpf_loader_init ::
  "'w bpf_sys \<Rightarrow> (nat \<Rightarrow> bool) \<Rightarrow> (string \<Rightarrow> byte list option) \<Rightarrow> string \<Rightarrow> string \<Rightarrow> 'w io \<Rightarrow>
   (int \<times> bpf_loader_status \<times> 'w io) ub" where
  "bpf_loader_init sys malloc files ifname bpf_obj_path io = do {
     let st = zero_status\<lparr>bl_socket_fd := - 1, bl_perf_map_fd := - 1, bl_bpf_prog_fd := - 1\<rparr>;
     elf \<leftarrow> parse_bpf_elf malloc files bpf_obj_path;
     let (insns, insn_cnt) = (case elf of
         Some prog \<Rightarrow> (ep_insns prog, ep_insn_cnt prog)
       | None \<Rightarrow> (concat (map sock_filter_bytes embedded_bpf_prog), int (length embedded_bpf_prog)));
     let (prog_fd, io1) = sys_call (bs_prog_load sys insns insn_cnt) io;
     if prog_fd < 0 then
       let log_buf = bs_log sys (io_world io1) in
       Some (- 1, set_error (''BPF_PROG_LOAD failed: '' @ bs_strerror sys (io_errno io1) @ [CHR 0x0A] @
         ''Verifier: '' @ (if log_buf \<noteq> [] then log_buf else ''(no log)'')) st, io1)
     else
       let (r, st2, io2) =
         attach_filter sys ifname prog_fd (st\<lparr>bl_bpf_prog_fd := prog_fd, bl_perf_map_fd := - 1\<rparr>) io1
       in if r < 0 then Some (r, st2, io2)
          else if 0 \<le> bl_perf_map_fd st2 then
            let (_, st3, io3) = bpf_loader_create_perf_buffer sys st2 io2 in Some (0, st3, io3)
          else Some (0, st2, io2)
   }"

text \<open>\<open>recvfrom\<close> on the socket, a parameter here; a negative descriptor is refused.\<close>

definition bpf_loader_read_packet :: "(int \<Rightarrow> 'w call) \<Rightarrow> int \<Rightarrow> 'w io \<Rightarrow> int \<times> 'w io" where
  "bpf_loader_read_packet recvfrom fd io = (if fd < 0 then (- 1, io) else sys_call (recvfrom fd) io)"

definition bpf_loader_is_available :: "'w bpf_sys \<Rightarrow> 'w io \<Rightarrow> bool \<times> 'w io" where
  "bpf_loader_is_available sys io =
     (let (ret, io1) = sys_call (bs_prog_load_empty sys) io in (ret < 0 \<and> io_errno io1 \<noteq> 38, io1))"

section \<open>Clean-up\<close>

definition cleanup_cpu :: "'w bpf_sys \<Rightarrow> nat \<Rightarrow> bpf_loader_status \<times> 'w io \<Rightarrow> bpf_loader_status \<times> 'w io" where
  "cleanup_cpu sys i = (\<lambda>(st, io).
     let (st1, io1) = (case bl_perf_mmap st ! i of
             Some m \<Rightarrow> (st\<lparr>bl_perf_mmap := (bl_perf_mmap st)[i := None]\<rparr>,
                        snd (sys_call (bs_munmap sys m ((bl_perf_page_cnt st + 1) * bs_page_size sys)) io))
           | None \<Rightarrow> (st, io))
     in if 0 \<le> bl_perf_fds st1 ! i
        then (st1\<lparr>bl_perf_fds := (bl_perf_fds st1)[i := - 1]\<rparr>, close_fd sys (bl_perf_fds st1 ! i) io1)
        else (st1, io1))"

definition bpf_loader_cleanup ::
  "'w bpf_sys \<Rightarrow> bpf_loader_status ptr \<Rightarrow> 'w io \<Rightarrow> bpf_loader_status ptr \<times> 'w io" where
  "bpf_loader_cleanup sys status io =
     (case status of
        None \<Rightarrow> (None, io)
      | Some st \<Rightarrow>
          (let (st1, io1) = fold (cleanup_cpu sys) [0..<nat (bl_nr_cpus st)] (st, io);
               (st2, io2) = (if 0 \<le> bl_socket_fd st1
                  then (st1\<lparr>bl_socket_fd := - 1\<rparr>, close_fd sys (bl_socket_fd st1) io1) else (st1, io1));
               (st3, io3) = (if 0 \<le> bl_bpf_prog_fd st2
                  then (st2\<lparr>bl_bpf_prog_fd := - 1\<rparr>, close_fd sys (bl_bpf_prog_fd st2) io2) else (st2, io2))
           in (Some (st3\<lparr>bl_use_bpf := 0\<rparr>), io3)))"

section \<open>Reading the perf rings\<close>

definition PERF_RECORD_SAMPLE :: nat where [simp]: "PERF_RECORD_SAMPLE = 9"

text \<open>\<open>sizeof(struct pkt_event_t)\<close>: 38 bytes of fields, padded to the alignment of the time stamp.\<close>

definition event_size :: nat where [simp]: "event_size = 40"

record perf_ring =
  pr_head :: u64
  pr_tail :: u64
  pr_data :: "byte list"

text \<open>
  The loop over one ring, whose data area has \<open>ring_size\<close> bytes: \<open>events\<close> are the events copied so
  far.  \<open>Some None\<close> is a read past the data area; \<open>None\<close> means that the loop does not return.
\<close>

partial_function (option) perf_ring_loop ::
  "byte list \<Rightarrow> nat \<Rightarrow> u64 \<Rightarrow> int \<Rightarrow> u64 \<Rightarrow> byte list list \<Rightarrow> (u64 \<times> byte list list) ub option" where
  "perf_ring_loop data ring_size head bufsize tail events =
     (if tail < head then
        (let pos = unat tail mod ring_size in
         case rd_bytes data pos 8 of
           None \<Rightarrow> Some None
         | Some eph \<Rightarrow>
             (case (if le_val (take 4 eph) = PERF_RECORD_SAMPLE \<and>
                       int (event_size * length events + event_size) \<le> bufsize
                    then map_option (\<lambda>d. events @ [d]) (rd_bytes data (pos + 12) event_size)
                    else Some events) of
                None \<Rightarrow> Some None
              | Some events1 \<Rightarrow>
                  perf_ring_loop data ring_size head bufsize (tail + of_nat (le_val (drop 6 eph))) events1))
      else Some (Some (tail, events)))"

text \<open>
  All CPUs below \<open>nr_cpus\<close>; \<open>rings\<close> is the memory behind the mappings.  The result is the return
  value, the number of events, the bytes written and the rings with their tails moved.
\<close>

fun perf_cpus ::
  "int \<Rightarrow> bpf_loader_status \<Rightarrow> int \<Rightarrow> nat list \<Rightarrow> (int \<Rightarrow> perf_ring) \<Rightarrow> byte list list \<Rightarrow>
   ((int \<Rightarrow> perf_ring) \<times> byte list list) ub option" where
  "perf_cpus page_size st bufsize [] rings events = Some (Some (rings, events))"
| "perf_cpus page_size st bufsize (cpu # cpus) rings events =
     (case (bl_perf_fds st ! cpu, bl_perf_mmap st ! cpu) of
        (fd, Some m) \<Rightarrow>
          (if fd < 0 then perf_cpus page_size st bufsize cpus rings events
           else let ring = rings m in
             case perf_ring_loop (pr_data ring) (nat (bl_perf_page_cnt st * page_size)) (pr_head ring)
                    bufsize (pr_tail ring) events of
               None \<Rightarrow> None
             | Some None \<Rightarrow> Some None
             | Some (Some (tail, events1)) \<Rightarrow>
                 perf_cpus page_size st bufsize cpus (rings(m := ring\<lparr>pr_tail := tail\<rparr>)) events1)
      | (fd, None) \<Rightarrow> perf_cpus page_size st bufsize cpus rings events)"

definition bpf_loader_read_perf_events ::
  "int \<Rightarrow> bpf_loader_status \<Rightarrow> int \<Rightarrow> (int \<Rightarrow> perf_ring) \<Rightarrow>
   (int \<times> int \<times> byte list \<times> (int \<Rightarrow> perf_ring)) ub option" where
  "bpf_loader_read_perf_events page_size st bufsize rings =
     map_option (map_option (\<lambda>(rings', events).
         (int (event_size * length events), int (length events), concat events, rings')))
       (perf_cpus page_size st bufsize [0..<nat (bl_nr_cpus st)] rings [])"

section \<open>Formats\<close>

text \<open>Little-endian integers, an ELF64 object with a null section, a string table and one program.\<close>

fun le_bytes :: "nat \<Rightarrow> nat \<Rightarrow> byte list" where
  "le_bytes 0 v = []"
| "le_bytes (Suc n) v = of_nat (v mod 256) # le_bytes n (v div 256)"

definition elf_shdr :: "nat \<Rightarrow> nat \<Rightarrow> nat \<Rightarrow> nat \<Rightarrow> byte list" where
  "elf_shdr name ty off len =
     le_bytes 4 name @ le_bytes 4 ty @ le_bytes 8 0 @ le_bytes 8 0 @ le_bytes 8 off @ le_bytes 8 len @
     le_bytes 4 0 @ le_bytes 4 0 @ le_bytes 8 1 @ le_bytes 8 0"

definition elf_ehdr :: "nat \<Rightarrow> byte list" where
  "elf_ehdr shoff =
     [0x7f, 0x45, 0x4c, 0x46, 2, 1, 1, 0, 0, 0, 0, 0, 0, 0, 0, 0] @ le_bytes 2 1 @ le_bytes 2 247 @
     le_bytes 4 1 @ le_bytes 8 0 @ le_bytes 8 0 @ le_bytes 8 shoff @ le_bytes 4 0 @ le_bytes 2 64 @
     le_bytes 2 0 @ le_bytes 2 0 @ le_bytes 2 64 @ le_bytes 2 3 @ le_bytes 2 1"

definition str_bytes :: "string \<Rightarrow> byte list" where
  "str_bytes s = map (\<lambda>c. of_nat (of_char c)) s @ [0]"

definition elf_strings :: "string \<Rightarrow> byte list" where
  "elf_strings name = 0 # str_bytes ''.strtab'' @ str_bytes name"

definition elf_object :: "string \<Rightarrow> byte list \<Rightarrow> byte list" where
  "elf_object name insns =
     (let strs = elf_strings name; str_off = 64 + length insns in
      elf_ehdr (str_off + length strs) @ insns @ strs @
      elf_shdr 0 0 0 0 @ elf_shdr 1 3 str_off (length strs) @ elf_shdr 9 1 64 (length insns))"

text \<open>
  What the properties rely on: loading a program and opening a socket return a new descriptor or
  a negative number, \<open>close\<close> removes the descriptor, and the other calls open and close none.
\<close>

definition opens_new :: "('w \<Rightarrow> int set) \<Rightarrow> 'w call \<Rightarrow> bool" where
  "opens_new opens f \<longleftrightarrow>
     (\<forall>w. case f w of (r, e, w') \<Rightarrow>
        if r < 0 then opens w' = opens w else r \<notin> opens w \<and> opens w' = insert r (opens w))"

definition bpf_fds :: "'w bpf_sys \<Rightarrow> ('w \<Rightarrow> int set) \<Rightarrow> bool" where
  "bpf_fds sys opens \<longleftrightarrow>
     (\<forall>insns n. opens_new opens (bs_prog_load sys insns n)) \<and> opens_new opens (bs_socket sys) \<and>
     (\<forall>fd w. opens (snd (snd (bs_close sys fd w))) = opens w - {fd}) \<and>
     (\<forall>fd name. keeps opens (bs_ifreq sys fd name)) \<and> (\<forall>fd i. keeps opens (bs_bind sys fd i)) \<and>
     (\<forall>fd p. keeps opens (bs_attach sys fd p))"

text \<open>A record of a ring: header (type, misc, size), the size of the raw data, and the data.\<close>

definition perf_record :: "nat \<Rightarrow> byte list \<Rightarrow> byte list" where
  "perf_record ty payload =
     le_bytes 4 ty @ le_bytes 2 0 @ le_bytes 2 (12 + length payload) @ le_bytes 4 (length payload) @ payload"

definition ring_records :: "(nat \<times> byte list) list \<Rightarrow> byte list" where
  "ring_records rs = concat (map (\<lambda>(ty, payload). perf_record ty payload) rs)"

definition wf_record :: "nat \<times> byte list \<Rightarrow> bool" where
  "wf_record = (\<lambda>(ty, payload). ty < 2 ^ 32 \<and> length payload < 2 ^ 15 \<and> (ty = 9 \<longrightarrow> 40 \<le> length payload))"

definition samples :: "(nat \<times> byte list) list \<Rightarrow> byte list list" where
  "samples rs = map (\<lambda>(ty, payload). take 40 payload) (filter (\<lambda>(ty, _). ty = 9) rs)"

text \<open>A record of another type whose size field is 0.\<close>

definition stuck_record :: "byte list \<Rightarrow> nat \<Rightarrow> u64 \<Rightarrow> bool" where
  "stuck_record data n tail \<longleftrightarrow>
     (\<exists>eph. rd_bytes data (unat tail mod n) 8 = Some eph \<and> le_val (drop 6 eph) = 0 \<and>
        le_val (take 4 eph) \<noteq> PERF_RECORD_SAMPLE)"

text \<open>A kernel whose calls all succeed; its world is the list of open descriptors.\<close>

definition ex_open :: "int list call" where
  "ex_open w = (let fd = Max (set (0 # w)) + 1 in (fd, 0, fd # w))"

definition ex_bpf_sys :: "int list bpf_sys" where
  "ex_bpf_sys = \<lparr>bs_prog_load = (\<lambda>_ _. ex_open), bs_log = (\<lambda>_. []), bs_socket = ex_open,
     bs_ifreq = (\<lambda>_ _ w. (0, 0, w)), bs_ifindex = (\<lambda>_. 2), bs_bind = (\<lambda>_ _ w. (0, 0, w)),
     bs_attach = (\<lambda>_ _ w. (0, 0, w)), bs_close = (\<lambda>fd w. (0, 0, filter (\<lambda>x. x \<noteq> fd) w)),
     bs_perf_open = (\<lambda>_. ex_open), bs_map_update = (\<lambda>_ _ _ w. (0, 0, w)), bs_mmap = (\<lambda>_ _ w. (0, 0, w)),
     bs_munmap = (\<lambda>_ _ w. (0, 0, w)), bs_prog_load_empty = (\<lambda>w. (- 1, 22, w)), bs_strerror = (\<lambda>_. []),
     bs_page_size = 4096, bs_nprocs = 4\<rparr>"

section \<open>Lemmas\<close>

lemma length_le_bytes [simp]: "length (le_bytes n v) = n"
  by (induction n arbitrary: v) simp_all

lemma le_val_simps [simp]: "le_val [] = 0" "le_val (b # bs) = unat b + 256 * le_val bs"
  by (simp_all add: le_val_def)

lemma le_val_bytes: "v < 256 ^ n \<Longrightarrow> le_val (le_bytes n v) = v"
proof (induction n arbitrary: v)
  case (Suc n)
  then have "v div 256 < 256 ^ n" by (simp add: less_mult_imp_div_less mult.commute)
  moreover have "unat (of_nat (v mod 256) :: byte) = v mod 256" by (intro unat_of_nat_less) simp
  ultimately show ?case by (simp add: Suc.IH del: of_nat_mod)
qed simp

lemma fread_int_at:
  assumes "f = pre @ le_bytes n v @ post" "length pre = pos" "v < 256 ^ n"
  shows "fread_int n f pos = (Some v, pos + n)"
  using assms by (simp add: fread_int_def le_val_bytes)

lemma fseek_set_small:
  assumes "n < 2 ^ 31"
  shows "fseek_set (of_nat n) pos = n"
proof -
  have "uint (ucast (of_nat n :: u64) :: u32) = int n"
    using assms by (simp add: unsigned_ucast_eq unsigned_of_nat take_bit_int_eq_self take_bit_nat_eq_self take_bit_eq_mod)
  then have "sint (ucast (of_nat n :: u64) :: u32) = int n"
    using assms by (simp add: sint_uint signed_take_bit_int_eq_self)
  then show ?thesis by (simp add: fseek_set_def)
qed

lemma read_elf_header_object:
  assumes "f = elf_ehdr shoff @ r" "shoff < 2 ^ 31"
  shows "read_elf_header f = Some (\<lparr>eh_shoff = of_nat shoff, eh_shentsize = 64, eh_shnum = 3, eh_shstrndx = Some 1\<rparr>, 64)"
proof -
  let ?id = "[0x7f, 0x45, 0x4c, 0x46, 2, 1, 1, 0, 0, 0, 0, 0, 0, 0, 0, 0] :: byte list"
  have "fread_int 2 f 16 = (Some 1, 16 + 2)"
    by (rule fread_int_at [where pre = ?id]) (auto simp: assms elf_ehdr_def)
  moreover have "fread_int 2 f 18 = (Some 247, 18 + 2)"
    by (rule fread_int_at [where pre = "?id @ le_bytes 2 1"]) (auto simp: assms elf_ehdr_def)
  moreover have "fread_int 8 f 40 = (Some shoff, 40 + 8)"
    by (rule fread_int_at [where pre = "?id @ le_bytes 2 1 @ le_bytes 2 247 @ le_bytes 4 1 @ le_bytes 8 0 @ le_bytes 8 0"])
       (use assms(2) in \<open>auto simp: assms(1) elf_ehdr_def\<close>)
  moreover have "fread_int 2 f 58 = (Some 64, 58 + 2)"
    by (rule fread_int_at [where pre = "?id @ le_bytes 2 1 @ le_bytes 2 247 @ le_bytes 4 1 @ le_bytes 8 0 @ le_bytes 8 0 @
        le_bytes 8 shoff @ le_bytes 4 0 @ le_bytes 2 64 @ le_bytes 2 0 @ le_bytes 2 0"]) (auto simp: assms elf_ehdr_def)
  moreover have "fread_int 2 f 60 = (Some 3, 60 + 2)"
    by (rule fread_int_at [where pre = "?id @ le_bytes 2 1 @ le_bytes 2 247 @ le_bytes 4 1 @ le_bytes 8 0 @ le_bytes 8 0 @
        le_bytes 8 shoff @ le_bytes 4 0 @ le_bytes 2 64 @ le_bytes 2 0 @ le_bytes 2 0 @ le_bytes 2 64"]) (auto simp: assms elf_ehdr_def)
  moreover have "fread_int 2 f 62 = (Some 1, 62 + 2)"
    by (rule fread_int_at [where pre = "?id @ le_bytes 2 1 @ le_bytes 2 247 @ le_bytes 4 1 @ le_bytes 8 0 @ le_bytes 8 0 @
        le_bytes 8 shoff @ le_bytes 4 0 @ le_bytes 2 64 @ le_bytes 2 0 @ le_bytes 2 0 @ le_bytes 2 64 @ le_bytes 2 3"])
       (auto simp: assms elf_ehdr_def)
  ultimately show ?thesis by (simp add: read_elf_header_def)
qed

text \<open>The four fields of a section header that are read.\<close>

lemma fread_shdr:
  assumes "f = pre @ elf_shdr name ty off len @ r" "length pre = p"
    and "name < 2 ^ 32" "ty < 2 ^ 32" "off < 2 ^ 64" "len < 2 ^ 64"
  shows "fread_int 4 f p = (Some name, p + 4)" "fread_int 4 f (p + 4) = (Some ty, p + 8)"
    "fread_int 8 f (p + 24) = (Some off, p + 32)" "fread_int 8 f (p + 32) = (Some len, p + 40)"
  using fread_int_at [of f pre 4 name _ p]
    fread_int_at [of f "pre @ le_bytes 4 name" 4 ty _ "p + 4"]
    fread_int_at [of f "pre @ le_bytes 4 name @ le_bytes 4 ty @ le_bytes 8 0 @ le_bytes 8 0" 8 off _ "p + 24"]
    fread_int_at [of f "pre @ le_bytes 4 name @ le_bytes 4 ty @ le_bytes 8 0 @ le_bytes 8 0 @ le_bytes 8 off" 8 len _ "p + 32"]
    assms by (simp_all add: elf_shdr_def)

lemma length_elf_parts [simp]:
  "length (elf_ehdr shoff) = 64" "length (elf_shdr nm ty off len) = 64"
  "length (elf_strings name) = 10 + length name"
  by (simp_all add: elf_ehdr_def elf_shdr_def elf_strings_def str_bytes_def)

lemma chars_of_bytes [simp]: "map ((\<lambda>b. char_of (unat b)) \<circ> (\<lambda>c. of_nat (of_char c) :: byte)) s = s"
proof -
  have "unat (of_nat (of_char c) :: byte) = of_char c" for c
    by (intro unat_of_nat_less) simp
  then show ?thesis by (simp add: comp_def)
qed

lemma elf_name_at:
  assumes "drop p f = str_bytes name @ r" "length name \<le> 30" "NUL \<notin> set name"
  shows "cstr (map (\<lambda>b. char_of (unat b)) (take 31 (drop p f)) @ [NUL]) = name"
proof -
  obtain k where k: "31 - length name = Suc k"
    using assms(2) by (cases "31 - length name") auto
  have "take 31 (drop p f) = map (\<lambda>c. of_nat (of_char c)) name @ 0 # take k r"
    using assms(2) by (simp add: assms(1) str_bytes_def k)
  then have *: "map (\<lambda>b. char_of (unat b)) (take 31 (drop p f)) @ [NUL] =
      name @ NUL # map (\<lambda>b. char_of (unat b)) (take k r) @ [NUL]"
    using chars_of_bytes [of name] by (simp only: map_append map_map list.map append.simps append_assoc) (simp add: char_of_def)
  have "takeWhile (\<lambda>c. c \<noteq> NUL) (name @ NUL # t) = name" for t
    using assms(3) by (subst takeWhile_append2) auto
  then show ?thesis
    unfolding * cstr_def .
qed

lemma elf_object_split:
  fixes name insns
  defines "S \<equiv> 64 + length insns + length (elf_strings name)"
    and "f \<equiv> elf_object name insns"
  shows "f = elf_ehdr S @ insns @ elf_strings name @ elf_shdr 0 0 0 0 @
      elf_shdr 1 3 (64 + length insns) (length (elf_strings name)) @ elf_shdr 9 1 64 (length insns)"
    "length f = S + 192"
  unfolding f_def S_def elf_object_def Let_def by simp_all

lemma read_elf_sections_object:
  fixes name insns
  defines "S \<equiv> 64 + length insns + length (elf_strings name)"
    and "f \<equiv> elf_object name insns"
  assumes "S < 2 ^ 30" "0 < length insns" "length name \<le> 30" "NUL \<notin> set name"
    and eh: "eh = \<lparr>eh_shoff = of_nat S, eh_shentsize = 64, eh_shnum = 3, eh_shstrndx = Some 1\<rparr>"
  shows "read_elf_section f eh 0 pos = Some (None, S + 40)"
    "read_elf_section f eh 1 pos = Some (None, S + 104)"
    "\<exists>p. read_elf_section f eh 2 pos =
       Some (Some \<lparr>es_name = name, es_offset = 64, es_size = of_nat (length insns)\<rparr>, p)"
proof -
  note split = elf_object_split [of name insns, folded S_def f_def]
  let ?n = "length insns" and ?L = "length (elf_strings name)"
  have bounds: "?n < 2 ^ 30" "?L < 2 ^ 30" using assms(3) by (simp_all add: S_def)
  have b: "(0 :: nat) < 2 ^ 32" "(1 :: nat) < 2 ^ 32" "(3 :: nat) < 2 ^ 32" "(9 :: nat) < 2 ^ 32"
    "(0 :: nat) < 2 ^ 64" "(64 :: nat) < 2 ^ 64" "64 + ?n < 2 ^ 64" "?n < 2 ^ 64" "?L < 2 ^ 64"
    using bounds by simp_all
  have "f = (elf_ehdr S @ insns @ elf_strings name) @ elf_shdr 0 0 0 0 @
      elf_shdr 1 3 (64 + ?n) ?L @ elf_shdr 9 1 64 ?n"
    using split(1) by simp
  note h0 = fread_shdr [OF this refl b(1,1,5,5)]
  have "f = (elf_ehdr S @ insns @ elf_strings name @ elf_shdr 0 0 0 0) @
      elf_shdr 1 3 (64 + ?n) ?L @ elf_shdr 9 1 64 ?n"
    using split(1) by simp
  note h1 = fread_shdr [OF this refl b(2,3,7,9)]
  have "f = (elf_ehdr S @ insns @ elf_strings name @ elf_shdr 0 0 0 0 @ elf_shdr 1 3 (64 + ?n) ?L) @
      elf_shdr 9 1 64 ?n @ []"
    using split(1) by simp
  note h2 = fread_shdr [OF this refl b(4,2,6,8)]
  have len: "length (elf_ehdr S @ insns @ elf_strings name) = S"
    "length (elf_ehdr S @ insns @ elf_strings name @ elf_shdr 0 0 0 0) = S + 64"
    "length (elf_ehdr S @ insns @ elf_strings name @ elf_shdr 0 0 0 0 @ elf_shdr 1 3 (64 + ?n) ?L) = S + 128"
    by (simp_all add: S_def)
  note h0 = h0 [unfolded len] and h1 = h1 [unfolded len, unfolded add.assoc numeral_plus_numeral] and
    h2 = h2 [unfolded len]
  have seek: "fseek_set (of_nat S + of_nat k) q = S + k" if "k < 1000" for k q
    using fseek_set_small [of "S + k" q] that assms(3) by simp
  show "read_elf_section f eh 0 pos = Some (None, S + 40)"
    using h0 h0 [unfolded add.commute [of S]] seek [of 0] by (simp add: read_elf_section_def eh mul_int_def)
  show "read_elf_section f eh 1 pos = Some (None, S + 104)"
    using h1 h1 [unfolded add.commute [of S]] seek [of 64] by (simp add: read_elf_section_def eh mul_int_def)
  have "fseek_set (of_nat (64 + ?n) + of_nat 9) q = 64 + ?n + 9" for q
    using fseek_set_small [of "64 + ?n + 9" q] bounds by simp
  moreover have "drop (64 + ?n + 9) f = str_bytes name @ elf_shdr 0 0 0 0 @
      elf_shdr 1 3 (64 + ?n) ?L @ elf_shdr 9 1 64 ?n"
    unfolding split(1) by (simp add: elf_strings_def str_bytes_def)
  note elf_name_at [OF this assms(5,6)]
  ultimately show "\<exists>p. read_elf_section f eh 2 pos =
       Some (Some \<lparr>es_name = name, es_offset = 64, es_size = of_nat (length insns)\<rparr>, p)"
    using h1(3) h1(3) [unfolded add.commute [of S]] h2 h2 [unfolded add.assoc, simplified]
      h2 [unfolded add.assoc, simplified, unfolded add.commute [of S]] seek [of 128] seek [of 88]
      seek [of 88, unfolded add.commute [of "of_nat S"]] assms(4)
    by (simp add: read_elf_section_def eh mul_int_def Let_def)
qed


lemma opens_newD:
  assumes "opens_new opens f" "sys_call f io = (r, io')"
  shows "r < 0 \<Longrightarrow> opens (io_world io') = opens (io_world io)"
    "0 \<le> r \<Longrightarrow> r \<notin> opens (io_world io) \<and> opens (io_world io') = insert r (opens (io_world io))"
  using assms by (auto simp: opens_new_def sys_call_def split: prod.splits)

lemma io_world_sys_call: "io_world (snd (sys_call f io)) = snd (snd (f (io_world io)))"
  by (simp add: sys_call_def split: prod.splits)

lemma keepsD: "keeps opens f \<Longrightarrow> sys_call f io = (r, io') \<Longrightarrow> opens (io_world io') = opens (io_world io)"
  using io_world_sys_call [of f io] by (simp add: keeps_def)

lemma close_fd_opens:
  "bpf_fds sys opens \<Longrightarrow> opens (io_world (close_fd sys fd io)) = opens (io_world io) - {fd}"
  by (simp add: bpf_fds_def close_fd_def io_world_sys_call)

lemma attach_filter_fds:
  assumes sys: "bpf_fds sys opens" and opens: "opens (io_world io) = insert prog_fd B" "prog_fd \<notin> B"
    and "attach_filter sys ifname prog_fd st io = (r, st', io')"
  shows "r = - 1 \<and> opens (io_world io') = B \<or>
    r = 0 \<and> (\<exists>sock_fd. st' = st\<lparr>bl_socket_fd := sock_fd, bl_use_bpf := 1\<rparr> \<and> 0 \<le> sock_fd \<and>
      sock_fd \<notin> insert prog_fd B \<and> opens (io_world io') = insert sock_fd (insert prog_fd B))"
proof -
  obtain s io1 where 1: "sys_call (bs_socket sys) io = (s, io1)" by force
  obtain r2 io2 where 2: "sys_call (bs_ifreq sys s (take 15 ifname)) io1 = (r2, io2)" by force
  obtain r3 io3 where 3: "sys_call (bs_bind sys s (bs_ifindex sys (io_world io2))) io2 = (r3, io3)" by force
  obtain r4 io4 where 4: "sys_call (bs_attach sys s prog_fd) io3 = (r4, io4)" by force
  have new: "opens_new opens (bs_socket sys)" and k: "\<And>fd n. keeps opens (bs_ifreq sys fd n)"
    "\<And>fd i. keeps opens (bs_bind sys fd i)" "\<And>fd p. keeps opens (bs_attach sys fd p)"
    using sys by (auto simp: bpf_fds_def)
  note o1 = opens_newD [OF new 1] and o2 = keepsD [OF k(1) 2] and o3 = keepsD [OF k(2) 3] and o4 = keepsD [OF k(3) 4]
  note close = close_fd_opens [OF sys]
  show ?thesis
  proof (cases "s < 0")
    case True
    with assms(4) o1(1) opens show ?thesis by (auto simp: attach_filter_def 1 close)
  next
    case False
    then have s: "0 \<le> s" "s \<notin> insert prog_fd B" "opens (io_world io1) = insert s (insert prog_fd B)"
      using o1(2) opens by auto
    consider "r2 < 0" | "\<not> r2 < 0" "r3 < 0" | "\<not> r2 < 0" "\<not> r3 < 0" "r4 < 0" | "\<not> r2 < 0" "\<not> r3 < 0" "\<not> r4 < 0"
      by blast
    then show ?thesis
      by cases (use assms(4) s opens(2) o2 o3 o4 False in \<open>auto simp: attach_filter_def 1 2 3 4 close\<close>)
  qed
qed


lemma bpf_loader_init_cases:
  assumes sys: "bpf_fds sys opens"
    and "bpf_loader_init sys malloc files ifname path io = Some (r, st, io')"
  shows "r = - 1 \<and> opens (io_world io') = opens (io_world io) \<or>
    r = 0 \<and> (\<exists>prog_fd sock_fd. 0 \<le> prog_fd \<and> 0 \<le> sock_fd \<and> prog_fd \<noteq> sock_fd \<and>
      prog_fd \<notin> opens (io_world io) \<and> sock_fd \<notin> opens (io_world io) \<and>
      opens (io_world io') = {prog_fd, sock_fd} \<union> opens (io_world io) \<and>
      st = zero_status\<lparr>bl_socket_fd := sock_fd, bl_perf_map_fd := - 1, bl_bpf_prog_fd := prog_fd, bl_use_bpf := 1\<rparr>)"
proof -
  obtain elf where elf: "parse_bpf_elf malloc files path = Some elf"
    using assms(2) by (cases "parse_bpf_elf malloc files path") (auto simp: bpf_loader_init_def)
  obtain insns n where prog: "(case elf of Some prog \<Rightarrow> (ep_insns prog, ep_insn_cnt prog)
       | None \<Rightarrow> (concat (map sock_filter_bytes embedded_bpf_prog), int (length embedded_bpf_prog))) = (insns, n)"
    by force
  obtain p io1 where 1: "sys_call (bs_prog_load sys insns n) io = (p, io1)" by force
  have new: "opens_new opens (bs_prog_load sys insns n)" using sys by (simp add: bpf_fds_def)
  note o1 = opens_newD [OF new 1]
  define st0 where "st0 = zero_status\<lparr>bl_socket_fd := - 1, bl_bpf_prog_fd := p, bl_perf_map_fd := - 1\<rparr>"
  obtain r2 st2 io2 where 2: "attach_filter sys ifname p st0 io1 = (r2, st2, io2)" by (metis prod_cases3)
  show ?thesis
  proof (cases "p < 0")
    case True
    with assms(2) o1(1) show ?thesis
      by (auto simp: bpf_loader_init_def elf prog 1 Let_def)
  next
    case False
    then have p: "p \<notin> opens (io_world io)" "opens (io_world io1) = insert p (opens (io_world io))"
      using o1(2) by auto
    have res: "bpf_loader_init sys malloc files ifname path io =
      (if r2 < 0 then Some (r2, st2, io2)
       else if 0 \<le> bl_perf_map_fd st2 then
         let (_, st3, io3) = bpf_loader_create_perf_buffer sys st2 io2 in Some (0, st3, io3)
       else Some (0, st2, io2))"
      using False 2 by (simp add: bpf_loader_init_def elf prog 1 st0_def)
    from attach_filter_fds [OF sys p(2,1) 2] show ?thesis
    proof (elim disjE conjE exE)
      fix s assume s: "r2 = 0" "st2 = st0\<lparr>bl_socket_fd := s, bl_use_bpf := 1\<rparr>" "0 \<le> s"
        "s \<notin> insert p (opens (io_world io))" "opens (io_world io2) = insert s (insert p (opens (io_world io)))"
      have "bl_perf_map_fd st2 = - 1" by (simp add: s(2) st0_def)
      then have eq: "r = 0" "st = st2" "io' = io2" using assms(2) s(1) by (simp_all add: res)
      have "st2 = zero_status\<lparr>bl_socket_fd := s, bl_perf_map_fd := - 1, bl_bpf_prog_fd := p, bl_use_bpf := 1\<rparr>"
        by (simp add: s(2) st0_def)
      moreover have "0 \<le> p" "p \<noteq> s" "s \<notin> opens (io_world io)"
        "opens (io_world io2) = {p, s} \<union> opens (io_world io)"
        using False s(4,5) by auto
      ultimately show ?thesis
        using p(1) s(3) unfolding eq by blast
    next
      assume *: "r2 = - 1" "opens (io_world io2) = opens (io_world io)"
      have "Some (r, st, io') = Some (r2, st2, io2)"
        unfolding assms(2) [symmetric] res using *(1) by simp
      with * show ?thesis by simp
    qed
  qed
qed

lemma perf_ring_loop_done: "\<not> tail < head \<Longrightarrow> perf_ring_loop data n head bufsize tail evs = Some (Some (tail, evs))"
  by (subst perf_ring_loop.simps) simp

lemma length_perf_record [simp]: "length (perf_record ty payload) = 12 + length payload"
  by (simp add: perf_record_def)

lemma perf_record_fields:
  assumes "ty < 2 ^ 32" "length payload < 2 ^ 15"
  shows "le_val (take 4 (take 8 (perf_record ty payload))) = ty"
    "le_val (drop 6 (take 8 (perf_record ty payload))) = 12 + length payload"
  using assms by (simp_all add: perf_record_def le_val_bytes)

text \<open>Records that lie between tail and head without wrapping are all read, in order.\<close>

lemma perf_ring_loop_records:
  assumes "\<forall>r \<in> set rs. wf_record r" "data = pre @ ring_records rs @ post"
    and "length data < n" "n < 2 ^ 31" "int (40 * (length evs + length (samples rs))) \<le> bufsize"
  shows "perf_ring_loop data n (of_nat (length pre + length (ring_records rs))) bufsize (of_nat (length pre)) evs =
    Some (Some (of_nat (length pre + length (ring_records rs)), evs @ samples rs))"
  using assms
proof (induction rs arbitrary: pre evs)
  case Nil
  then show ?case by (simp add: perf_ring_loop_done ring_records_def samples_def)
next
  case (Cons r rs)
  obtain ty payload where r: "r = (ty, payload)" by (cases r)
  with Cons.prems(1) have wf: "ty < 2 ^ 32" "length payload < 2 ^ 15" "ty = 9 \<Longrightarrow> 40 \<le> length payload"
    by (auto simp: wf_record_def)
  have data: "data = (pre @ perf_record ty payload) @ ring_records rs @ post"
    using Cons.prems(2) by (simp add: r ring_records_def)
  let ?e = "length pre + length (ring_records (r # rs))"
  have e: "?e = length (pre @ perf_record ty payload) + length (ring_records rs)"
    by (simp add: r ring_records_def)
  have small: "?e < 2 ^ 31" "length pre < n"
    using Cons.prems(2-4) by (auto simp: ring_records_def)
  have unat: "unat (of_nat (length pre) :: u64) = length pre" "unat (of_nat ?e :: u64) = ?e"
    using small by (intro unat_of_nat_less; simp)+
  have less: "(of_nat (length pre) :: u64) < of_nat ?e"
    unfolding word_less_nat_alt unat by (simp add: r ring_records_def)
  obtain eph where eph: "eph = take 8 (perf_record ty payload)" by blast
  have hdr: "rd_bytes data (length pre) 8 = Some eph" "le_val (take 4 eph) = ty" "le_val (drop 6 eph) = 12 + length payload"
    unfolding eph perf_record_fields [OF wf(1,2)] unfolding data by (simp_all add: rd_bytes_def)
  have body: "rd_bytes data (length pre + 12) 40 = Some (take 40 payload)" if "ty = 9"
  proof -
    have "data = (pre @ le_bytes 4 ty @ le_bytes 2 0 @ le_bytes 2 (12 + length payload) @ le_bytes 4 (length payload)) @
        payload @ ring_records rs @ post"
      unfolding data by (simp add: perf_record_def)
    then show ?thesis using wf(3) [OF that] by (simp only:) (subst rd_bytes_append; simp)
  qed
  let ?evs = "evs @ samples [r]"
  have "samples (r # rs) = samples [r] @ samples rs" by (simp add: samples_def)
  then have ev: "evs @ samples (r # rs) = ?evs @ samples rs" by simp
  have "length (samples [r]) = (if ty = 9 then 1 else 0)" by (simp add: samples_def r)
  with Cons.prems(5) have room: "ty = 9 \<Longrightarrow> int (40 * length evs + 40) \<le> bufsize"
    "int (40 * (length ?evs + length (samples rs))) \<le> bufsize"
    by (auto simp: samples_def r)
  obtain H T where H: "H = (of_nat ?e :: u64)" and T: "T = (of_nat (length pre) :: u64)" by blast
  have TH: "T < H" "unat T mod n = length pre" using less small(2) by (simp_all add: H T unat)
  have "perf_ring_loop data n H bufsize T evs =
      perf_ring_loop data n H bufsize (T + of_nat (12 + length payload)) ?evs"
  proof (cases "ty = 9")
    case True
    then show ?thesis
      using TH hdr body [OF True] room(1) [OF True]
      by (subst perf_ring_loop.simps) (simp add: samples_def r Let_def del: of_nat_add of_nat_mult)
  next
    case False
    then show ?thesis
      using TH hdr by (subst perf_ring_loop.simps) (simp add: samples_def r Let_def)
  qed
  then have "perf_ring_loop data n (of_nat ?e) bufsize (of_nat (length pre)) evs =
      perf_ring_loop data n (of_nat ?e) bufsize (of_nat (length pre) + of_nat (12 + length payload)) ?evs"
    unfolding H T .
  also have "\<dots> = perf_ring_loop data n (of_nat (length (pre @ perf_record ty payload) + length (ring_records rs))) bufsize
      (of_nat (length (pre @ perf_record ty payload))) ?evs"
    unfolding e by (simp add: add.assoc)
  also have "\<dots> = Some (Some (of_nat (length (pre @ perf_record ty payload) + length (ring_records rs)), ?evs @ samples rs))"
    using Cons.prems(1,3,4) data room(2) by (intro Cons.IH) auto
  finally show ?case unfolding e ev .
qed

lemma perf_ring_loop_not_stuck:
  assumes "perf_ring_loop data n head bufsize tail evs = Some y"
  shows "tail < head \<longrightarrow> \<not> stuck_record data n tail"
proof (rule perf_ring_loop.raw_induct [OF _ assms])
  fix f :: "byte list \<Rightarrow> nat \<Rightarrow> u64 \<Rightarrow> int \<Rightarrow> u64 \<Rightarrow> byte list list \<Rightarrow> (u64 \<times> byte list list) ub option"
    and data n head bufsize tail evs y
  assume IH: "\<And>data n head bufsize tail evs y. f data n head bufsize tail evs = Some y \<Longrightarrow>
      tail < head \<longrightarrow> \<not> stuck_record data n tail"
    and step: "(if tail < head then
        (let pos = unat tail mod n in
         case rd_bytes data pos 8 of
           None \<Rightarrow> Some None
         | Some eph \<Rightarrow>
             (case (if le_val (take 4 eph) = PERF_RECORD_SAMPLE \<and>
                       int (event_size * length evs + event_size) \<le> bufsize
                    then map_option (\<lambda>d. evs @ [d]) (rd_bytes data (pos + 12) event_size)
                    else Some evs) of
                None \<Rightarrow> Some None
              | Some evs1 \<Rightarrow> f data n head bufsize (tail + of_nat (le_val (drop 6 eph))) evs1))
      else Some (Some (tail, evs))) = Some y"
  show "tail < head \<longrightarrow> \<not> stuck_record data n tail"
  proof (intro impI notI)
    assume "tail < head" "stuck_record data n tail"
    then have "f data n head bufsize tail evs = Some y"
      using step by (auto simp: stuck_record_def Let_def)
    with IH \<open>tail < head\<close> \<open>stuck_record data n tail\<close> show False by blast
  qed
qed

lemma perf_ring_loop_stuck:
  "tail < head \<Longrightarrow> stuck_record data n tail \<Longrightarrow> perf_ring_loop data n head bufsize tail evs = None"
  using perf_ring_loop_not_stuck by (metis option.exhaust)


lemma cleanup_after_init:
  assumes "bpf_fds sys opens" "prog_fd \<noteq> sock_fd" "0 \<le> prog_fd" "0 \<le> sock_fd"
    and "st = zero_status\<lparr>bl_socket_fd := sock_fd, bl_perf_map_fd := - 1, bl_bpf_prog_fd := prog_fd, bl_use_bpf := 1\<rparr>"
    and "opens (io_world io) = {prog_fd, sock_fd} \<union> B" "prog_fd \<notin> B" "sock_fd \<notin> B"
  shows "opens (io_world (snd (bpf_loader_cleanup sys (Some st) io))) = B"
  using assms(2-8)
  by (auto simp: bpf_loader_cleanup_def zero_status_def close_fd_opens [OF assms(1)])

lemma max_fd_new:
  fixes w :: "int list"
  shows "Max (insert 0 (set w)) + 1 \<notin> set w" "\<not> Max (insert 0 (set w)) + 1 < 0"
proof -
  show "Max (insert 0 (set w)) + 1 \<notin> set w"
    using Max_ge [of "insert 0 (set w)" "Max (insert 0 (set w)) + 1"] by auto
  have "0 \<le> Max (insert 0 (set w))" by simp
  then show "\<not> Max (insert 0 (set w)) + 1 < 0" by linarith
qed

lemma ex_open_new: "opens_new set ex_open"
  using max_fd_new by (simp add: opens_new_def ex_open_def Let_def)

section \<open>Properties\<close>

text \<open>
  C30: Descriptors of the loader.  A failed initialisation returns -1 and leaves exactly the
  descriptors open that were open before, at whichever of its five steps it failed.  A successful
  one has opened the program and the socket and nothing else, and clean-up closes both.  The perf
  map is never set up: its descriptor is -1 and no CPU has a ring.
\<close>

theorem init_cleanup_balanced:
  assumes "bpf_fds sys opens"
    and "bpf_loader_init sys malloc files ifname path io = Some (r, st, io')"
  shows "r = - 1 \<and> opens (io_world io') = opens (io_world io) \<or>
    r = 0 \<and> bl_use_bpf st = 1 \<and> bl_perf_map_fd st = - 1 \<and> bl_nr_cpus st = 0 \<and>
      opens (io_world io') = {bl_bpf_prog_fd st, bl_socket_fd st} \<union> opens (io_world io) \<and>
      opens (io_world (snd (bpf_loader_cleanup sys (Some st) io'))) = opens (io_world io)"
  using bpf_loader_init_cases [OF assms]
proof (elim disjE conjE exE)
  fix prog_fd sock_fd
  assume r: "r = 0" and pos: "0 \<le> prog_fd" "0 \<le> sock_fd" "prog_fd \<noteq> sock_fd"
    and new: "prog_fd \<notin> opens (io_world io)" "sock_fd \<notin> opens (io_world io)"
    and o: "opens (io_world io') = {prog_fd, sock_fd} \<union> opens (io_world io)"
    and st: "st = zero_status\<lparr>bl_socket_fd := sock_fd, bl_perf_map_fd := - 1, bl_bpf_prog_fd := prog_fd, bl_use_bpf := 1\<rparr>"
  have "opens (io_world (snd (bpf_loader_cleanup sys (Some st) io'))) = opens (io_world io)"
    by (rule cleanup_after_init [OF assms(1) pos(3,1,2) st o new])
  moreover have "bl_bpf_prog_fd st = prog_fd" "bl_socket_fd st = sock_fd" "bl_use_bpf st = 1"
    "bl_perf_map_fd st = - 1" "bl_nr_cpus st = 0"
    by (simp_all add: st zero_status_def)
  ultimately show ?thesis using r o by simp
qed simp

theorem init_cleanup_balanced_witness:
  "\<exists>st io'. bpf_loader_init ex_bpf_sys (\<lambda>_. True) Map.empty ''eth0'' ''a.o'' \<lparr>io_errno = 0, io_world = [1]\<rparr> =
     Some (0, st, io') \<and> set (io_world (snd (bpf_loader_cleanup ex_bpf_sys (Some st) io'))) = {1}"
proof -
  have sys: "bpf_fds ex_bpf_sys set"
    using ex_open_new by (auto simp: bpf_fds_def keeps_def ex_bpf_sys_def)
  obtain st io' where init: "bpf_loader_init ex_bpf_sys (\<lambda>_. True) Map.empty ''eth0'' ''a.o''
      \<lparr>io_errno = 0, io_world = [1]\<rparr> = Some (0, st, io')"
    by (simp add: bpf_loader_init_def parse_bpf_elf_def attach_filter_def sys_call_def ex_bpf_sys_def
        ex_open_def zero_status_def Let_def)
  from init_cleanup_balanced [OF sys init] have
    "set (io_world (snd (bpf_loader_cleanup ex_bpf_sys (Some st) io'))) = {1}" by simp
  with init show ?thesis by blast
qed

text \<open>
  C31: Round trip for object files: from an ELF64 object with a null section, a string table and
  one program section whose name contains "text" or "socket", the reader extracts exactly the
  instructions of that section and their number.
\<close>

theorem elf_object_roundtrip:
  assumes "files path = Some (elf_object name insns)" "malloc (length insns)"
    and "8 \<le> length insns" "length insns < 2 ^ 29" "length name \<le> 30" "NUL \<notin> set name"
    and "is_program_section name"
  shows "parse_bpf_elf malloc files path =
    Some (Some \<lparr>ep_insns = insns, ep_insn_cnt = int (length insns div 8)\<rparr>)"
proof -
  define f where "f = elf_object name insns"
  define S where "S = 64 + length insns + length (elf_strings name)"
  obtain eh where eh: "eh = \<lparr>eh_shoff = of_nat S, eh_shentsize = 64, eh_shnum = 3, eh_shstrndx = Some 1\<rparr>"
    by blast
  have S: "S < 2 ^ 30" "0 < length insns" using assms(3-5) by (auto simp: S_def)
  note sec = read_elf_sections_object [of insns name, folded S_def f_def, OF S assms(5,6) eh]
  note split = elf_object_split [of name insns, folded S_def f_def]
  have ident: "elf_ident_ok f"
    unfolding elf_ident_ok_def split(1) by (simp add: elf_ehdr_def)
  have hdr: "read_elf_header f = Some (eh, 64)"
    unfolding eh using split(1) S by (intro read_elf_header_object) auto
  have n: "unat (of_nat (length insns) :: u64) = length insns" "unat (ucast (of_nat (length insns) :: u64) :: u32) = length insns"
    using assms(4) by (simp_all add: unsigned_ucast_eq unsigned_of_nat take_bit_nat_eq_self)
  have "take (length insns) (drop (fseek_set 64 p) f) = insns" for p
    using fseek_set_small [of 64 p] unfolding split(1) by simp
  then have load: "load_elf_program malloc f \<lparr>es_name = name, es_offset = 64, es_size = of_nat (length insns)\<rparr> p =
      Some (Some \<lparr>ep_insns = insns, ep_insn_cnt = int (length insns div 8)\<rparr>)" for p
    using assms(2,3) by (simp add: load_elf_program_def n)
  have "[0..<eh_shnum eh] = [0, 1, 2]" by (simp add: eh upt_rec)
  moreover obtain p where "read_elf_section f eh 2 (S + 104) =
      Some (Some \<lparr>es_name = name, es_offset = 64, es_size = of_nat (length insns)\<rparr>, p)"
    using sec(3) by blast
  ultimately show ?thesis
    using assms(1,7) ident hdr sec(1,2) load
    by (simp add: parse_bpf_elf_def f_def [symmetric] del: One_nat_def)
qed

theorem elf_object_roundtrip_witness:
  "parse_bpf_elf (\<lambda>_. True) [''f.o'' \<mapsto> elf_object ''socket'' (replicate 16 7)] ''f.o'' =
     Some (Some \<lparr>ep_insns = replicate 16 7, ep_insn_cnt = 2\<rparr>)"
  using elf_object_roundtrip [of "[''f.o'' \<mapsto> elf_object ''socket'' (replicate 16 7)]" "''f.o''" "''socket''"
      "replicate 16 7" "\<lambda>_. True"]
  by (simp add: is_program_section_def)

text \<open>
  Reading one perf ring: records between tail and head that do not wrap around the end of the
  ring are all consumed, the loop returns, and the events of the samples are copied in order.
\<close>

theorem perf_ring_read:
  assumes "\<forall>r \<in> set rs. wf_record r" "data = pre @ ring_records rs @ post"
    and "length data < n" "n < 2 ^ 31" "int (40 * length (samples rs)) \<le> bufsize"
  shows "perf_ring_loop data n (of_nat (length pre + length (ring_records rs))) bufsize (of_nat (length pre)) [] =
    Some (Some (of_nat (length pre + length (ring_records rs)), samples rs))"
  using perf_ring_loop_records [OF assms(1-4), of "[]"] assms(5) by simp

theorem perf_ring_read_witness:
  "perf_ring_loop (ring_records [(2, []), (9, replicate 41 5)]) 4096 65 32768 0 [] =
     Some (Some (65, [replicate 40 5]))"
  using perf_ring_read [OF _ append_Nil [symmetric], of "[(2, []), (9, replicate 41 5)]" "[]" 4096 32768]
  by (simp add: wf_record_def samples_def ring_records_def)

end
