(* ===== verification/Bpf_Kernel.thy ===== *)
theory Bpf_Kernel
  imports Stb_Common "HOL-Library.AList"
begin

text \<open>
  What the kernel programs under \<open>bpf/\<close> share: the byte-order macros of \<open>bpf_endian.h\<close> and
  \<open>vmlinux_legacy.h\<close>, the event record of \<open>common.h\<close>, the kernel's helper functions (parameters,
  collected in a record) and its hash maps.  The programs run on a little-endian machine.

  A hash map is an association list with a limit on its entries.  The locale \<open>start_map\<close> is what
  the latency tracers rely on: a start time stored for a key is found again, whatever the other
  keys do, until it is deleted.
\<close>

section \<open>Byte order\<close>

text \<open>
  \<open>___bpf_mvb(x, b, n, m)\<close> moves byte \<open>n\<close> to byte \<open>m\<close>.  For 16 bits the operand is promoted to
  \<open>int\<close>, so that the shift to the left drops no bit; only the cast of the whole does.
\<close>

definition bpf_mvb16 :: "u16 \<Rightarrow> nat \<Rightarrow> nat \<Rightarrow> u32" where
  "bpf_mvb16 x n m = push_bit (m * 8) (drop_bit 8 (push_bit (16 - (n + 1) * 8) (ucast x)))"

definition bpf_swab16 :: "u16 \<Rightarrow> u16" where
  "bpf_swab16 x = ucast (bpf_mvb16 x 0 1 OR bpf_mvb16 x 1 0)"

definition bpf_mvb32 :: "u32 \<Rightarrow> nat \<Rightarrow> nat \<Rightarrow> u32" where
  "bpf_mvb32 x n m = push_bit (m * 8) (drop_bit 24 (push_bit (32 - (n + 1) * 8) x))"

definition bpf_swab32 :: "u32 \<Rightarrow> u32" where
  "bpf_swab32 x = bpf_mvb32 x 0 3 OR bpf_mvb32 x 1 2 OR bpf_mvb32 x 2 1 OR bpf_mvb32 x 3 0"

definition bpf_mvb64 :: "u64 \<Rightarrow> nat \<Rightarrow> nat \<Rightarrow> u64" where
  "bpf_mvb64 x n m = push_bit (m * 8) (drop_bit 56 (push_bit (64 - (n + 1) * 8) x))"

definition bpf_swab64 :: "u64 \<Rightarrow> u64" where
  "bpf_swab64 x =
     bpf_mvb64 x 0 7 OR bpf_mvb64 x 1 6 OR bpf_mvb64 x 2 5 OR bpf_mvb64 x 3 4 OR
     bpf_mvb64 x 4 3 OR bpf_mvb64 x 5 2 OR bpf_mvb64 x 6 1 OR bpf_mvb64 x 7 0"

text \<open>The byte swap instruction, to which \<open>bpf_ntohs\<close> of a run-time value compiles.\<close>

definition bpf_ntohs :: "u16 \<Rightarrow> u16" where
  "bpf_ntohs x = ntohs x"

definition bpf_htons :: "u16 \<Rightarrow> u16" where
  "bpf_htons x = bpf_swab16 x"

text \<open>The functions of \<open>vmlinux_legacy.h\<close>.\<close>

definition legacy_htons :: "u16 \<Rightarrow> u16" where
  "legacy_htons h = ucast (push_bit 8 (ucast h AND 0x00FF) OR drop_bit 8 (ucast h AND 0xFF00) :: u32)"

definition legacy_ntohs :: "u16 \<Rightarrow> u16" where
  "legacy_ntohs n = legacy_htons n"

definition legacy_htonl :: "u32 \<Rightarrow> u32" where
  "legacy_htonl h =
     push_bit 24 (h AND 0x000000FF) OR push_bit 8 (h AND 0x0000FF00) OR
     drop_bit 8 (h AND 0x00FF0000) OR drop_bit 24 (h AND 0xFF000000)"

definition legacy_ntohl :: "u32 \<Rightarrow> u32" where
  "legacy_ntohl n = legacy_htonl n"

section \<open>Events\<close>

definition TASK_COMM_LEN :: nat where [simp]: "TASK_COMM_LEN = 16"
definition DATA_LEN :: nat where [simp]: "DATA_LEN = 256"

definition EVENT_TYPE_HTTP :: u32 where [simp]: "EVENT_TYPE_HTTP = 2"
definition EVENT_TYPE_DNS :: u32 where [simp]: "EVENT_TYPE_DNS = 3"
definition EVENT_TYPE_EXEC :: u32 where [simp]: "EVENT_TYPE_EXEC = 4"
definition EVENT_TYPE_EXIT :: u32 where [simp]: "EVENT_TYPE_EXIT = 5"
definition EVENT_TYPE_FILE_OPEN :: u32 where [simp]: "EVENT_TYPE_FILE_OPEN = 6"
definition EVENT_TYPE_TCP_CONNECT :: u32 where [simp]: "EVENT_TYPE_TCP_CONNECT = 7"
definition EVENT_TYPE_SYSCALL :: u32 where [simp]: "EVENT_TYPE_SYSCALL = 8"
definition EVENT_TYPE_MAX :: u32 where [simp]: "EVENT_TYPE_MAX = 10"
definition EVENT_TYPE_SCHED_SWITCH :: u32 where [simp]: "EVENT_TYPE_SCHED_SWITCH = 12"
definition EVENT_TYPE_MYSQL :: u32 where [simp]: "EVENT_TYPE_MYSQL = 10"
definition EVENT_TYPE_REDIS :: u32 where [simp]: "EVENT_TYPE_REDIS = 11"

record event =
  ev_timestamp_ns :: u64
  ev_type :: u32
  ev_pid :: u32
  ev_ppid :: u32
  ev_src_ip :: u32
  ev_dst_ip :: u32
  ev_src_port :: u16
  ev_dst_port :: u16
  ev_protocol :: u8
  ev_bytes :: u64
  ev_packets :: u64
  ev_latency_ns :: u64
  ev_count :: u64
  ev_comm :: cbuf
  ev_data :: cbuf

definition zero_event :: event where
  "zero_event = \<lparr>ev_timestamp_ns = 0, ev_type = 0, ev_pid = 0, ev_ppid = 0, ev_src_ip = 0,
     ev_dst_ip = 0, ev_src_port = 0, ev_dst_port = 0, ev_protocol = 0, ev_bytes = 0, ev_packets = 0,
     ev_latency_ns = 0, ev_count = 0, ev_comm = zbuf TASK_COMM_LEN, ev_data = zbuf DATA_LEN\<rparr>"

section \<open>Helpers\<close>

text \<open>
  One invocation of a program: the results of successive calls of \<open>bpf_ktime_get_ns\<close>, the task,
  and the memory readers, which return the new contents of the destination (\<open>bc_read_user\<close> also
  whether it succeeded).
\<close>

record bpf_ctx =
  bc_ktime :: "nat \<Rightarrow> u64"
  bc_pid_tgid :: u64
  bc_uid_gid :: u64
  bc_comm :: cbuf
  bc_read_user :: "u64 \<Rightarrow> nat \<Rightarrow> byte list option"
  bc_read_user_buf :: "u64 \<Rightarrow> nat \<Rightarrow> cbuf \<Rightarrow> cbuf"
  bc_read_user_str :: "u64 \<Rightarrow> nat \<Rightarrow> cbuf \<Rightarrow> cbuf"
  bc_read_kernel_str :: "u64 \<Rightarrow> nat \<Rightarrow> cbuf \<Rightarrow> cbuf"

definition bc_pid :: "bpf_ctx \<Rightarrow> u32" where
  "bc_pid c = ucast (drop_bit 32 (bc_pid_tgid c))"

text \<open>An invocation at time \<open>t\<close> in thread \<open>k\<close>, with \<open>m\<close> in user memory.\<close>

definition ex_bpf_ctx :: "u64 \<Rightarrow> u64 \<Rightarrow> byte list \<Rightarrow> bpf_ctx" where
  "ex_bpf_ctx k t m = \<lparr>bc_ktime = (\<lambda>_. t), bc_pid_tgid = k, bc_uid_gid = 1000, bc_comm = zbuf 16,
     bc_read_user = (\<lambda>a n. if unat a + n \<le> length m then Some (take n (drop (unat a) m)) else None),
     bc_read_user_buf = (\<lambda>_ _ d. d), bc_read_user_str = (\<lambda>_ _ d. d), bc_read_kernel_str = (\<lambda>_ _ d. d)\<rparr>"

section \<open>Hash maps\<close>

type_synonym bpf_hash = "(u64 \<times> u64) list"

definition bpf_map_lookup_elem :: "bpf_hash \<Rightarrow> u64 \<Rightarrow> u64 option" where
  "bpf_map_lookup_elem m k = map_of m k"

definition bpf_map_update_elem :: "nat \<Rightarrow> u64 \<Rightarrow> u64 \<Rightarrow> bpf_hash \<Rightarrow> bpf_hash" where
  "bpf_map_update_elem max_entries k v m =
     (if map_of m k \<noteq> None \<or> length m < max_entries then AList.update k v m else m)"

definition bpf_map_delete_elem :: "u64 \<Rightarrow> bpf_hash \<Rightarrow> bpf_hash" where
  "bpf_map_delete_elem k m = AList.delete k m"

definition hash_inv :: "nat \<Rightarrow> bpf_hash \<Rightarrow> bool" where
  "hash_inv max_entries m \<longleftrightarrow> distinct (map fst m) \<and> length m \<le> max_entries"

text \<open>The three things a handler can do to a map of start times.\<close>

datatype hash_op = Put u64 u64 | Del u64 | Keep

fun op_key :: "hash_op \<Rightarrow> u64 option" where
  "op_key (Put k v) = Some k"
| "op_key (Del k) = Some k"
| "op_key Keep = None"

section \<open>The interface of the latency tracers\<close>

locale start_map =
  fixes lookup :: "'m \<Rightarrow> u64 \<Rightarrow> u64 option"
    and put :: "u64 \<Rightarrow> u64 \<Rightarrow> 'm \<Rightarrow> 'm"
    and del :: "u64 \<Rightarrow> 'm \<Rightarrow> 'm"
    and room :: "'m \<Rightarrow> bool"
    and inv :: "'m \<Rightarrow> bool"
  assumes put_same: "room m \<or> lookup m k \<noteq> None \<Longrightarrow> lookup (put k v m) k = Some v"
    and put_other: "k' \<noteq> k \<Longrightarrow> lookup (put k v m) k' = lookup m k'"
    and del_same: "inv m \<Longrightarrow> lookup (del k m) k = None"
    and del_other: "k' \<noteq> k \<Longrightarrow> lookup (del k m) k' = lookup m k'"
    and put_inv: "inv m \<Longrightarrow> inv (put k v m)"
    and del_inv: "inv m \<Longrightarrow> inv (del k m)"
begin

definition apply_op :: "hash_op \<Rightarrow> 'm \<Rightarrow> 'm" where
  "apply_op oper m = (case oper of Put k v \<Rightarrow> put k v m | Del k \<Rightarrow> del k m | Keep \<Rightarrow> m)"

lemma apply_op_inv: "inv m \<Longrightarrow> inv (apply_op oper m)"
  by (cases oper) (auto simp: apply_op_def put_inv del_inv)

lemma apply_op_other: "op_key oper \<noteq> Some k \<Longrightarrow> lookup (apply_op oper m) k = lookup m k"
  by (cases oper) (auto simp: apply_op_def put_other del_other)

lemma run_inv: "inv m \<Longrightarrow> inv (fold apply_op ops m)"
  by (induction ops arbitrary: m) (auto simp: apply_op_inv)

lemma run_other: "\<forall>oper \<in> set ops. op_key oper \<noteq> Some k \<Longrightarrow> lookup (fold apply_op ops m) k = lookup m k"
  by (induction ops arbitrary: m) (auto simp: apply_op_other)

text \<open>A start time survives everything that is done for other keys.\<close>

lemma start_found:
  assumes "room m \<or> lookup m k \<noteq> None" "\<forall>oper \<in> set ops. op_key oper \<noteq> Some k"
  shows "lookup (fold apply_op ops (put k t m)) k = Some t"
  using assms by (simp add: run_other put_same)

end

section \<open>Lemmas\<close>

lemma bpf_map_update_inv: "hash_inv n m \<Longrightarrow> hash_inv n (bpf_map_update_elem n k v m)"
proof -
  assume inv: "hash_inv n m"
  have "length (AList.update k v m) = (if map_of m k = None then length m + 1 else length m)"
    by (induction m) auto
  then show ?thesis
    using inv by (auto simp: hash_inv_def bpf_map_update_elem_def distinct_update)
qed

lemma bpf_map_delete_inv: "hash_inv n m \<Longrightarrow> hash_inv n (bpf_map_delete_elem k m)"
  unfolding hash_inv_def bpf_map_delete_elem_def
  using length_delete_le [of k m] by (auto simp: distinct_delete)

interpretation bpf_start: start_map bpf_map_lookup_elem "bpf_map_update_elem n" bpf_map_delete_elem
  "\<lambda>m. length m < n" "hash_inv n" for n
proof unfold_locales
  fix m k v
  assume "hash_inv n m"
  then show "hash_inv n (bpf_map_update_elem n k v m)" "hash_inv n (bpf_map_delete_elem k m)"
    by (rule bpf_map_update_inv, rule bpf_map_delete_inv)
qed (auto simp: bpf_map_lookup_elem_def bpf_map_update_elem_def bpf_map_delete_elem_def
    AList.update_conv' delete_conv')

text \<open>All the byte swaps agree with the prelude's \<open>ntohs\<close>, respectively with each other.\<close>

lemma bpf_swab16_ntohs [endian_simps]: "bpf_swab16 x = ntohs x"
proof (rule bit_word_eqI)
  fix n assume "n < LENGTH(16)"
  then consider "n < 8" | "8 \<le> n" "n < 16" by fastforce
  then show "bit (bpf_swab16 x) n = bit (ntohs x) n"
    by cases (auto simp: bpf_swab16_def bpf_mvb16_def ntohs_def bit_simps)
qed

lemma bit_0xFF: "bit (0xFF :: 'a::len word) n \<longleftrightarrow> n < 8 \<and> n < LENGTH('a)"
  using bit_mask_iff [of 8 n, where 'a = "'a word"] by (auto simp: mask_numeral)

lemma bit_0xFF00: "bit (0xFF00 :: 'a::len word) m \<longleftrightarrow> 8 \<le> m \<and> m < 16 \<and> m < LENGTH('a)"
proof -
  have "bit (0xFF00 :: 'a word) m = bit (push_bit 8 (0xFF :: 'a word)) m" by simp
  then show ?thesis
    by (simp only: bit_push_bit_iff bit_0xFF possible_bit_word) auto
qed

lemma legacy_htons_ntohs [endian_simps]: "legacy_htons x = ntohs x"
proof (rule bit_word_eqI)
  fix n assume "n < LENGTH(16)"
  then show "bit (legacy_htons x) n = bit (ntohs x) n"
    by (simp only: legacy_htons_def ntohs_def bit_unsigned_iff bit_or_iff bit_push_bit_iff bit_drop_bit_eq
        comp_def bit_and_iff bit_0xFF bit_0xFF00 possible_bit_word) (auto dest: bit_imp_le_length)
qed

lemma bit_0xFF0000: "bit (0xFF0000 :: u32) m \<longleftrightarrow> 16 \<le> m \<and> m < 24"
proof -
  have "bit (0xFF0000 :: u32) m = bit (push_bit 16 (0xFF :: u32)) m" by simp
  then show ?thesis
    by (simp only: bit_push_bit_iff bit_0xFF possible_bit_word) auto
qed

lemma bit_0xFF000000: "bit (0xFF000000 :: u32) m \<longleftrightarrow> 24 \<le> m \<and> m < 32"
proof -
  have "bit (0xFF000000 :: u32) m = bit (push_bit 24 (0xFF :: u32)) m" by simp
  then show ?thesis
    by (simp only: bit_push_bit_iff bit_0xFF possible_bit_word) auto
qed

lemma legacy_htonl_swab32 [endian_simps]: "legacy_htonl x = bpf_swab32 x"
proof (rule bit_word_eqI)
  fix n assume "n < LENGTH(32)"
  then consider "n < 8" | "8 \<le> n" "n < 16" | "16 \<le> n" "n < 24" | "24 \<le> n" "n < 32" by fastforce
  then show "bit (legacy_htonl x) n = bit (bpf_swab32 x) n"
    by cases (simp_all only: legacy_htonl_def bpf_swab32_def bpf_mvb32_def bit_or_iff bit_push_bit_iff bit_drop_bit_eq
        comp_def bit_and_iff bit_0xFF bit_0xFF00 bit_0xFF0000 bit_0xFF000000 possible_bit_word,
        (auto dest: bit_imp_le_length)+)
qed

lemma bpf_swab32_swab32 [simp]: "bpf_swab32 (bpf_swab32 x) = x"
proof (rule bit_word_eqI)
  fix n assume "n < LENGTH(32)"
  then consider "n < 8" | "8 \<le> n" "n < 16" | "16 \<le> n" "n < 24" | "24 \<le> n" "n < 32" by fastforce
  then show "bit (bpf_swab32 (bpf_swab32 x)) n = bit x n"
    by cases (auto simp: bpf_swab32_def bpf_mvb32_def bit_or_iff bit_push_bit_iff bit_drop_bit_eq
        possible_bit_word dest: bit_imp_le_length)
qed

end
