(* ===== verification/Connect_Tracer.thy ===== *)
theory Connect_Tracer
  imports Bpf_Kernel Table_Interfaces
begin

text \<open>
  \<open>bpf/stb_connect.bpf.c\<close>: the tracepoints at entry and exit of \<open>connect()\<close>.  The state is the map
  \<open>connect_start\<close> of start times, keyed by process and thread, and the events sent to user space.
  The structure \<open>connect_event_t\<close> and the two event type constants are not declared in the
  repository; the record here has the fields that are assigned, with the types of the values.
\<close>

section \<open>Data\<close>

definition AF_INET :: u16 where [simp]: "AF_INET = 2"
definition AF_INET6 :: u16 where [simp]: "AF_INET6 = 10"

text \<open>\<open>struct sockaddr_in\<close> of \<open>vmlinux_legacy.h\<close>, read from 16 bytes of user memory.\<close>

record sockaddr_in =
  sin_family :: u16
  sin_port :: u16
  sin_addr :: u32

definition sockaddr_in_of :: "byte list \<Rightarrow> sockaddr_in" where
  "sockaddr_in_of b = \<lparr>sin_family = ld16 b 0, sin_port = ld16 b 2, sin_addr = ld32 b 4\<rparr>"

datatype connect_event_type = EVENT_CONNECT_ENTER | EVENT_CONNECT_EXIT

record connect_event_t =
  ce_timestamp_ns :: u64
  ce_pid :: u32
  ce_uid :: u32
  ce_saddr :: u32
  ce_daddr :: u32
  ce_sport :: u16
  ce_dport :: u16
  ce_family :: u16
  ce_protocol :: u8
  ce_event_type :: connect_event_type
  ce_retval :: int
  ce_latency_us :: u64
  ce_comm :: cbuf

text \<open>The arguments of the two tracepoints; on the BPF machine \<open>long\<close> has 64 bits, \<open>int\<close> 32.\<close>

record sys_enter_connect_args =
  en_fd :: u64
  en_addr :: u64
  en_addrlen :: u64

record sys_exit_connect_args =
  ex_ret :: u64

record connect_state =
  cs_start :: bpf_hash
  cs_events :: "connect_event_t list"

definition CONNECT_START_MAX :: nat where "CONNECT_START_MAX = 1024"

section \<open>Operations\<close>

text \<open>The cast \<open>(int)\<close> of a \<open>long\<close>, and the conversion of an \<open>int\<close> that is compared with a \<open>sizeof\<close>.\<close>

definition as_int :: "u64 \<Rightarrow> int" where
  "as_int x = sint (ucast x :: u32)"

definition as_size :: "int \<Rightarrow> nat" where
  "as_size i = nat (i mod 2 ^ 64)"

definition get_pid_tgid :: "bpf_ctx \<Rightarrow> u64" where
  "get_pid_tgid c = bc_pid_tgid c"

definition get_uid_gid :: "bpf_ctx \<Rightarrow> u64" where
  "get_uid_gid c = bc_uid_gid c"

text \<open>\<open>None\<close> is the return value -1, otherwise family, address and port.\<close>

definition read_sockaddr_in :: "bpf_ctx \<Rightarrow> u64 \<Rightarrow> int \<Rightarrow> (u16 \<times> u32 \<times> u16) option" where
  "read_sockaddr_in c user_addr addr_len =
     (case bc_read_user c user_addr 2 of
        None \<Rightarrow> None
      | Some fb \<Rightarrow>
          (let fam = ld16 fb 0 in
           if fam = AF_INET \<and> 16 \<le> as_size addr_len then
             (case bc_read_user c user_addr 16 of
                None \<Rightarrow> None
              | Some b \<Rightarrow> let addr = sockaddr_in_of b in Some (fam, sin_addr addr, ntohs (sin_port addr)))
           else if fam = AF_INET6 then Some (fam, 0, 0)
           else None))"

definition submit_event :: "connect_event_t \<Rightarrow> connect_state \<Rightarrow> connect_state" where
  "submit_event e s = s\<lparr>cs_events := cs_events s @ [e]\<rparr>"

definition sys_enter_connect :: "bpf_ctx \<Rightarrow> sys_enter_connect_args \<Rightarrow> connect_state \<Rightarrow> connect_state" where
  "sys_enter_connect c args s =
     (let pid_tgid = get_pid_tgid c; timestamp_ns = bc_ktime c 0; addr_len = as_int (en_addrlen args) in
      if as_size addr_len < 2 then s
      else case read_sockaddr_in c (en_addr args) addr_len of
        None \<Rightarrow> s
      | Some (family, daddr, dport) \<Rightarrow>
          (if family \<noteq> AF_INET then s
           else submit_event
             \<lparr>ce_timestamp_ns = timestamp_ns, ce_pid = ucast (drop_bit 32 pid_tgid),
              ce_uid = ucast (get_uid_gid c AND 0xFFFFFFFF), ce_saddr = 0, ce_daddr = daddr, ce_sport = 0,
              ce_dport = dport, ce_family = family, ce_protocol = IPPROTO_TCP,
              ce_event_type = EVENT_CONNECT_ENTER, ce_retval = 0, ce_latency_us = 0, ce_comm = bc_comm c\<rparr>
             (s\<lparr>cs_start := bpf_map_update_elem CONNECT_START_MAX pid_tgid timestamp_ns (cs_start s)\<rparr>)))"

definition sys_exit_connect :: "bpf_ctx \<Rightarrow> sys_exit_connect_args \<Rightarrow> connect_state \<Rightarrow> connect_state" where
  "sys_exit_connect c args s =
     (let pid_tgid = get_pid_tgid c; timestamp_ns = bc_ktime c 0;
          (latency_us, start) =
            (case bpf_map_lookup_elem (cs_start s) pid_tgid of
               None \<Rightarrow> (0, cs_start s)
             | Some start_ts \<Rightarrow> ((timestamp_ns - start_ts) div 1000, bpf_map_delete_elem pid_tgid (cs_start s)))
      in submit_event
           \<lparr>ce_timestamp_ns = timestamp_ns, ce_pid = ucast (drop_bit 32 pid_tgid),
            ce_uid = ucast (get_uid_gid c AND 0xFFFFFFFF), ce_saddr = 0, ce_daddr = 0, ce_sport = 0,
            ce_dport = 0, ce_family = AF_INET, ce_protocol = IPPROTO_TCP,
            ce_event_type = EVENT_CONNECT_EXIT, ce_retval = as_int (ex_ret args), ce_latency_us = latency_us,
            ce_comm = bc_comm c\<rparr>
           (s\<lparr>cs_start := start\<rparr>))"

section \<open>Executions\<close>

datatype connect_call =
  Enter bpf_ctx sys_enter_connect_args
| Exit bpf_ctx sys_exit_connect_args

fun call_thread :: "connect_call \<Rightarrow> u64" where
  "call_thread (Enter c args) = bc_pid_tgid c"
| "call_thread (Exit c args) = bc_pid_tgid c"

fun connect_call_step :: "connect_call \<Rightarrow> connect_state \<Rightarrow> connect_state" where
  "connect_call_step (Enter c args) s = sys_enter_connect c args s"
| "connect_call_step (Exit c args) s = sys_exit_connect c args s"

inductive connect_step :: "connect_state \<Rightarrow> connect_state \<Rightarrow> bool" where
  enter: "connect_step s (sys_enter_connect c args s)"
| exit: "connect_step s (sys_exit_connect c args s)"

inductive_cases connect_stepE: "connect_step s s'"

definition connect_inv :: "connect_state \<Rightarrow> bool" where
  "connect_inv s \<longleftrightarrow> hash_inv CONNECT_START_MAX (cs_start s)"

definition init_connect :: connect_state where
  "init_connect = \<lparr>cs_start = [], cs_events = []\<rparr>"

section \<open>Lemmas\<close>

text \<open>What a call does to the map of start times.\<close>

definition call_op :: "connect_call \<Rightarrow> connect_state \<Rightarrow> hash_op" where
  "call_op call s =
     (case call of
        Enter c args \<Rightarrow>
          (if cs_start (sys_enter_connect c args s) = cs_start s then Keep else Put (bc_pid_tgid c) (bc_ktime c 0))
      | Exit c args \<Rightarrow>
          (case bpf_map_lookup_elem (cs_start s) (bc_pid_tgid c) of None \<Rightarrow> Keep | Some _ \<Rightarrow> Del (bc_pid_tgid c)))"

lemma cs_start_step:
  "cs_start (connect_call_step call s) = bpf_start.apply_op CONNECT_START_MAX (call_op call s) (cs_start s)"
  by (cases call)
     (auto simp: call_op_def bpf_start.apply_op_def sys_enter_connect_def sys_exit_connect_def submit_event_def
       get_pid_tgid_def Let_def split: option.splits)

lemma op_key_call: "op_key (call_op call s) = None \<or> op_key (call_op call s) = Some (call_thread call)"
  by (cases call) (auto simp: call_op_def split: option.splits)

lemma start_of_other_threads:
  assumes "\<forall>call \<in> set calls. call_thread call \<noteq> k"
  shows "bpf_map_lookup_elem (cs_start (fold connect_call_step calls s)) k = bpf_map_lookup_elem (cs_start s) k"
  using assms
proof (induction calls arbitrary: s)
  case (Cons call calls)
  have "op_key (call_op call s) \<noteq> Some k"
    using op_key_call [of call s] Cons.prems by auto
  then show ?case
    using Cons by (simp add: cs_start_step bpf_start.apply_op_other)
qed simp

interpretation connect_system: step_system connect_step connect_inv
proof
  fix s s' assume "connect_step s s'" and inv: "connect_inv s"
  then obtain call where "s' = connect_call_step call s"
    by (elim connect_stepE) (metis connect_call_step.simps)+
  with inv show "connect_inv s'"
    unfolding connect_inv_def by (simp add: cs_start_step bpf_start.apply_op_inv)
qed

section \<open>Properties\<close>

text \<open>
  In every reachable state of the connect tracer the map of start times has at most 1024
  entries and no thread twice.
\<close>

theorem connect_reachable_inv:
  assumes "connect_step\<^sup>*\<^sup>* init_connect s"
  shows "connect_inv s"
  using assms by (rule connect_system.reach_inv) (simp add: connect_inv_def init_connect_def hash_inv_def)

theorem connect_reachable_inv_witness:
  "connect_inv (sys_exit_connect (ex_bpf_ctx 1 5 []) \<lparr>ex_ret = 0\<rparr> init_connect)"
  by (rule connect_reachable_inv, rule r_into_rtranclp, rule connect_step.exit)

text \<open>
  C32: Latency.  If a thread enters \<open>connect()\<close> with an IPv4 address and the map has room or already
  holds the thread, then after any calls of other threads its exit event carries the time between
  the two tracepoints in microseconds (of 64-bit nanoseconds, modulo wrap-around), and the
  thread's entry is gone.
\<close>

theorem connect_latency:
  assumes "connect_inv s" "length (cs_start s) < CONNECT_START_MAX \<or> bpf_map_lookup_elem (cs_start s) k \<noteq> None"
    and "bc_pid_tgid c = k" "read_sockaddr_in c (en_addr args) (as_int (en_addrlen args)) = Some (AF_INET, daddr, dport)"
    and "2 \<le> as_size (as_int (en_addrlen args))"
    and "\<forall>call \<in> set calls. call_thread call \<noteq> k" "bc_pid_tgid c' = k"
    and "s' = sys_exit_connect c' args' (fold connect_call_step calls (sys_enter_connect c args s))"
  shows "ce_latency_us (last (cs_events s')) = (bc_ktime c' 0 - bc_ktime c 0) div 1000 \<and>
    ce_event_type (last (cs_events s')) = EVENT_CONNECT_EXIT \<and> bpf_map_lookup_elem (cs_start s') k = None"
proof -
  let ?s1 = "sys_enter_connect c args s"
  let ?s2 = "fold connect_call_step calls ?s1"
  have start: "cs_start ?s1 = bpf_map_update_elem CONNECT_START_MAX k (bc_ktime c 0) (cs_start s)"
    using assms(3-5) by (simp add: sys_enter_connect_def submit_event_def get_pid_tgid_def Let_def)
  have "bpf_map_lookup_elem (cs_start ?s1) k = Some (bc_ktime c 0)"
    unfolding start using assms(2) by (rule bpf_start.put_same)
  then have "bpf_map_lookup_elem (cs_start ?s2) k = Some (bc_ktime c 0)"
    using start_of_other_threads [OF assms(6)] by simp
  moreover have "hash_inv CONNECT_START_MAX (cs_start ?s2)"
  proof -
    have "connect_inv (connect_call_step call t)" if "connect_inv t" for call t
      using that by (simp add: connect_inv_def cs_start_step bpf_start.apply_op_inv)
    then have "connect_inv (fold connect_call_step calls t)" if "connect_inv t" for t
      using that by (induction calls arbitrary: t) auto
    moreover have "connect_inv ?s1"
      using assms(1) by (simp add: connect_inv_def start bpf_start.put_inv)
    ultimately show ?thesis by (simp add: connect_inv_def)
  qed
  ultimately show ?thesis
    using assms(7) bpf_start.del_same [of CONNECT_START_MAX "cs_start ?s2" k] unfolding assms(8)
    by (simp add: sys_exit_connect_def submit_event_def get_pid_tgid_def Let_def)
qed

theorem connect_latency_witness:
  "ce_latency_us (last (cs_events (sys_exit_connect (ex_bpf_ctx 7 9500000 []) \<lparr>ex_ret = 0\<rparr>
     (fold connect_call_step [Exit (ex_bpf_ctx 8 50 []) \<lparr>ex_ret = 0\<rparr>]
       (sys_enter_connect (ex_bpf_ctx 7 2500000 [2, 0, 0, 80, 10, 0, 0, 1, 0, 0, 0, 0, 0, 0, 0, 0])
          \<lparr>en_fd = 3, en_addr = 0, en_addrlen = 16\<rparr> init_connect))))) = 7000"
  using connect_latency [OF _ _ _ _ _ _ _ refl, where k = 7 and s = init_connect and
      c = "ex_bpf_ctx 7 2500000 [2, 0, 0, 80, 10, 0, 0, 1, 0, 0, 0, 0, 0, 0, 0, 0]" and
      args = "\<lparr>en_fd = 3, en_addr = 0, en_addrlen = 16\<rparr>" and daddr = "le32 10 0 0 1" and dport = 80 and
      calls = "[Exit (ex_bpf_ctx 8 50 []) \<lparr>ex_ret = 0\<rparr>]" and c' = "ex_bpf_ctx 7 9500000 []" and args' = "\<lparr>ex_ret = 0\<rparr>"]
  by (simp add: connect_inv_def hash_inv_def init_connect_def CONNECT_START_MAX_def ex_bpf_ctx_def
      read_sockaddr_in_def as_int_def as_size_def ld16_def ld32_def sockaddr_in_of_def le16_def ntohs_def)

end
