(* ===== verification/Bpf_Tracers.thy ===== *)
theory Bpf_Tracers
  imports Bpf_Kernel Packet_Parser
begin

text \<open>
  The other programs under \<open>bpf/\<close>: the tracers that report a \<open>struct event\<close> through a ring buffer
  (\<open>dns_trace\<close>, \<open>http_trace\<close>, \<open>db_trace\<close>, \<open>tcp_connect\<close>, \<open>syscall\<close>, \<open>block_trace\<close>, \<open>file_open\<close>,
  \<open>process_exec\<close>, \<open>sched_trace\<close>, \<open>mem_trace\<close>, \<open>security_trace\<close>), \<open>http_capture\<close>, the traffic classifier
  programs of \<open>network_flow\<close> and the socket filters.

  \<open>bpf_ringbuf_reserve\<close> either fails or returns memory with its old contents: a handler takes that
  slot as an argument and gives the event it submits, if any.  Fields a handler does not write
  keep what was there.  Kernel structures are the values read from them.
\<close>

section \<open>Messages on sockets\<close>

record sock =
  sk_num :: u16
  sk_dport :: u16
  sk_rcv_saddr :: u32
  sk_daddr :: u32

text \<open>The first segment of a message, \<open>None\<close> for a NULL \<open>kvec\<close>: its base and length.\<close>

type_synonym kvec = "(u64 \<times> u64) option"

definition copy_iov :: "bpf_ctx \<Rightarrow> kvec \<Rightarrow> cbuf \<Rightarrow> cbuf" where
  "copy_iov c kvec data =
     (case kvec of
        None \<Rightarrow> data
      | Some (iov_base, iov_len) \<Rightarrow>
          (if iov_base \<noteq> 0 \<and> 0 < iov_len then
             let copy_len = (if of_nat DATA_LEN - 1 < iov_len then of_nat DATA_LEN - 1 else iov_len)
             in (bc_read_user_buf c iov_base (unat copy_len) data)[unat copy_len := NUL]
           else data))"

definition handle_udp_msg :: "bpf_ctx \<Rightarrow> sock \<Rightarrow> kvec \<Rightarrow> u64 \<Rightarrow> u8 \<Rightarrow> event option \<Rightarrow> event option" where
  "handle_udp_msg c sk kvec sz direction slot =
     (let sport = sk_num sk; dport = bpf_ntohs (sk_dport sk) in
      if sport \<noteq> 53 \<and> dport \<noteq> 53 then None
      else map_option (\<lambda>e. e\<lparr>ev_timestamp_ns := bc_ktime c 0, ev_type := EVENT_TYPE_DNS, ev_pid := bc_pid c,
        ev_comm := bc_comm c, ev_src_ip := sk_rcv_saddr sk, ev_dst_ip := sk_daddr sk, ev_src_port := sport,
        ev_dst_port := dport, ev_protocol := 17, ev_bytes := sz, ev_packets := 1, ev_latency_ns := 0,
        ev_count := ucast direction, ev_data := copy_iov c kvec (ev_data e)\<rparr>) slot)"

definition trace_udp_sendmsg where
  "trace_udp_sendmsg c sk kvec sz slot = handle_udp_msg c sk kvec sz 1 slot"

definition trace_udp_recvmsg where
  "trace_udp_recvmsg c sk kvec sz slot = handle_udp_msg c sk kvec sz 2 slot"

definition http_port :: "u16 \<Rightarrow> bool" where
  "http_port p \<longleftrightarrow> p = 80 \<or> p = 443 \<or> p = 8080"

definition handle_tcp_msg :: "bpf_ctx \<Rightarrow> sock \<Rightarrow> kvec \<Rightarrow> u64 \<Rightarrow> u8 \<Rightarrow> event option \<Rightarrow> event option" where
  "handle_tcp_msg c sk kvec sz direction slot =
     (let sport = sk_num sk; dport = bpf_ntohs (sk_dport sk) in
      if \<not> http_port sport \<and> \<not> http_port dport then None
      else map_option (\<lambda>e. e\<lparr>ev_timestamp_ns := bc_ktime c 0, ev_type := EVENT_TYPE_HTTP, ev_pid := bc_pid c,
        ev_comm := bc_comm c, ev_src_ip := sk_rcv_saddr sk, ev_dst_ip := sk_daddr sk, ev_src_port := sport,
        ev_dst_port := dport, ev_protocol := 6, ev_bytes := sz, ev_packets := 1, ev_latency_ns := 0,
        ev_count := ucast direction, ev_data := copy_iov c kvec (ev_data e)\<rparr>) slot)"

definition trace_tcp_sendmsg where
  "trace_tcp_sendmsg c sk kvec sz slot = handle_tcp_msg c sk kvec sz 1 slot"

definition trace_tcp_recvmsg where
  "trace_tcp_recvmsg c sk kvec sz slot = handle_tcp_msg c sk kvec sz 2 slot"

definition handle_db_tcp :: "bpf_ctx \<Rightarrow> sock \<Rightarrow> kvec \<Rightarrow> u64 \<Rightarrow> u8 \<Rightarrow> event option \<Rightarrow> event option" where
  "handle_db_tcp c sk kvec sz direction slot =
     (let sport = sk_num sk; dport = bpf_ntohs (sk_dport sk) in
      if sport \<noteq> 3306 \<and> sport \<noteq> 6379 \<and> dport \<noteq> 3306 \<and> dport \<noteq> 6379 then None
      else map_option (\<lambda>e. e\<lparr>ev_timestamp_ns := bc_ktime c 0,
        ev_type := (if sport = 3306 \<or> dport = 3306 then 10 else 11), ev_pid := bc_pid c,
        ev_comm := bc_comm c, ev_src_ip := sk_rcv_saddr sk, ev_dst_ip := sk_daddr sk, ev_src_port := sport,
        ev_dst_port := dport, ev_protocol := 6, ev_bytes := sz, ev_packets := 1, ev_latency_ns := 0,
        ev_count := ucast direction, ev_data := copy_iov c kvec (ev_data e)\<rparr>) slot)"

definition trace_db_tcp_sendmsg where
  "trace_db_tcp_sendmsg c sk kvec sz slot = handle_db_tcp c sk kvec sz 1 slot"

definition trace_db_tcp_recvmsg where
  "trace_db_tcp_recvmsg c sk kvec sz slot = handle_db_tcp c sk kvec sz 2 slot"

text \<open>\<open>http_capture.bpf.c\<close>: the event is a zeroed local variable, sent through a perf buffer.\<close>

definition capture_tcp_msg :: "bpf_ctx \<Rightarrow> sock \<Rightarrow> u64 \<Rightarrow> u8 \<Rightarrow> event option" where
  "capture_tcp_msg c sk sz direction =
     (let e = zero_event\<lparr>ev_timestamp_ns := bc_ktime c 0, ev_type := EVENT_TYPE_HTTP, ev_pid := bc_pid c,
        ev_comm := bc_comm c, ev_protocol := 6, ev_bytes := sz, ev_packets := 1, ev_count := ucast direction,
        ev_src_ip := sk_rcv_saddr sk, ev_dst_ip := sk_daddr sk, ev_src_port := sk_num sk,
        ev_dst_port := bpf_ntohs (sk_dport sk)\<rparr> in
      if ev_src_port e \<noteq> 80 \<and> ev_src_port e \<noteq> 443 \<and> ev_src_port e \<noteq> 8080 \<and>
         ev_dst_port e \<noteq> 80 \<and> ev_dst_port e \<noteq> 443 \<and> ev_dst_port e \<noteq> 8080 then None else Some e)"

definition capture_tcp_sendmsg where
  "capture_tcp_sendmsg c sk sz = capture_tcp_msg c sk sz 1"

definition capture_tcp_recvmsg where
  "capture_tcp_recvmsg c sk sz = capture_tcp_msg c sk sz 2"

section \<open>Latency tracers\<close>

definition START_TS_MAX :: nat where "START_TS_MAX = 8192"

text \<open>\<open>tcp_connect.bpf.c\<close>\<close>

definition trace_tcp_v4_connect_entry :: "bpf_ctx \<Rightarrow> bpf_hash \<Rightarrow> bpf_hash" where
  "trace_tcp_v4_connect_entry c m = bpf_map_update_elem START_TS_MAX (bc_pid_tgid c) (bc_ktime c 0) m"

definition trace_tcp_v4_connect_exit :: "bpf_ctx \<Rightarrow> event option \<Rightarrow> bpf_hash \<Rightarrow> bpf_hash \<times> event option" where
  "trace_tcp_v4_connect_exit c slot m =
     (case bpf_map_lookup_elem m (bc_pid_tgid c) of
        None \<Rightarrow> (m, None)
      | Some start \<Rightarrow>
          (let latency = bc_ktime c 0 - start in
           (bpf_map_delete_elem (bc_pid_tgid c) m,
            map_option (\<lambda>e. e\<lparr>ev_timestamp_ns := bc_ktime c 1, ev_type := EVENT_TYPE_TCP_CONNECT,
              ev_pid := bc_pid c, ev_comm := bc_comm c, ev_latency_ns := latency\<rparr>) slot)))"

definition trace_tcp_v4_connect :: "bpf_ctx \<Rightarrow> sock \<Rightarrow> event option \<Rightarrow> event option" where
  "trace_tcp_v4_connect c sk slot =
     map_option (\<lambda>e. e\<lparr>ev_timestamp_ns := bc_ktime c 0, ev_type := EVENT_TYPE_TCP_CONNECT, ev_pid := bc_pid c,
       ev_comm := bc_comm c, ev_dst_ip := sk_daddr sk, ev_dst_port := bpf_ntohs (sk_dport sk),
       ev_src_ip := sk_rcv_saddr sk, ev_src_port := bpf_ntohs (sk_num sk)\<rparr>) slot"

text \<open>\<open>syscall.bpf.c\<close>\<close>

definition tracepoint_sys_enter :: "bpf_ctx \<Rightarrow> u64 \<Rightarrow> event option \<Rightarrow> bpf_hash \<Rightarrow> bpf_hash \<times> event option" where
  "tracepoint_sys_enter c ident slot m =
     (let ts = bc_ktime c 0 in
      (bpf_map_update_elem START_TS_MAX (bc_pid_tgid c) ts m,
       map_option (\<lambda>e. e\<lparr>ev_timestamp_ns := ts, ev_type := EVENT_TYPE_SYSCALL, ev_pid := bc_pid c,
         ev_comm := bc_comm c, ev_count := ident\<rparr>) slot))"

definition tracepoint_sys_exit :: "bpf_ctx \<Rightarrow> event option \<Rightarrow> bpf_hash \<Rightarrow> bpf_hash \<times> event option" where
  "tracepoint_sys_exit c slot m =
     (case bpf_map_lookup_elem m (bc_pid_tgid c) of
        None \<Rightarrow> (m, None)
      | Some start \<Rightarrow>
          (let latency = bc_ktime c 0 - start in
           (bpf_map_delete_elem (bc_pid_tgid c) m,
            map_option (\<lambda>e. e\<lparr>ev_timestamp_ns := bc_ktime c 1, ev_type := EVENT_TYPE_SYSCALL,
              ev_pid := bc_pid c, ev_comm := bc_comm c, ev_latency_ns := latency\<rparr>) slot)))"

text \<open>\<open>block_trace.bpf.c\<close>: two maps with the same keys.\<close>

definition block_key :: "u64 \<Rightarrow> u64 \<Rightarrow> u64" where
  "block_key dev sector = push_bit 32 dev OR sector"

definition tracepoint_block_rq_issue ::
  "bpf_ctx \<Rightarrow> u64 \<Rightarrow> u64 \<Rightarrow> u64 \<Rightarrow> event option \<Rightarrow> bpf_hash \<times> bpf_hash \<Rightarrow> (bpf_hash \<times> bpf_hash) \<times> event option" where
  "tracepoint_block_rq_issue c dev sector nr_sector slot = (\<lambda>(block_start, block_size_map).
     let key = block_key dev sector; ts = bc_ktime c 0 in
     ((bpf_map_update_elem START_TS_MAX key ts block_start,
       bpf_map_update_elem START_TS_MAX key nr_sector block_size_map),
      map_option (\<lambda>e. e\<lparr>ev_timestamp_ns := ts, ev_type := 16, ev_pid := bc_pid c, ev_comm := bc_comm c,
        ev_bytes := nr_sector * 512, ev_packets := 0, ev_latency_ns := 0, ev_count := 0,
        ev_data := zbuf DATA_LEN\<rparr>) slot))"

definition tracepoint_block_rq_complete ::
  "bpf_ctx \<Rightarrow> u64 \<Rightarrow> u64 \<Rightarrow> event option \<Rightarrow> bpf_hash \<times> bpf_hash \<Rightarrow> (bpf_hash \<times> bpf_hash) \<times> event option" where
  "tracepoint_block_rq_complete c dev sector slot = (\<lambda>(block_start, block_size_map).
     let key = block_key dev sector in
     case bpf_map_lookup_elem block_start key of
       None \<Rightarrow> ((block_start, block_size_map), None)
     | Some start \<Rightarrow>
         (let latency = bc_ktime c 0 - start in
          ((bpf_map_delete_elem key block_start, bpf_map_delete_elem key block_size_map),
           map_option (\<lambda>e. e\<lparr>ev_timestamp_ns := bc_ktime c 1, ev_type := 17, ev_pid := bc_pid c,
             ev_comm := bc_comm c, ev_latency_ns := latency, ev_bytes := 0, ev_packets := 0, ev_count := 1,
             ev_data := zbuf DATA_LEN\<rparr>) slot)))"

section \<open>Files, processes, scheduling, memory, security\<close>

definition trace_do_filp_open :: "bpf_ctx \<Rightarrow> u64 \<Rightarrow> event option \<Rightarrow> event option" where
  "trace_do_filp_open c fname slot =
     map_option (\<lambda>e. e\<lparr>ev_timestamp_ns := bc_ktime c 0, ev_type := EVENT_TYPE_FILE_OPEN, ev_pid := bc_pid c,
       ev_ppid := 0, ev_comm := bc_comm c,
       ev_data := bc_read_kernel_str c fname DATA_LEN (zbuf DATA_LEN)\<rparr>) slot"

definition trace_vfs_write :: "bpf_ctx \<Rightarrow> event option \<Rightarrow> event option" where
  "trace_vfs_write c slot =
     map_option (\<lambda>e. e\<lparr>ev_timestamp_ns := bc_ktime c 0, ev_type := EVENT_TYPE_FILE_OPEN, ev_pid := bc_pid c,
       ev_comm := bc_comm c,
       ev_data := ''WRITE'' @ [NUL] @ drop 6 (zbuf DATA_LEN)\<rparr>) slot"

definition tracepoint_sched_process_exec ::
  "bpf_ctx \<Rightarrow> u32 \<Rightarrow> u32 \<Rightarrow> u64 \<Rightarrow> u64 \<Rightarrow> event option \<Rightarrow> event option" where
  "tracepoint_sched_process_exec c pid parent_tgid arg_start arg_end slot =
     map_option (\<lambda>e.
       let arg_len = arg_end - arg_start;
           arg_len = (if of_nat DATA_LEN - 1 < arg_len then of_nat DATA_LEN - 1 else arg_len)
       in e\<lparr>ev_timestamp_ns := bc_ktime c 0, ev_type := EVENT_TYPE_EXEC, ev_pid := pid, ev_ppid := parent_tgid,
         ev_comm := bc_comm c,
         ev_data := (if 0 < arg_len then bc_read_user_str c arg_start DATA_LEN (ev_data e) else ev_data e)\<rparr>) slot"

definition tracepoint_sched_process_exit :: "bpf_ctx \<Rightarrow> u32 \<Rightarrow> u32 \<Rightarrow> event option \<Rightarrow> event option" where
  "tracepoint_sched_process_exit c pid parent_tgid slot =
     map_option (\<lambda>e. e\<lparr>ev_timestamp_ns := bc_ktime c 0, ev_type := EVENT_TYPE_EXIT, ev_pid := pid,
       ev_ppid := parent_tgid, ev_comm := bc_comm c\<rparr>) slot"

definition tracepoint_sched_switch ::
  "bpf_ctx \<Rightarrow> u32 \<Rightarrow> u32 \<Rightarrow> u64 \<Rightarrow> u64 \<Rightarrow> event option \<Rightarrow> event option" where
  "tracepoint_sched_switch c prev_pid next_pid prev_state prev_comm slot =
     map_option (\<lambda>e. e\<lparr>ev_timestamp_ns := bc_ktime c 0, ev_type := EVENT_TYPE_MAX, ev_pid := prev_pid,
       ev_ppid := next_pid, ev_latency_ns := prev_state, ev_bytes := 0, ev_packets := 0, ev_count := 0,
       ev_comm := bc_read_kernel_str c prev_comm TASK_COMM_LEN (ev_comm e), ev_data := zbuf DATA_LEN\<rparr>) slot"

definition tracepoint_sched_wakeup :: "bpf_ctx \<Rightarrow> u32 \<Rightarrow> u64 \<Rightarrow> event option \<Rightarrow> event option" where
  "tracepoint_sched_wakeup c pid comm slot =
     map_option (\<lambda>e. e\<lparr>ev_timestamp_ns := bc_ktime c 0, ev_type := 13, ev_pid := pid, ev_ppid := 0,
       ev_latency_ns := 0, ev_bytes := 0, ev_packets := 0, ev_count := 0,
       ev_comm := bc_read_kernel_str c comm TASK_COMM_LEN (ev_comm e), ev_data := zbuf DATA_LEN\<rparr>) slot"

text \<open>\<open>rc\<close> is the return value register, which a probe at function entry reads before it is set.\<close>

definition trace_kmalloc :: "bpf_ctx \<Rightarrow> u64 \<Rightarrow> u64 \<Rightarrow> event option \<Rightarrow> event option" where
  "trace_kmalloc c rc sz slot =
     (if rc = 0 then None
      else map_option (\<lambda>e. e\<lparr>ev_timestamp_ns := bc_ktime c 0, ev_type := 14, ev_pid := bc_pid c,
        ev_comm := bc_comm c, ev_bytes := sz, ev_packets := 0, ev_latency_ns := 0, ev_count := 1,
        ev_data := zbuf DATA_LEN\<rparr>) slot)"

definition trace_kfree :: "bpf_ctx \<Rightarrow> event option \<Rightarrow> event option" where
  "trace_kfree c slot =
     map_option (\<lambda>e. e\<lparr>ev_timestamp_ns := bc_ktime c 0, ev_type := 15, ev_pid := bc_pid c,
       ev_comm := bc_comm c, ev_bytes := 0, ev_packets := 0, ev_latency_ns := 0, ev_count := 1,
       ev_data := zbuf DATA_LEN\<rparr>) slot"

definition trace_cap_capable :: "bpf_ctx \<Rightarrow> u32 \<Rightarrow> u32 \<Rightarrow> event option \<Rightarrow> event option" where
  "trace_cap_capable c cap opt slot =
     map_option (\<lambda>e. e\<lparr>ev_timestamp_ns := bc_ktime c 0, ev_type := 18, ev_pid := bc_pid c,
       ev_comm := bc_comm c, ev_count := scast cap, ev_latency_ns := scast opt, ev_bytes := 0, ev_packets := 0,
       ev_data := zbuf DATA_LEN\<rparr>) slot"

definition trace_security_file_open :: "bpf_ctx \<Rightarrow> u64 \<Rightarrow> event option \<Rightarrow> event option" where
  "trace_security_file_open c name slot =
     map_option (\<lambda>e. e\<lparr>ev_timestamp_ns := bc_ktime c 0, ev_type := 19, ev_pid := bc_pid c,
       ev_comm := bc_comm c, ev_bytes := 0, ev_packets := 0,
       ev_data := bc_read_kernel_str c name DATA_LEN (ev_data e)\<rparr>) slot"

definition trace_load_module :: "bpf_ctx \<Rightarrow> event option \<Rightarrow> event option" where
  "trace_load_module c slot =
     map_option (\<lambda>e. e\<lparr>ev_timestamp_ns := bc_ktime c 0, ev_type := 20, ev_pid := bc_pid c,
       ev_comm := bc_comm c, ev_bytes := 0, ev_packets := 0, ev_data := zbuf DATA_LEN\<rparr>) slot"

section \<open>Traffic classifier programs and socket filters\<close>

text \<open>A packet: all its bytes, how many of them are directly accessible, and its length field.\<close>

record sk_buff =
  skb_bytes :: "byte list"
  skb_linear :: nat
  skb_len :: u32

record flow_ev =
  fl_ts :: u64
  fl_si :: u32
  fl_di :: u32
  fl_by :: u32
  fl_pk :: u32
  fl_sp :: u16
  fl_dp :: u16
  fl_pr :: u8
  fl_dir :: u8

text \<open>Membership in \<open>exclude_dest_ips\<close>: an entry with a non-zero value.\<close>

definition ex :: "(u32 \<Rightarrow> u8 option) \<Rightarrow> u32 \<Rightarrow> bool" where
  "ex exclude_dest_ips ip \<longleftrightarrow> (case exclude_dest_ips ip of None \<Rightarrow> False | Some v \<Rightarrow> v \<noteq> 0)"

definition bpf_skb_load_bytes :: "sk_buff \<Rightarrow> nat \<Rightarrow> nat \<Rightarrow> byte list option" where
  "bpf_skb_load_bytes skb off n = rd_bytes (skb_bytes skb) off n"

text \<open>Ports from offset 34: 20 bytes for TCP, 8 for UDP; other protocols have none.\<close>

definition flow_ports :: "sk_buff \<Rightarrow> u8 \<Rightarrow> u16 \<times> u16" where
  "flow_ports skb proto =
     (if proto = 6 then
        (case bpf_skb_load_bytes skb 34 20 of
           Some h \<Rightarrow> (bpf_ntohs (ld16 h 0), bpf_ntohs (ld16 h 2)) | None \<Rightarrow> (0, 0))
      else if proto = 17 then
        (case bpf_skb_load_bytes skb 34 8 of
           Some h \<Rightarrow> (bpf_ntohs (ld16 h 0), bpf_ntohs (ld16 h 2)) | None \<Rightarrow> (0, 0))
      else (0, 0))"

definition f1 :: "bpf_ctx \<Rightarrow> (u32 \<Rightarrow> u8 option) \<Rightarrow> sk_buff \<Rightarrow> flow_ev option" where
  "f1 c excl skb =
     (let da = take (skb_linear skb) (skb_bytes skb) in
      if length da < 14 then None
      else if ld16 da 12 \<noteq> bpf_htons 0x0800 then None
      else if length da < 34 then None
      else if ex excl (ld32 da 30) then None
      else let (sp, dp) = flow_ports skb (da ! 23) in
        Some \<lparr>fl_ts = bc_ktime c 0, fl_si = ld32 da 26, fl_di = ld32 da 30, fl_by = skb_len skb, fl_pk = 1,
              fl_sp = sp, fl_dp = dp, fl_pr = da ! 23, fl_dir = 0\<rparr>)"

definition f2 :: "bpf_ctx \<Rightarrow> (u32 \<Rightarrow> u8 option) \<Rightarrow> sk_buff \<Rightarrow> flow_ev option" where
  "f2 c excl skb =
     (let da = take (skb_linear skb) (skb_bytes skb) in
      if length da < 14 then None
      else if ld16 da 12 \<noteq> bpf_htons 0x0800 then None
      else if length da < 34 then None
      else if ex excl (ld32 da 26) then None
      else let (sp, dp) = flow_ports skb (da ! 23) in
        Some \<lparr>fl_ts = bc_ktime c 0, fl_si = ld32 da 26, fl_di = ld32 da 30, fl_by = skb_len skb, fl_pk = 1,
              fl_sp = sp, fl_dp = dp, fl_pr = da ! 23, fl_dir = 1\<rparr>)"

definition stb_passfilter :: "sk_buff \<Rightarrow> u32" where
  "stb_passfilter skb = skb_len skb"

definition stb_packet_filter :: "sk_buff \<Rightarrow> u32" where
  "stb_packet_filter skb = skb_len skb"

definition stb_test_filter :: "sk_buff \<Rightarrow> u32" where
  "stb_test_filter skb = (if length (take (skb_linear skb) (skb_bytes skb)) < 14 then 0 else skb_len skb)"

section \<open>Lemmas\<close>

text \<open>Sectors beyond 32 bits run into the device number.\<close>

lemma block_key_collides: "block_key 1 0 = block_key 0 0x100000000"
  by (simp add: block_key_def)

lemma block_key_inject:
  assumes "unat s < 2 ^ 32" "unat s' < 2 ^ 32" "unat d < 2 ^ 32" "unat d' < 2 ^ 32" "block_key d s = block_key d' s'"
  shows "d = d' \<and> s = s'"
proof -
  have small: "\<not> bit w n" if "unat w < 2 ^ 32" "32 \<le> n" for w :: u64 and n
  proof -
    have "unat w < 2 ^ n" using that by (meson le_trans less_le_trans one_le_numeral power_increasing)
    then have "\<not> bit (unat w) n" by (simp add: bit_iff_odd)
    then show ?thesis by (simp add: bit_unsigned_iff)
  qed
  have key: "bit (block_key d s) n \<longleftrightarrow> (if n < 32 then bit s n else n < 64 \<and> bit d (n - 32))"
    if "unat s < 2 ^ 32" for d s n
    using small [OF that, of n] by (auto simp: block_key_def bit_or_iff bit_push_bit_iff)
  have s: "s = s'"
  proof (rule bit_word_eqI)
    fix n
    show "bit s n = bit s' n"
      using key [OF assms(1), of d n] key [OF assms(2), of d' n] small [OF assms(1), of n] small [OF assms(2), of n] assms(5)
      by (cases "n < 32") auto
  qed
  have "d = d'"
  proof (rule bit_word_eqI)
    fix n
    show "bit d n = bit d' n"
      using key [OF assms(1), of d "n + 32"] key [OF assms(2), of d' "n + 32"] small [OF assms(3), of n] small [OF assms(4), of n] assms(5)
      by (cases "n < 32") auto
  qed
  with s show ?thesis by simp
qed

lemma ld_append:
  "off = length pre \<Longrightarrow> ld16 (pre @ q) (off + i) = ld16 q i"
  "off = length pre \<Longrightarrow> ld32 (pre @ q) (off + i) = ld32 q i"
  by (simp_all add: ld16_def ld32_def nth_append)

lemma ipv4_frame_loads:
  assumes "length macs = 12" "wf_ipv4 h []" and f: "f = eth_frame macs None ETH_P_IP (ipv4_hdr h [] @ tr)"
  shows "length f = 34 + length tr" "ld16 f 12 = bpf_htons 0x0800" "f ! 23 = v4_proto h"
    "ld32 f 26 = addr4_mem (v4_src h)" "ld32 f 30 = addr4_mem (v4_dst h)" "drop 34 f = tr"
proof -
  have hdr: "length (ipv4_hdr h []) = 20"
    using length_ipv4_hdr [OF assms(2)] assms(2) by (auto simp: wf_ipv4_def)
  define ip where "ip = take 20 (ipv4_hdr h [])"
  have ip: "ipv4_hdr h [] = ip" using hdr by (simp add: ip_def)
  note loads = ipv4_hdr_loads [OF assms(2), folded ip_def]
  define pre where "pre = macs @ u16_bytes ETH_P_IP"
  have f': "f = pre @ ip @ tr" and pre: "length pre = 14" "length ip = 20"
    using assms(1) hdr by (simp_all add: f eth_frame_def pre_def ip)
  show "length f = 34 + length tr" "drop 34 f = tr" by (simp_all add: f' pre)
  show "ld16 f 12 = bpf_htons 0x0800"
    using ld_append(1) [of 12 macs "u16_bytes ETH_P_IP @ ip @ tr" 0] assms(1)
    by (simp add: f' pre_def bpf_htons_def endian_simps u16_bytes_def ld16_def le16_def ntohs_def)
  have "f ! (14 + 9) = ip ! 9" "ld32 f (14 + 12) = ld32 ip 12" "ld32 f (14 + 16) = ld32 ip 16"
    using pre by (simp_all add: f' nth_append ld32_def)
  then show "f ! 23 = v4_proto h" "ld32 f 26 = addr4_mem (v4_src h)" "ld32 f 30 = addr4_mem (v4_dst h)"
    using loads by simp_all
qed

lemma flow_ports_frame:
  assumes "drop 34 (skb_bytes skb) = tr" "length (skb_bytes skb) = 34 + length tr"
    and "proto = 6 \<and> 20 \<le> length tr \<or> proto = 17 \<and> 8 \<le> length tr"
  shows "flow_ports skb proto = (ntohs (ld16 tr 0), ntohs (ld16 tr 2))"
  using assms by (auto simp: flow_ports_def bpf_skb_load_bytes_def rd_bytes_def bpf_ntohs_def ld16_def)

text \<open>What the two programs of the classifier send for a frame.\<close>

lemma flow_programs_frame:
  fixes c :: bpf_ctx
  assumes "length macs = 12" "wf_ipv4 h []" "f = eth_frame macs None ETH_P_IP (ipv4_hdr h [] @ tr)"
    and "v4_proto h = 6 \<and> 20 \<le> length tr \<or> v4_proto h = 17 \<and> 8 \<le> length tr"
    and "skb_bytes skb = f" "skb_linear skb = length f"
  defines "ev \<equiv> \<lambda>dir. \<lparr>fl_ts = bc_ktime c 0, fl_si = addr4_mem (v4_src h),
      fl_di = addr4_mem (v4_dst h), fl_by = skb_len skb, fl_pk = 1, fl_sp = ntohs (ld16 tr 0),
      fl_dp = ntohs (ld16 tr 2), fl_pr = v4_proto h, fl_dir = dir\<rparr>"
  shows "f1 c excl skb = (if ex excl (addr4_mem (v4_dst h)) then None else Some (ev 0))"
    and "f2 c excl skb = (if ex excl (addr4_mem (v4_src h)) then None else Some (ev 1))"
proof -
  note loads = ipv4_frame_loads [OF assms(1-3)]
  have "flow_ports skb (v4_proto h) = (ntohs (ld16 tr 0), ntohs (ld16 tr 2))"
    using loads(1,6) assms(4) by (intro flow_ports_frame) (simp_all add: assms(5))
  then show "f1 c excl skb = (if ex excl (addr4_mem (v4_dst h)) then None else Some (ev 0))"
    and "f2 c excl skb = (if ex excl (addr4_mem (v4_src h)) then None else Some (ev 1))"
    using loads(1-5) by (simp_all add: f1_def f2_def assms(5,6) ev_def)
qed

section \<open>Properties\<close>

text \<open>
  The kernel's classifier and the user-space parser agree: on an untagged IPv4 frame without
  IP options whose TCP or UDP header is complete and whose destination is not excluded, the event of
  the ingress program has the addresses, ports and protocol that \<open>packet_parse_raw\<close> finds.
\<close>

theorem network_flow_agrees:
  assumes "length macs = 12" "wf_ipv4 h []" "f = eth_frame macs None ETH_P_IP (ipv4_hdr h [] @ tr)"
    and "v4_proto h = 6 \<and> 20 \<le> length tr \<or> v4_proto h = 17 \<and> 8 \<le> length tr"
    and "skb_bytes skb = f" "skb_linear skb = length f" "\<not> ex excl (addr4_mem (v4_dst h))"
  shows "\<exists>e' ev. packet_parse_raw (Some f) (int (length f)) (Some e) = Some (1, Some e') \<and> f1 c excl skb = Some ev \<and>
    fl_si ev = pe_src_ip e' \<and> fl_di ev = pe_dst_ip e' \<and> fl_sp ev = pe_src_port e' \<and>
    fl_dp ev = pe_dst_port e' \<and> fl_pr ev = pe_protocol e'"
proof -
  note f1 = flow_programs_frame(1) [OF assms(1-6), of c excl]
  show ?thesis
  proof (rule packet_parse_raw_v4 [OF assms(1,3)])
    fix pre
    assume f: "f = pre @ ipv4_hdr h [] @ tr"
      and parse: "\<And>e. packet_parse_raw (Some f) (int (length f)) (Some e) =
        map_option (map_prod id Some) (parse_ipv4 f (int (length f)) (length pre) e)"
    show ?thesis
      unfolding parse parse_ipv4_transport [OF assms(2) refl f] f1 using assms(4,7) by auto
  qed
qed

theorem network_flow_agrees_witness:
  "\<exists>e' ev. packet_parse_raw (Some (eth_frame (replicate 12 1) None ETH_P_IP
       (ipv4_hdr (ex_ipv4\<lparr>v4_ihl := 5\<rparr>) [] @ tcp_hdr ex_tcp))) 54 (Some zero_pkt_event) = Some (1, Some e') \<and>
     f1 (ex_bpf_ctx 0 0 []) Map.empty \<lparr>skb_bytes = eth_frame (replicate 12 1) None ETH_P_IP
       (ipv4_hdr (ex_ipv4\<lparr>v4_ihl := 5\<rparr>) [] @ tcp_hdr ex_tcp), skb_linear = 54, skb_len = 54\<rparr> = Some ev \<and>
     fl_si ev = pe_src_ip e' \<and> fl_di ev = pe_dst_ip e' \<and> fl_sp ev = pe_src_port e' \<and>
     fl_dp ev = pe_dst_port e' \<and> fl_pr ev = pe_protocol e'"
proof -
  let ?h = "ex_ipv4\<lparr>v4_ihl := 5\<rparr>"
  have wf: "wf_ipv4 ?h []" by (simp add: wf_ipv4_def ex_ipv4_def)
  have "length (eth_frame (replicate 12 1) None ETH_P_IP (ipv4_hdr ?h [] @ tcp_hdr ex_tcp)) = 54"
    using ipv4_frame_loads(1) [OF _ wf refl, of "replicate 12 1" "tcp_hdr ex_tcp"] by simp
  then show ?thesis
    using network_flow_agrees [OF _ wf refl, where macs = "replicate 12 1" and tr = "tcp_hdr ex_tcp" and
        e = zero_pkt_event and c = "ex_bpf_ctx 0 0 []" and excl = Map.empty and
        skb = "\<lparr>skb_bytes = eth_frame (replicate 12 1) None ETH_P_IP (ipv4_hdr ?h [] @ tcp_hdr ex_tcp),
          skb_linear = 54, skb_len = 54\<rparr>"]
    by (simp add: ex_def ex_ipv4_def)
qed

text \<open>
  C33: Latency of system calls, TCP connects and block requests: a start time recorded at entry while
  the map has room (or holds the key) is found at exit after any operations on other keys, the
  reported latency is the difference of the two clock readings, and the entry is removed.
\<close>

theorem tracer_latency:
  assumes "hash_inv START_TS_MAX m" "length m < START_TS_MAX \<or> bpf_map_lookup_elem m k \<noteq> None"
    and "\<forall>oper \<in> set ops. op_key oper \<noteq> Some k" "run = fold (bpf_start.apply_op START_TS_MAX) ops"
    and "t0 = bc_ktime c 0" "t1 = bc_ktime c' 0"
  shows "(bc_pid_tgid c = k \<and> bc_pid_tgid c' = k \<longrightarrow>
      (\<exists>m1 e1. tracepoint_sys_exit c' (Some slot) (run (fst (tracepoint_sys_enter c ident entry_slot m))) = (m1, Some e1) \<and>
         ev_latency_ns e1 = t1 - t0 \<and> bpf_map_lookup_elem m1 k = None) \<and>
      (\<exists>m1 e1. trace_tcp_v4_connect_exit c' (Some slot) (run (trace_tcp_v4_connect_entry c m)) = (m1, Some e1) \<and>
         ev_latency_ns e1 = t1 - t0 \<and> bpf_map_lookup_elem m1 k = None)) \<and>
    (block_key dev sector = k \<longrightarrow>
      (\<exists>m1 m2 e1. tracepoint_block_rq_complete c' dev sector (Some slot)
           (map_prod run id (fst (tracepoint_block_rq_issue c dev sector nr entry_slot (m, sizes)))) = ((m1, m2), Some e1) \<and>
         ev_latency_ns e1 = t1 - t0 \<and> bpf_map_lookup_elem m1 k = None))"
proof -
  let ?m = "run (bpf_map_update_elem START_TS_MAX k t0 m)"
  have found: "bpf_map_lookup_elem ?m k = Some t0"
    unfolding assms(4) using assms(2,3) by (rule bpf_start.start_found)
  have inv: "hash_inv START_TS_MAX ?m"
    unfolding assms(4) using assms(1) by (intro bpf_start.run_inv bpf_start.put_inv)
  then have gone: "bpf_map_lookup_elem (bpf_map_delete_elem k ?m) k = None"
    by (rule bpf_start.del_same)
  show ?thesis
    using found gone assms(5,6)
    by (auto simp: tracepoint_sys_exit_def tracepoint_sys_enter_def trace_tcp_v4_connect_exit_def
        trace_tcp_v4_connect_entry_def tracepoint_block_rq_complete_def tracepoint_block_rq_issue_def Let_def)
qed


theorem tracer_latency_witness:
  "\<exists>m1 e1. tracepoint_sys_exit (ex_bpf_ctx 7 900 []) (Some zero_event)
       (fold (bpf_start.apply_op START_TS_MAX) [Put 9 1, Del 9]
          (fst (tracepoint_sys_enter (ex_bpf_ctx 7 400 []) 3 None []))) = (m1, Some e1) \<and>
     ev_latency_ns e1 = 500 \<and> bpf_map_lookup_elem m1 7 = None"
  using tracer_latency [where m = "[]" and k = 7 and ops = "[Put 9 1, Del 9]" and c = "ex_bpf_ctx 7 400 []" and
      c' = "ex_bpf_ctx 7 900 []" and slot = zero_event and ident = 3 and entry_slot = None, OF _ _ _ refl refl refl]
  by (simp add: hash_inv_def START_TS_MAX_def ex_bpf_ctx_def)

end
