(* ===== verification/Probe_Main.thy ===== *)
theory Probe_Main
  imports Flow_Tracker Anomaly Serializer Tcp_Client Payload_Parsers Host_Metrics Runtime_Config Bpf_Loader
begin

text \<open>
  \<open>src/main.c\<close>: how the components are put together.  One iteration of the main loop receives and
  processes packets, polls \<open>/proc/net\<close>, collects host metrics, and serialises and sends the
  pending events; each of these stages is a definition on the state \<open>probe\<close> below.

  The packets that \<open>recvfrom\<close> delivers before it reports an empty queue (or before \<open>g_stop\<close> is set)
  are an argument, as are the clock readings, \<open>/proc\<close>, the output of \<open>df\<close>, what the kernel writes into
  the perf rings and the operating system under the relay connection.  Log output is left out, except
  the statistics line.
\<close>

section \<open>State\<close>

record probe =
  pb_probe_id :: string
  pb_use_bpf :: bool
  pb_status :: bpf_loader_status
  pb_rings :: "int \<Rightarrow> perf_ring"
  pb_tracker :: flow_tracker
  pb_statics :: retx_statics
  pb_anomaly :: anomaly_detector
  pb_tcp :: tcp_client
  pb_entries :: "proc_net_entry list"
  pb_events :: "flow_event_t list"
  pb_metric :: host_metric_t
  pb_json :: cbuf
  pb_last_metric_ns :: u64
  pb_total_events :: u64
  pb_total_packets :: u64

text \<open>A packet from the raw socket, and the clock readings made while it is processed.\<close>

record rx_packet =
  rx_bytes :: "byte list"
  rx_clock :: "nat \<Rightarrow> u64"

definition sig_handler :: "int \<Rightarrow> bool \<Rightarrow> bool" where
  "sig_handler sig g_stop = True"

definition sigbus_handler :: "int \<Rightarrow> bool \<Rightarrow> bool" where
  "sigbus_handler sig g_stop = g_stop"

section \<open>One packet\<close>

definition main_eth_len :: "byte list \<Rightarrow> int \<Rightarrow> nat ub" where
  "main_eth_len pkt_buf len = map_option (\<lambda>vlan. if vlan then 18 else 14) (seq_has_vlan pkt_buf len)"

text \<open>DNS: the offset assumes an IP header of 20 bytes.\<close>

definition main_dns :: "byte list \<Rightarrow> int \<Rightarrow> pkt_event_t \<Rightarrow> flow_event_t \<Rightarrow> flow_event_t ub" where
  "main_dns pkt_buf len pkt flow =
     (if pe_protocol pkt = IPPROTO_UDP \<and> (pe_src_port pkt = PORT_DNS \<or> pe_dst_port pkt = PORT_DNS) \<and> 42 < len then
        do {
          eth_hdr_len \<leftarrow> main_eth_len pkt_buf len;
          let dns_offset = eth_hdr_len + 20 + 8;
          if int dns_offset < len then do {
            f \<leftarrow> parse_dns_payload (Some (drop dns_offset pkt_buf)) (len - int dns_offset) (Some flow)
                   (pe_src_port pkt = PORT_DNS);
            f
          } else Some flow
        }
      else Some flow)"

text \<open>HTTP: 20 bytes of IPv4 header or 40 of IPv6, then the data offset of the TCP header.\<close>

definition main_http :: "byte list \<Rightarrow> int \<Rightarrow> pkt_event_t \<Rightarrow> flow_event_t \<Rightarrow> flow_event_t ub" where
  "main_http pkt_buf len pkt flow =
     (if pe_protocol pkt = IPPROTO_TCP \<and> (pe_src_port pkt = PORT_HTTP \<or> pe_dst_port pkt = PORT_HTTP) \<and> 54 < len then
        do {
          eth_hdr_len \<leftarrow> main_eth_len pkt_buf len;
          let tcp_offset = (if pe_ip_version pkt = 6 then eth_hdr_len + 40 else eth_hdr_len + 20);
          if int (tcp_offset + 20) \<le> len then do {
            b \<leftarrow> rd pkt_buf (tcp_offset + 12);
            let http_offset = tcp_offset + unat (drop_bit 4 b AND 0x0F) * 4;
            if int http_offset < len then do {
              f \<leftarrow> parse_http_payload (Some (drop http_offset pkt_buf)) (len - int http_offset) (Some flow)
                     (pe_src_port pkt = PORT_HTTP);
              f
            } else Some flow
          } else Some flow
        }
      else Some flow)"

definition packet_key :: "pkt_event_t \<Rightarrow> flow_key_t" where
  "packet_key pkt = \<lparr>fk_src_ip = pe_src_ip pkt, fk_dst_ip = pe_dst_ip pkt, fk_src_port = pe_src_port pkt,
     fk_dst_port = pe_dst_port pkt, fk_protocol = pe_protocol pkt, fk_ip_version = pe_ip_version pkt\<rparr>"

text \<open>
  Retransmission check of a TCP packet: the local flow event, which is not used afterwards, the
  static variables and the tracker.
\<close>

definition main_retransmit ::
  "u64 \<Rightarrow> byte list \<Rightarrow> int \<Rightarrow> pkt_event_t \<Rightarrow> flow_event_t \<Rightarrow> retx_statics \<Rightarrow> flow_tracker \<Rightarrow>
   (flow_event_t \<times> retx_statics \<times> flow_tracker) ub" where
  "main_retransmit now pkt_buf len pkt flow st ft =
     (if pe_protocol pkt = IPPROTO_TCP then
        do {
          seq \<leftarrow> extract_tcp_seq_num pkt_buf len pkt;
          case seq of
            None \<Rightarrow> Some (flow, st, ft)
          | Some (seq_num, payload_len, tcp_flags_raw) \<Rightarrow> do {
              (ret, retx, dup, st1, ft1) \<leftarrow> check_retransmit now st ft (packet_key pkt) seq_num payload_len tcp_flags_raw;
              let flow1 = (if retx \<noteq> 0 then flow\<lparr>fe_retransmits := 1,
                    fe_event_type := set_field (fe_event_type flow) ''retransmit'',
                    fe_tags := set_field (fe_tags flow) ''tcp,retransmit'',
                    fe_details := print_field (fe_details flow) (''tcp_retransmit:seq='' @ show_word seq_num)\<rparr>
                  else flow);
              Some (if dup \<noteq> 0 then flow1\<lparr>fe_dup_acks := 1\<rparr> else flow1, st1, ft1)
            }
        }
      else Some (flow, st, ft))"

text \<open>The body of the raw packet loop; \<open>False\<close>: the frame is not IP and is skipped.\<close>

definition process_packet :: "rx_packet \<Rightarrow> probe \<Rightarrow> (bool \<times> probe) ub" where
  "process_packet rx s = do {
     let pkt_buf = rx_bytes rx;
     let len = int (length pkt_buf);
     let pkt0 = zero_pkt_event\<lparr>pe_timestamp_ns := rx_clock rx 0, pe_pkt_len := of_int len\<rparr>;
     (ok, pkt_p) \<leftarrow> packet_parse_raw (Some pkt_buf) len (Some pkt0);
     pkt \<leftarrow> pkt_p;
     if ok = 0 then Some (False, s)
     else do {
       let flow = packet_to_flow_event pkt (pb_probe_id s);
       flow1 \<leftarrow> main_dns pkt_buf len pkt flow;
       flow2 \<leftarrow> main_http pkt_buf len pkt flow1;
       let ft = flow_tracker_update_single (rx_clock rx 1) (rx_clock rx 2) (pb_tracker s) (packet_key pkt)
                  (ucast (pe_pkt_len pkt)) (pb_probe_id s);
       (flow3, st1, ft1) \<leftarrow> main_retransmit (rx_clock rx 3) pkt_buf len pkt flow2 (pb_statics s) ft;
       let flow_check = packet_to_flow_event pkt (pb_probe_id s);
       (a, ad1, flow4) \<leftarrow> check_flow (rx_clock rx 4) (pb_anomaly s) flow_check;
       Some (True, s\<lparr>pb_tracker := ft1, pb_statics := st1, pb_anomaly := ad1,
                    pb_total_packets := pb_total_packets s + 1\<rparr>)
     }
   }"

text \<open>
  The list holds the frames that \<open>recvfrom\<close> delivers before it returns 0 or less, which ends the loop; a
  packet socket delivers whole frames and so none of length 0.
\<close>

fun raw_packet_loop :: "rx_packet list \<Rightarrow> nat \<Rightarrow> probe \<Rightarrow> (nat \<times> probe) ub" where
  "raw_packet_loop [] n s = Some (n, s)"
| "raw_packet_loop (rx # rxs) n s =
     (if n < 1000 then do {
        (ok, s1) \<leftarrow> process_packet rx s;
        raw_packet_loop rxs (if ok then n + 1 else n) s1
      } else Some (n, s))"

section \<open>Perf buffer events\<close>

text \<open>
  \<open>struct pkt_event_t\<close> at its byte offsets on the little-endian target; bytes 34, 35, 38 and 39 are
  padding.
\<close>

definition pkt_event_of_bytes :: "byte list \<Rightarrow> pkt_event_t" where
  "pkt_event_of_bytes b =
     (let fld = (\<lambda>off n. le_val (take n (drop off b))) in
      \<lparr>pe_timestamp_ns = of_nat (fld 0 8), pe_src_ip = of_nat (fld 8 4), pe_dst_ip = of_nat (fld 12 4),
       pe_src_port = of_nat (fld 16 2), pe_dst_port = of_nat (fld 18 2), pe_protocol = of_nat (fld 20 1),
       pe_tcp_flags = of_nat (fld 21 1), pe_pkt_len = of_nat (fld 22 2), pe_ifindex = of_nat (fld 24 4),
       pe_pid = of_nat (fld 28 4), pe_ip_version = of_nat (fld 32 1), pe_payload_type = of_nat (fld 33 1),
       pe_latency_us = of_nat (fld 36 2)\<rparr>)"

text \<open>The loop over the events; an event with time stamp 0 is skipped.\<close>

fun bpf_event_loop :: "(nat \<Rightarrow> u64 \<times> u64) \<Rightarrow> byte list \<Rightarrow> nat \<Rightarrow> nat \<Rightarrow> string \<Rightarrow> flow_tracker \<Rightarrow> nat \<times> flow_tracker" where
  "bpf_event_loop clock perf_buf i 0 pid ft = (0, ft)"
| "bpf_event_loop clock perf_buf i (Suc left) pid ft =
     (let pkt = pkt_event_of_bytes (take event_size (drop (i * event_size) perf_buf)) in
      if pe_timestamp_ns pkt = 0 then bpf_event_loop clock perf_buf (Suc i) left pid ft
      else let (ts, now) = clock i;
               ft1 = flow_tracker_update_single ts now ft (packet_key pkt) (ucast (pe_pkt_len pkt)) pid;
               (n, ft2) = bpf_event_loop clock perf_buf (Suc i) left pid ft1
           in (n + 1, ft2))"

text \<open>\<open>None\<close>: a read past a ring, or the reading loop does not return.\<close>

definition read_bpf_events :: "int \<Rightarrow> (nat \<Rightarrow> u64 \<times> u64) \<Rightarrow> probe \<Rightarrow> (nat \<times> probe) ub" where
  "read_bpf_events page_size clock s =
     (if bl_perf_map_fd (pb_status s) < 0 then Some (0, s)
      else do {
        res \<leftarrow> bpf_loader_read_perf_events page_size (pb_status s) (32 * 1024) (pb_rings s);
        (ret, nr_events, perf_buf, rings) \<leftarrow> res;
        let s = s\<lparr>pb_rings := rings\<rparr>;
        if ret \<le> 0 \<or> nr_events = 0 then Some (0, s)
        else let (n, ft) = bpf_event_loop clock perf_buf 0 (nat nr_events) (pb_probe_id s) (pb_tracker s)
             in Some (n, s\<lparr>pb_tracker := ft\<rparr>)
      })"

text \<open>The eBPF half of an iteration, up to the \<open>/proc/net\<close> poll.\<close>

definition bpf_stage :: "int \<Rightarrow> (nat \<Rightarrow> u64 \<times> u64) \<Rightarrow> rx_packet list \<Rightarrow> probe \<Rightarrow> probe ub" where
  "bpf_stage page_size clock rxs s = do {
     (pkt_this_round, s1) \<leftarrow> (if 0 \<le> bl_perf_map_fd (pb_status s) then do {
         (n, s') \<leftarrow> read_bpf_events page_size clock s;
         Some (n, s'\<lparr>pb_total_packets := pb_total_packets s' + of_nat n\<rparr>)
       } else Some (0, s));
     (_, s2) \<leftarrow> raw_packet_loop rxs pkt_this_round s1;
     Some s2
   }"

section \<open>Polling, metrics and sending\<close>

text \<open>The four socket tables, read one behind the other into \<open>entries\<close>.\<close>

definition poll_proc_net :: "files \<Rightarrow> u64 \<Rightarrow> (nat \<Rightarrow> u64) \<Rightarrow> probe \<Rightarrow> probe ub" where
  "poll_proc_net files ts now s = do {
     let quarter = int (MAX_FLOWS div 4);
     let e0 = pb_entries s;
     (tcp4, r1) \<leftarrow> proc_net_read_tcp files e0 quarter;
     (udp4, r2) \<leftarrow> proc_net_read_udp files (drop tcp4 r1)
        (quarter - (if int tcp4 < quarter then int tcp4 else quarter));
     let e2 = take tcp4 r1 @ r2;
     (tcp6, r3) \<leftarrow> proc_net_read_tcp6 files (drop (tcp4 + udp4) e2) quarter;
     let e3 = take (tcp4 + udp4) e2 @ r3;
     (udp6, r4) \<leftarrow> proc_net_read_udp6 files (drop (tcp4 + udp4 + tcp6) e3)
        (quarter - (if int tcp6 < quarter then int tcp6 else quarter));
     let e4 = take (tcp4 + udp4 + tcp6) e3 @ r4;
     let total_entries = tcp4 + udp4 + tcp6 + udp6;
     let total_entries = (if MAX_FLOWS < total_entries then MAX_FLOWS else total_entries);
     Some (s\<lparr>pb_entries := e4,
             pb_tracker := snd (flow_tracker_update ts now (pb_tracker s) (take total_entries e4))\<rparr>)
   }"

text \<open>Every 30 seconds: collect metrics and drop stale flows.  The result says whether it was done.\<close>

definition metrics_stage ::
  "files \<Rightarrow> string option \<Rightarrow> u64 \<times> u64 \<Rightarrow> u64 \<times> u64 \<Rightarrow> u64 \<Rightarrow> probe \<Rightarrow> (bool \<times> probe) ub" where
  "metrics_stage files df now collect_ts cleanup_ts s =
     (let now_ns = fst now * 1000000000 + snd now in
      if 30000000000 \<le> now_ns - pb_last_metric_ns s then do {
        (_, metric) \<leftarrow> host_metrics_collect files df collect_ts (pb_metric s) (pb_probe_id s);
        ft \<leftarrow> flow_tracker_cleanup cleanup_ts (Some (pb_tracker s)) (FLOW_CLEANUP_INTERVAL_S * 1000000000);
        Some (True, s\<lparr>pb_metric := metric, pb_last_metric_ns := now_ns, pb_tracker := ft\<rparr>)
      } else Some (False, s))"

text \<open>Connect again if necessary, then send if connected.  The result says whether it was sent.\<close>

definition deliver ::
  "'w sys \<Rightarrow> nat \<Rightarrow> cbuf \<Rightarrow> int \<Rightarrow> tcp_client \<Rightarrow> 'w io \<Rightarrow> (bool \<times> tcp_client \<times> 'w io) ub" where
  "deliver sys fuel json json_len client io = do {
     let (up, tcp, io) = tcp_client_is_connected sys (Some client) io;
     (_, tcp, io) \<leftarrow> (if up then Some (0, tcp, io) else tcp_client_reconnect sys fuel tcp io);
     let (up, tcp, io) = tcp_client_is_connected sys tcp io;
     (_, tcp, io) \<leftarrow> (if up then tcp_client_send sys fuel tcp (Some json) json_len io else Some (0, tcp, io));
     c \<leftarrow> tcp;
     Some (up, c, io)
   }"

definition send_stage :: "'w sys \<Rightarrow> nat \<Rightarrow> bool \<Rightarrow> probe \<Rightarrow> 'w io \<Rightarrow> (probe \<times> 'w io) ub" where
  "send_stage sys fuel mp s io =
     (let (event_count, events) = flow_tracker_get_events (pb_tracker s) (pb_events s) (MAX_FLOWS * 2)
      in if 0 < event_count \<or> mp then do {
           (json_len, json) \<leftarrow> serialize_batch (take event_count events) (if mp then Some (pb_metric s) else None)
              (pb_probe_id s) (pb_json s) (int (MAX_JSON_LEN * 16));
           let s1 = s\<lparr>pb_events := events, pb_json := json, pb_tracker := flow_tracker_flush (pb_tracker s)\<rparr>;
           if 0 < json_len then do {
             (up, c, io) \<leftarrow> deliver sys fuel json json_len (pb_tcp s) io;
             Some (s1\<lparr>pb_tcp := c, pb_total_events := pb_total_events s + (if up then of_nat event_count else 0)\<rparr>, io)
           } else Some (s1, io)
         } else Some (s\<lparr>pb_events := events\<rparr>, io))"

definition stats_stage :: "probe \<Rightarrow> string" where
  "stats_stage s =
     (if 0 < pb_total_events s \<and> pb_total_events s mod 500 = 0 then
        let (active, pending) = flow_tracker_get_stats (pb_tracker s) (Some 0) (Some 0) in
        ''[STATS] mode='' @ (if pb_use_bpf s then ''eBPF'' else ''proc.net'') @ '' active_flows='' @
        (case active of Some a \<Rightarrow> show_int a | None \<Rightarrow> []) @ '' events='' @ show_word (pb_total_events s) @
        '' pkts='' @ show_word (pb_total_packets s) @ [CHR 0x0A] @ anomaly_detector_print_stats (Some (pb_anomaly s))
      else [])"

text \<open>What the environment supplies to one iteration.\<close>

record tick =
  tk_packets :: "rx_packet list"
  tk_files :: files
  tk_df :: "string option"
  tk_now :: "u64 \<times> u64"
  tk_collect :: "u64 \<times> u64"
  tk_cleanup :: u64
  tk_update :: u64
  tk_update_now :: "nat \<Rightarrow> u64"
  tk_kernel :: "(int \<Rightarrow> perf_ring) \<Rightarrow> int \<Rightarrow> perf_ring"
  tk_perf_clock :: "nat \<Rightarrow> u64 \<times> u64"

definition main_iteration ::
  "'w sys \<Rightarrow> int \<Rightarrow> nat \<Rightarrow> tick \<Rightarrow> probe \<Rightarrow> 'w io \<Rightarrow> (string \<times> probe \<times> 'w io) ub" where
  "main_iteration sys page_size fuel t s io = do {
     let s = s\<lparr>pb_rings := tk_kernel t (pb_rings s)\<rparr>;
     s1 \<leftarrow> (if pb_use_bpf s then bpf_stage page_size (tk_perf_clock t) (tk_packets t) s else Some s);
     s2 \<leftarrow> poll_proc_net (tk_files t) (tk_update t) (tk_update_now t) s1;
     (mp, s3) \<leftarrow> metrics_stage (tk_files t) (tk_df t) (tk_now t) (tk_collect t) (tk_cleanup t) s2;
     (s4, io4) \<leftarrow> send_stage sys fuel mp s3 io;
     Some (stats_stage s4, s4, io4)
   }"

text \<open>
  \<open>read_raw_packets\<close>, which the main loop does not call: the flow key has no IP version and the
  packet length is 0.
\<close>

fun read_raw_packets :: "rx_packet list \<Rightarrow> string \<Rightarrow> flow_tracker \<Rightarrow> (nat \<times> flow_tracker) ub" where
  "read_raw_packets [] pid ft = Some (0, ft)"
| "read_raw_packets (rx # rxs) pid ft = do {
     (ok, pkt_p) \<leftarrow> packet_parse_raw (Some (rx_bytes rx)) (int (length (rx_bytes rx)))
        (Some (zero_pkt_event\<lparr>pe_timestamp_ns := rx_clock rx 0\<rparr>));
     pkt \<leftarrow> pkt_p;
     if ok = 0 then read_raw_packets rxs pid ft
     else do {
       (n, ft1) \<leftarrow> read_raw_packets rxs pid
          (flow_tracker_update_single (rx_clock rx 1) (rx_clock rx 2) ft ((packet_key pkt)\<lparr>fk_ip_version := 0\<rparr>)
             (ucast (pe_pkt_len pkt)) pid);
       Some (n + 1, ft1)
     }
   }"

section \<open>Start and end\<close>

datatype start_action = PrintHelp | PrintVersion | Run string string

text \<open>
  The command line from \<open>argv[1]\<close> on: interface and object file.  An option's argument is not
  examined again; the next argument is.
\<close>

function parse_args :: "string list \<Rightarrow> string \<Rightarrow> string \<Rightarrow> start_action" where
  "parse_args [] ifname bpf_path = Run ifname bpf_path"
| "parse_args (a # as) ifname bpf_path =
     (if a = ''-h'' \<or> a = ''--help'' then PrintHelp
      else if a = ''-v'' then PrintVersion
      else
        let (a1, as1, ifname1) = (if a = ''-i'' \<and> as \<noteq> [] then (hd as, tl as, hd as) else (a, as, ifname));
            (as2, bpf_path1) = (if a1 = ''-b'' \<and> as1 \<noteq> [] then (tl as1, hd as1) else (as1, bpf_path))
        in parse_args as2 ifname1 bpf_path1)"
  by pat_completeness auto
termination
  by (relation "measure (\<lambda>(as, _). length as)") (auto split: if_splits simp: Let_def)

definition main_args :: "environ \<Rightarrow> string list \<Rightarrow> start_action" where
  "main_args env argv =
     (case parse_args argv ''eth0'' ''./bpf/stb_socket_filter.bpf.o'' of
        Run ifname bpf_path \<Rightarrow>
          Run (case env ''STB_IFACE'' of Some v \<Rightarrow> if v \<noteq> [] then v else ifname | None \<Rightarrow> ifname) bpf_path
      | a \<Rightarrow> a)"

text \<open>Which allocations succeed, and the contents of \<open>main\<close>'s local variables before they are written.\<close>

record allocs =
  al_tracker :: "nat \<Rightarrow> bool"
  al_tcp :: bool
  al_anomaly :: bool
  al_elf :: "nat \<Rightarrow> bool"

record main_locals =
  ml_cfg :: stb_config
  ml_entries :: "proc_net_entry list"
  ml_events :: "flow_event_t list"
  ml_metric :: host_metric_t
  ml_json :: cbuf

datatype started = Exit int | Started probe

definition main_start ::
  "'w sys \<Rightarrow> 'w bpf_sys \<Rightarrow> allocs \<Rightarrow> (string \<Rightarrow> byte list option) \<Rightarrow> environ \<Rightarrow> string list \<Rightarrow> main_locals \<Rightarrow>
   'w io \<Rightarrow> (started \<times> 'w io) ub" where
  "main_start sys bsys al objs env argv loc io = do {
     (cfg, _) \<leftarrow> config_load_from_env env (ml_cfg loc);
     case main_args env argv of
       PrintHelp \<Rightarrow> Some (Exit 0, io)
     | PrintVersion \<Rightarrow> Some (Exit 0, io)
     | Run ifname bpf_path \<Rightarrow> do {
         ip \<leftarrow> c_string (relay_server_ip cfg);
         pid \<leftarrow> c_string (probe_id cfg);
         case flow_tracker_create (al_tracker al) MAX_FLOWS of
           None \<Rightarrow> Some (Exit 1, io)
         | Some tracker \<Rightarrow>
             (case tcp_client_init (al_tcp al) (Some ip) (relay_server_port cfg) True of
                None \<Rightarrow> Some (Exit 1, io)
              | Some tcp \<Rightarrow> do {
                  (_, tcp_p, io1) \<leftarrow> tcp_client_connect sys (Some tcp) io;
                  tcp1 \<leftarrow> tcp_p;
                  case anomaly_detector_create (al_anomaly al) of
                    None \<Rightarrow> Some (Exit 1, io1)
                  | Some anomaly \<Rightarrow> do {
                      (r, status, io2) \<leftarrow> bpf_loader_init bsys (al_elf al) objs ifname bpf_path io1;
                      Some (Started \<lparr>pb_probe_id = pid, pb_use_bpf = (r = 0), pb_status = status,
                        pb_rings = (\<lambda>_. \<lparr>pr_head = 0, pr_tail = 0, pr_data = []\<rparr>),
                        pb_tracker = tracker, pb_statics = init_statics, pb_anomaly = anomaly, pb_tcp = tcp1,
                        pb_entries = ml_entries loc, pb_events = ml_events loc, pb_metric = ml_metric loc,
                        pb_json = ml_json loc, pb_last_metric_ns = 0, pb_total_events = 0,
                        pb_total_packets = 0\<rparr>, io2)
                    }
                })
       }
   }"

text \<open>The iterations until \<open>g_stop\<close> is set, then the clean-up.\<close>

fun main_loop :: "'w sys \<Rightarrow> int \<Rightarrow> nat \<Rightarrow> tick list \<Rightarrow> probe \<Rightarrow> 'w io \<Rightarrow> (probe \<times> 'w io) ub" where
  "main_loop sys page_size fuel [] s io = Some (s, io)"
| "main_loop sys page_size fuel (t # ts) s io = do {
     (_, s1, io1) \<leftarrow> main_iteration sys page_size fuel t s io;
     main_loop sys page_size fuel ts s1 io1
   }"

definition main_shutdown :: "'w sys \<Rightarrow> 'w bpf_sys \<Rightarrow> nat \<Rightarrow> probe \<Rightarrow> 'w io \<Rightarrow> 'w io ub" where
  "main_shutdown sys bsys fuel s io =
     (let io1 = (if pb_use_bpf s then snd (bpf_loader_cleanup bsys (Some (pb_status s)) io) else io)
      in map_option snd (tcp_client_cleanup sys fuel (Some (pb_tcp s)) io1))"

text \<open>\<open>main\<close>: the exit status and the operating system afterwards.\<close>

definition main_prog ::
  "'w sys \<Rightarrow> 'w bpf_sys \<Rightarrow> nat \<Rightarrow> allocs \<Rightarrow> (string \<Rightarrow> byte list option) \<Rightarrow> environ \<Rightarrow> string list \<Rightarrow> main_locals \<Rightarrow>
   tick list \<Rightarrow> 'w io \<Rightarrow> (int \<times> 'w io) ub" where
  "main_prog sys bsys fuel al objs env argv loc ts io = do {
     (st, io1) \<leftarrow> main_start sys bsys al objs env argv loc io;
     case st of
       Exit r \<Rightarrow> Some (r, io1)
     | Started s \<Rightarrow> do {
         (s1, io2) \<leftarrow> main_loop sys (bs_page_size bsys) fuel ts s io1;
         io3 \<leftarrow> main_shutdown sys bsys fuel s1 io2;
         Some (0, io3)
       }
   }"

section \<open>Invariant\<close>

text \<open>
  The invariants of the components, and room for \<open>n\<close> more packets before one of the C \<open>int\<close>
  counters (the index of the static ACK array, the three anomaly counts) overflows.
\<close>

definition pb_inv :: "probe \<Rightarrow> bool" where
  "pb_inv s \<longleftrightarrow> ft_state_inv (pb_statics s, pb_tracker s) \<and> ad_inv (pb_anomaly s)"

definition pb_room :: "nat \<Rightarrow> probe \<Rightarrow> bool" where
  "pb_room n s \<longleftrightarrow> flow_idx (pb_statics s) + int n \<le> INT_MAX \<and> ad_scan_count (pb_anomaly s) + int n \<le> INT_MAX \<and>
     ad_spike_count (pb_anomaly s) + int n \<le> INT_MAX \<and> ad_drop_count (pb_anomaly s) + int n \<le> INT_MAX"

definition rx_event :: "rx_packet \<Rightarrow> pkt_event_t" where
  "rx_event rx = zero_pkt_event\<lparr>pe_timestamp_ns := rx_clock rx 0, pe_pkt_len := of_nat (length (rx_bytes rx))\<rparr>"

definition ip_frame :: "rx_packet \<Rightarrow> bool" where
  "ip_frame rx \<longleftrightarrow>
     (case packet_parse_raw (Some (rx_bytes rx)) (int (length (rx_bytes rx))) (Some (rx_event rx)) of
        Some (ok, _) \<Rightarrow> ok \<noteq> 0 | None \<Rightarrow> False)"

text \<open>What an iteration leaves alone before its sending stage.\<close>

definition same_handles :: "probe \<Rightarrow> probe \<Rightarrow> bool" where
  "same_handles s s' \<longleftrightarrow> pb_tcp s' = pb_tcp s \<and> pb_use_bpf s' = pb_use_bpf s \<and> pb_status s' = pb_status s \<and>
     pb_total_events s' = pb_total_events s"

text \<open>
  A small environment for the examples: a command line without options, no files, one iteration
  without packets, and the system of the TCP client with the loader's calls on the same descriptors.
\<close>

definition ex_main_bpf :: "ex_world bpf_sys" where
  "ex_main_bpf =
     (let open_fd = (\<lambda>w. let fd = Max (set (0 # ew_fds w)) + 1 in (fd, 0, w\<lparr>ew_fds := fd # ew_fds w\<rparr>)) in
      \<lparr>bs_prog_load = (\<lambda>_ _. open_fd), bs_log = (\<lambda>_. []), bs_socket = open_fd, bs_ifreq = (\<lambda>_ _. ex_ok),
       bs_ifindex = (\<lambda>_. 2), bs_bind = (\<lambda>_ _. ex_ok), bs_attach = (\<lambda>_ _. ex_ok),
       bs_close = (\<lambda>fd w. (0, 0, w\<lparr>ew_fds := removeAll fd (ew_fds w)\<rparr>)), bs_perf_open = (\<lambda>_. open_fd),
       bs_map_update = (\<lambda>_ _ _. ex_ok), bs_mmap = (\<lambda>_ _. ex_ok), bs_munmap = (\<lambda>_ _. ex_ok),
       bs_prog_load_empty = ex_ok, bs_strerror = (\<lambda>_. []), bs_page_size = 4096, bs_nprocs = 4\<rparr>)"

text \<open>An IPv4 frame with an empty TCP segment.\<close>

definition ex_rx :: rx_packet where
  "ex_rx = \<lparr>rx_bytes = replicate 12 0 @ [0x08, 0x00, 0x45, 0, 0, 40, 0, 0, 0, 0, 64, 6] @ replicate 30 0, rx_clock = (\<lambda>_. 7)\<rparr>"

definition ex_tick :: tick where
  "ex_tick = \<lparr>tk_packets = [], tk_files = Map.empty, tk_df = None, tk_now = (0, 0), tk_collect = (0, 0),
     tk_cleanup = 0, tk_update = 0, tk_update_now = (\<lambda>_. 0), tk_kernel = id, tk_perf_clock = (\<lambda>_. (0, 0))\<rparr>"

definition ex_allocs :: allocs where
  "ex_allocs = \<lparr>al_tracker = (\<lambda>_. True), al_tcp = True, al_anomaly = True, al_elf = (\<lambda>_. True)\<rparr>"

definition ex_locals :: main_locals where
  "ex_locals = \<lparr>ml_cfg = \<lparr>relay_server_ip = zbuf 64, relay_server_port = 0, probe_id = zbuf 64, log_level = 0\<rparr>,
     ml_entries = [], ml_events = [], ml_metric = ex_metric, ml_json = []\<rparr>"

definition ex_probe :: "tcp_client \<Rightarrow> probe" where
  "ex_probe c = \<lparr>pb_probe_id = ''stb'', pb_use_bpf = True,
     pb_status = zero_status\<lparr>bl_socket_fd := 5, bl_perf_map_fd := - 1, bl_bpf_prog_fd := 4, bl_use_bpf := 1\<rparr>,
     pb_rings = (\<lambda>_. \<lparr>pr_head = 0, pr_tail = 0, pr_data = []\<rparr>), pb_tracker = ex_ft, pb_statics = init_statics,
     pb_anomaly = ex_ad, pb_tcp = c, pb_entries = [], pb_events = [], pb_metric = ex_metric, pb_json = [],
     pb_last_metric_ns = 0, pb_total_events = 0, pb_total_packets = 0\<rparr>"

section \<open>Lemmas\<close>

lemma packet_parse_raw_event:
  "packet_parse_raw (Some p) len (Some e) = Some (ok, x) \<Longrightarrow> \<exists>e'. x = Some e'"
  unfolding packet_parse_raw_def Let_def
  by (auto simp: map_prod_def split: if_split_asm prod.splits Option.bind_split_asm)

lemma packet_parse_raw_defined:
  assumes "len \<le> int (length p)"
  shows "\<exists>ok e'. packet_parse_raw (Some p) len (Some e) = Some (ok, Some e')"
proof -
  have "packet_parse_raw (Some p) len (Some e) \<noteq> None"
    using parse_ipv4_safe [of len p] parse_ipv6_safe [of len p] assms
    by (auto simp: packet_parse_raw_def rd_def Let_def split: option.splits)
  then obtain ok x where "packet_parse_raw (Some p) len (Some e) = Some (ok, x)" by (metis not_Some_eq surj_pair)
  with packet_parse_raw_event [OF this] show ?thesis by auto
qed

lemma main_eth_len_safe: "main_eth_len p (int (length p)) = Some 14 \<or> main_eth_len p (int (length p)) = Some 18"
proof -
  obtain v where "seq_has_vlan p (int (length p)) = Some v"
    using seq_has_vlan_safe [of "int (length p)" p] by blast
  then show ?thesis by (cases v) (simp_all add: main_eth_len_def)
qed

lemma main_dns_safe: "\<exists>f. main_dns p (int (length p)) pkt flow = Some f"
proof -
  have dns: "\<exists>f. do { f \<leftarrow> parse_dns_payload (Some (drop n p)) (int (length p) - int n) (Some flow) r; f } = Some f"
    if "int n < int (length p)" for n r
    using parse_dns_payload_safe [of "int (length p) - int n" "drop n p" flow r] that by auto
  obtain n where "main_eth_len p (int (length p)) = Some n" using main_eth_len_safe [of p] by auto
  then show ?thesis using dns [of "n + 20 + 8"] by (simp add: main_dns_def Let_def)
qed

lemma main_http_safe: "\<exists>f. main_http p (int (length p)) pkt flow = Some f"
proof -
  have http: "\<exists>f. do { f \<leftarrow> parse_http_payload (Some (drop n p)) (int (length p) - int n) (Some flow) r; f } = Some f"
    if "int n < int (length p)" for n r
    using parse_http_payload_safe [of "int (length p) - int n" "drop n p" flow r] that by auto
  obtain n where n: "main_eth_len p (int (length p)) = Some n" using main_eth_len_safe [of p] by auto
  have "\<exists>f. (if int (t + 20) \<le> int (length p) then do {
            b \<leftarrow> rd p (t + 12);
            let http_offset = t + unat (drop_bit 4 b AND 0x0F) * 4;
            if int http_offset < int (length p) then do {
              f \<leftarrow> parse_http_payload (Some (drop http_offset p)) (int (length p) - int http_offset) (Some flow) r;
              f
            } else Some flow
          } else Some flow) = Some f" for t r
    using http [of "t + unat (drop_bit 4 (p ! (t + 12)) AND 0x0F) * 4" r] by (auto simp: rd_def Let_def simp del: of_nat_unat)
  then show ?thesis unfolding main_http_def n Let_def by simp
qed

lemma check_retransmit_defined:
  assumes "0 \<le> flow_idx st" "flow_idx st < INT_MAX"
  shows "\<exists>ret retx dup st' ft'. check_retransmit now st ft k seq len flags = Some (ret, retx, dup, st', ft') \<and>
    flow_idx st' \<le> flow_idx st + 1"
proof -
  have ack: "\<exists>dup st' ft'. check_pure_ack st t i seq = Some (dup, st', ft') \<and> flow_idx st' \<le> flow_idx st + 1" for t i
    using assms unfolding check_pure_ack_def Let_def by simp
  define ok where "ok = (\<lambda>x :: (int \<times> int \<times> int \<times> retx_statics \<times> flow_tracker) option.
    \<exists>ret retx dup st' ft'. x = Some (ret, retx, dup, st', ft') \<and> flow_idx st' \<le> flow_idx st + 1)"
  have ok [intro]: "ok (Some (a, b, c, st, t))" "ok (map_option (\<lambda>(dup, st, ft). (0, 0, dup, st, ft)) (check_pure_ack st t i seq))"
    for a b c t i
  proof -
    show "ok (Some (a, b, c, st, t))" by (simp add: ok_def)
    obtain d s' t' where "check_pure_ack st t i seq = Some (d, s', t')" "flow_idx s' \<le> flow_idx st + 1"
      using ack [of t i] by blast
    then show "ok (map_option (\<lambda>(dup, st, ft). (0, 0, dup, st, ft)) (check_pure_ack st t i seq))"
      by (simp add: ok_def)
  qed
  have ite: "ok x \<Longrightarrow> ok y \<Longrightarrow> ok (if b then x else y)" for b x y by simp
  obtain r t where f: "find_record now ft k = (r, t)" by (rule prod.exhaust)
  have "ok (check_retransmit now st ft k seq len flags)"
  proof (cases r)
    case None
    then show ?thesis by (simp add: check_retransmit_def f ok)
  next
    case (Some i)
    show ?thesis unfolding check_retransmit_def f Let_def prod.case Some option.case by (intro ite ok)
  qed
  then show ?thesis unfolding ok_def .
qed

lemma main_retransmit_safe:
  assumes "ft_state_inv (st, ft)" "flow_idx st < INT_MAX"
  shows "\<exists>fl st' ft'. main_retransmit now p (int (length p)) pkt flow st ft = Some (fl, st', ft') \<and>
    ft_state_inv (st', ft') \<and> flow_idx st' \<le> flow_idx st + 1"
proof -
  obtain sq where sq: "extract_tcp_seq_num p (int (length p)) pkt = Some sq"
    using extract_tcp_seq_num_safe [of "int (length p)" p pkt] by auto
  show ?thesis
  proof (cases "pe_protocol pkt = IPPROTO_TCP \<and> sq \<noteq> None")
    case False
    then consider "pe_protocol pkt \<noteq> IPPROTO_TCP" | "sq = None" by blast
    then show ?thesis using sq assms by cases (simp_all add: main_retransmit_def)
  next
    case True
    then obtain n len fl where sq': "sq = Some (n, len, fl)" by auto
    have idx: "0 \<le> flow_idx st" using assms(1) by (simp add: ft_state_inv_def)
    obtain ret retx dup st' ft' where c: "check_retransmit now st ft (packet_key pkt) n len fl = Some (ret, retx, dup, st', ft')"
      "flow_idx st' \<le> flow_idx st + 1"
      using check_retransmit_defined [OF idx assms(2)] by blast
    have "ft_state_inv (st', ft')"
      using ft_inv_check_retransmit [OF _ c(1)] statics_check_retransmit [OF c(1)] assms by (simp add: ft_state_inv_def)
    with True sq sq' c show ?thesis by (simp add: main_retransmit_def Let_def)
  qed
qed

lemma process_packet_safe:
  assumes "pb_inv s" "pb_room (Suc n) s"
  shows "\<exists>s'. process_packet rx s = Some (ip_frame rx, s') \<and> pb_inv s' \<and> pb_room n s' \<and>
    pb_total_packets s' = pb_total_packets s + of_bool (ip_frame rx) \<and> (\<not> ip_frame rx \<longrightarrow> s' = s) \<and>
    s' = s\<lparr>pb_tracker := pb_tracker s', pb_statics := pb_statics s', pb_anomaly := pb_anomaly s',
      pb_total_packets := pb_total_packets s'\<rparr>"
proof -
  define p where "p = rx_bytes rx"
  obtain ok pkt where parse: "packet_parse_raw (Some p) (int (length p)) (Some (rx_event rx)) = Some (ok, Some pkt)"
    using packet_parse_raw_defined [of "int (length p)" p] by blast
  then have ip: "ip_frame rx \<longleftrightarrow> ok \<noteq> 0" by (simp add: ip_frame_def p_def)
  have ev: "zero_pkt_event\<lparr>pe_timestamp_ns := rx_clock rx 0, pe_pkt_len := of_int (int (length p))\<rparr> = rx_event rx"
    by (simp add: rx_event_def p_def)
  show ?thesis
  proof (cases "ok = 0")
    case True
    then have "process_packet rx s = Some (False, s)"
      unfolding process_packet_def Let_def p_def [symmetric] ev by (simp add: parse)
    then show ?thesis using assms True ip by (auto simp: pb_room_def)
  next
    case False
    define flow where "flow = packet_to_flow_event pkt (pb_probe_id s)"
    obtain f1 where f1: "main_dns p (int (length p)) pkt flow = Some f1" using main_dns_safe by blast
    obtain f2 where f2: "main_http p (int (length p)) pkt f1 = Some f2" using main_http_safe by blast
    define ft where "ft = flow_tracker_update_single (rx_clock rx 1) (rx_clock rx 2) (pb_tracker s) (packet_key pkt)
                  (ucast (pe_pkt_len pkt)) (pb_probe_id s)"
    have ft: "ft_state_inv (pb_statics s, ft)" "flow_idx (pb_statics s) < INT_MAX"
      using assms ft_inv_update_single by (auto simp: pb_inv_def ft_state_inv_def ft_def pb_room_def)
    obtain f3 st' ft' where rt: "main_retransmit (rx_clock rx 3) p (int (length p)) pkt f2 (pb_statics s) ft = Some (f3, st', ft')"
      "ft_state_inv (st', ft')" "flow_idx st' \<le> flow_idx (pb_statics s) + 1"
      using main_retransmit_safe [OF ft] by blast
    have "ad_inv (pb_anomaly s)" "counts_below (pb_anomaly s)"
      using assms by (auto simp: pb_inv_def pb_room_def counts_below_def)
    from check_flow_spec [OF this, of "rx_clock rx 4" flow] obtain a ad' f4 where
      cf: "check_flow (rx_clock rx 4) (pb_anomaly s) flow = Some (a, ad', f4)" "ad_inv ad'"
        "ad_scan_count ad' \<le> ad_scan_count (pb_anomaly s) + 1" "ad_spike_count ad' \<le> ad_spike_count (pb_anomaly s) + 1"
        "ad_drop_count ad' \<le> ad_drop_count (pb_anomaly s) + 1"
      by (auto simp: counts_def)
    define s' where "s' = s\<lparr>pb_tracker := ft', pb_statics := st', pb_anomaly := ad', pb_total_packets := pb_total_packets s + 1\<rparr>"
    have "process_packet rx s = Some (True, s')"
      unfolding process_packet_def Let_def p_def [symmetric] ev
      by (simp add: parse False flow_def [symmetric] f1 f2 ft_def [symmetric] rt(1) cf(1) s'_def del: One_nat_def)
    moreover have "pb_inv s'" "pb_room n s'"
      using assms rt cf by (auto simp: s'_def pb_inv_def pb_room_def)
    ultimately show ?thesis using False ip by (auto simp: s'_def)
  qed
qed

text \<open>The packet loop handles exactly the first IP frames, up to 1000 in a round.\<close>

lemma raw_packet_loop_safe:
  assumes "pb_inv s" "pb_room (1000 - n) s" "n \<le> 1000"
  shows "\<exists>s' k. raw_packet_loop rxs n s = Some (n + k, s') \<and> k = min (1000 - n) (length (filter ip_frame rxs)) \<and>
    pb_inv s' \<and> pb_room (1000 - n - k) s' \<and> pb_total_packets s' = pb_total_packets s + of_nat k \<and>
    s' = s\<lparr>pb_tracker := pb_tracker s', pb_statics := pb_statics s', pb_anomaly := pb_anomaly s',
      pb_total_packets := pb_total_packets s'\<rparr>"
  using assms
proof (induction rxs arbitrary: n s)
  case Nil
  then show ?case by simp
next
  case (Cons rx rxs)
  show ?case
  proof (cases "n < 1000")
    case False
    with Cons.prems show ?thesis by simp
  next
    case True
    then have "pb_room (Suc (1000 - Suc n)) s" using Cons.prems by (simp only: Suc_diff_Suc)
    from process_packet_safe [OF Cons.prems(1) this, of rx] obtain s1 where
      s1: "process_packet rx s = Some (ip_frame rx, s1)" "pb_inv s1" "pb_room (1000 - Suc n) s1"
        "pb_total_packets s1 = pb_total_packets s + of_bool (ip_frame rx)" "\<not> ip_frame rx \<longrightarrow> s1 = s"
        "s1 = s\<lparr>pb_tracker := pb_tracker s1, pb_statics := pb_statics s1, pb_anomaly := pb_anomaly s1,
          pb_total_packets := pb_total_packets s1\<rparr>"
      by blast
    let ?n = "if ip_frame rx then n + 1 else n"
    have step: "raw_packet_loop (rx # rxs) n s = raw_packet_loop rxs ?n s1" using True s1(1) by simp
    have "pb_room (1000 - ?n) s1" "?n \<le> 1000" using s1(3,5) Cons.prems(2) True by auto
    from Cons.IH [OF s1(2) this] obtain s' k where
      k: "raw_packet_loop rxs ?n s1 = Some (?n + k, s')" "k = min (1000 - ?n) (length (filter ip_frame rxs))"
        "pb_inv s'" "pb_room (1000 - ?n - k) s'" "pb_total_packets s' = pb_total_packets s1 + of_nat k"
        "s' = s1\<lparr>pb_tracker := pb_tracker s', pb_statics := pb_statics s', pb_anomaly := pb_anomaly s',
          pb_total_packets := pb_total_packets s'\<rparr>"
      by blast
    have frame: "s' = s\<lparr>pb_tracker := pb_tracker s', pb_statics := pb_statics s', pb_anomaly := pb_anomaly s',
          pb_total_packets := pb_total_packets s'\<rparr>"
      by (subst k(6), subst s1(6)) simp
    show ?thesis
      by (rule exI [of _ s'], rule exI [of _ "k + of_bool (ip_frame rx)"])
         (use True step k s1(4) frame in \<open>auto simp: add_ac\<close>)
  qed
qed

text \<open>Each call of the client keeps its invariant.\<close>

lemma is_connected_inv:
  assumes "tcp_state_inv sys opens B (c, io)" "tcp_client_is_connected sys (Some c) io = (up, tcp, io')"
  shows "\<exists>c'. tcp = Some c' \<and> tcp_state_inv sys opens B (c', io')"
proof -
  obtain c' where c': "tcp = Some c'"
    using assms(2) by (auto simp: tcp_client_is_connected_def split: if_split_asm prod.split_asm)
  then show ?thesis
    using tcp_calls.step_inv [OF tcp_call.poll assms(1)] assms(2) by blast
qed

lemma reconnect_inv:
  assumes "tcp_state_inv sys opens B (c, io)" "tcp_client_reconnect sys n (Some c) io = Some (r, tcp, io')"
  shows "\<exists>c'. tcp = Some c' \<and> tcp_state_inv sys opens B (c', io')"
  using assms(2) tcp_calls.step_inv [OF tcp_call.reconnect assms(1)]
  by (auto simp: tcp_client_reconnect_def)

lemma send_inv:
  assumes "tcp_state_inv sys opens B (c, io)" "tcp_client_send sys n (Some c) (Some d) len io = Some (r, tcp, io')"
  shows "\<exists>c'. tcp = Some c' \<and> tcp_state_inv sys opens B (c', io')"
proof (cases "len \<le> 0")
  case True
  with assms have "tcp = Some c" "io' = set_errno EINVAL io" by (auto simp: tcp_client_send_def)
  with assms(1) show ?thesis by (simp add: tcp_state_inv_def owns_def set_errno_def)
next
  case False
  with assms(2) tcp_calls.step_inv [OF tcp_call.send assms(1)] show ?thesis
    by (auto simp: tcp_client_send_def)
qed

lemma deliver_inv:
  assumes "tcp_state_inv sys opens B (c, io)" "deliver sys n json len c io = Some (up, c', io')"
  shows "tcp_state_inv sys opens B (c', io')"
proof -
  obtain up1 t1 io1 where 1: "tcp_client_is_connected sys (Some c) io = (up1, t1, io1)" by (metis prod_cases3)
  obtain c1 where c1: "t1 = Some c1" "tcp_state_inv sys opens B (c1, io1)" using is_connected_inv [OF assms(1) 1] by blast
  obtain r t2 io2 where 2: "(if up1 then Some (0, t1, io1) else tcp_client_reconnect sys n t1 io1) = Some (r, t2, io2)"
    using assms(2) by (auto simp: deliver_def Let_def 1 split: Option.bind_split_asm)
  obtain c2 where c2: "t2 = Some c2" "tcp_state_inv sys opens B (c2, io2)"
    using 2 c1 reconnect_inv [OF c1(2), of n r t2 io2] by (cases up1) auto
  obtain up3 t3 io3 where 3: "tcp_client_is_connected sys (Some c2) io2 = (up3, t3, io3)" by (metis prod_cases3)
  obtain c3 where c3: "t3 = Some c3" "tcp_state_inv sys opens B (c3, io3)" using is_connected_inv [OF c2(2) 3] by blast
  obtain r4 t4 io4 where 4: "(if up3 then tcp_client_send sys n t3 (Some json) len io3 else Some (0, t3, io3)) = Some (r4, t4, io4)"
    using assms(2) by (auto simp: deliver_def Let_def 1 2 3 c2 split: Option.bind_split_asm)
  obtain c4 where c4: "t4 = Some c4" "tcp_state_inv sys opens B (c4, io4)"
    using 4 c3 send_inv [OF c3(2), of n json len r4 t4 io4] by (cases up3) auto
  show ?thesis
    using assms(2) 4 c4 by (simp add: deliver_def Let_def 1 2 3 c2)
qed

lemma same_handles_trans [trans]: "same_handles s s' \<Longrightarrow> same_handles s' s'' \<Longrightarrow> same_handles s s''"
  by (simp add: same_handles_def)

lemma process_packet_handles: "process_packet rx s = Some (ok, s') \<Longrightarrow> same_handles s s'"
  by (auto simp: process_packet_def Let_def same_handles_def split: if_split_asm Option.bind_split_asm prod.split_asm)

lemma raw_packet_loop_handles: "raw_packet_loop rxs n s = Some (n', s') \<Longrightarrow> same_handles s s'"
proof (induction rxs arbitrary: n s)
  case (Cons rx rxs)
  show ?case
  proof (cases "n < 1000")
    case True
    with Cons.prems obtain ok s1 where "process_packet rx s = Some (ok, s1)"
      "raw_packet_loop rxs (if ok then n + 1 else n) s1 = Some (n', s')"
      by (auto split: Option.bind_split_asm)
    then show ?thesis using Cons.IH process_packet_handles same_handles_trans by blast
  qed (use Cons.prems in \<open>simp add: same_handles_def\<close>)
qed (simp add: same_handles_def)

lemma read_bpf_events_handles: "read_bpf_events page_size clock s = Some (n, s') \<Longrightarrow> same_handles s s'"
  by (auto simp: read_bpf_events_def Let_def same_handles_def split: if_split_asm Option.bind_split_asm prod.split_asm)

lemma bpf_stage_handles:
  assumes "bpf_stage page_size clock rxs s = Some s'"
  shows "same_handles s s'"
proof -
  obtain n s1 where 1: "(if 0 \<le> bl_perf_map_fd (pb_status s) then do {
         (n, s') \<leftarrow> read_bpf_events page_size clock s;
         Some (n, s'\<lparr>pb_total_packets := pb_total_packets s' + of_nat n\<rparr>)
       } else Some (0, s)) = Some (n, s1)" and 2: "\<exists>n'. raw_packet_loop rxs n s1 = Some (n', s')"
    using assms unfolding bpf_stage_def by (auto split: Option.bind_split_asm)
  have "same_handles s s1"
    using 1 read_bpf_events_handles [of page_size clock s]
    by (fastforce simp: same_handles_def split: if_split_asm Option.bind_split_asm)
  with 2 show ?thesis using raw_packet_loop_handles same_handles_trans by blast
qed

lemma same_handles_entries: "same_handles s (s\<lparr>pb_entries := es, pb_tracker := ft\<rparr>)"
  by (simp add: same_handles_def)

lemma poll_proc_net_handles: "poll_proc_net files ts now s = Some s' \<Longrightarrow> same_handles s s'"
  unfolding poll_proc_net_def Let_def split_def
  by (simp only: bind_eq_Some_conv, elim exE conjE) (simp only: option.inject, erule subst, rule same_handles_entries)

lemma metrics_stage_handles: "metrics_stage files df now c1 c2 s = Some (mp, s') \<Longrightarrow> same_handles s s'"
  by (auto simp: metrics_stage_def Let_def same_handles_def split: if_split_asm Option.bind_split_asm)

lemma send_stage_cases:
  assumes "send_stage sys fuel mp s io = Some (s', io')"
  obtains (idle) evs where "\<not> mp" "flow_tracker_get_events (pb_tracker s) (pb_events s) (MAX_FLOWS * 2) = (0, evs)"
      "s' = s\<lparr>pb_events := evs\<rparr>" "io' = io"
    | (empty) n evs json where "0 < n \<or> mp" "flow_tracker_get_events (pb_tracker s) (pb_events s) (MAX_FLOWS * 2) = (n, evs)"
      "s' = s\<lparr>pb_events := evs, pb_json := json, pb_tracker := flow_tracker_flush (pb_tracker s)\<rparr>" "io' = io"
    | (batch) n evs len json up c where "0 < n \<or> mp"
      "flow_tracker_get_events (pb_tracker s) (pb_events s) (MAX_FLOWS * 2) = (n, evs)"
      "serialize_batch (take n evs) (if mp then Some (pb_metric s) else None) (pb_probe_id s) (pb_json s)
         (int (MAX_JSON_LEN * 16)) = Some (len, json)"
      "0 < len" "deliver sys fuel json len (pb_tcp s) io = Some (up, c, io')"
      "s' = s\<lparr>pb_events := evs, pb_json := json, pb_tracker := flow_tracker_flush (pb_tracker s), pb_tcp := c,
         pb_total_events := pb_total_events s + (if up then of_nat n else 0)\<rparr>"
proof -
  obtain n evs where n: "flow_tracker_get_events (pb_tracker s) (pb_events s) (MAX_FLOWS * 2) = (n, evs)" by (rule prod.exhaust)
  obtain ser where ser: "ser = serialize_batch (take n evs) (if mp then Some (pb_metric s) else None) (pb_probe_id s)
      (pb_json s) (int (MAX_JSON_LEN * 16))" by blast
  note st = assms [unfolded send_stage_def n Let_def prod.case ser [symmetric]]
  show thesis
  proof (cases "0 < n \<or> mp")
    case False
    with st show thesis by (intro idle [of evs]) (simp_all add: n)
  next
    case True
    then obtain len json where lj: "ser = Some (len, json)" using st by (cases ser) auto
    show thesis
    proof (cases "0 < len")
      case False
      with True st lj show thesis by (intro empty [OF True n, of json]) simp_all
    next
      case pos: True
      then obtain up c io1 where d: "deliver sys fuel json len (pb_tcp s) io = Some (up, c, io1)"
        using st True lj by (cases "deliver sys fuel json len (pb_tcp s) io") auto
      from st True lj pos d have "io1 = io'" "s' = s\<lparr>pb_events := evs, pb_json := json,
          pb_tracker := flow_tracker_flush (pb_tracker s), pb_tcp := c,
          pb_total_events := pb_total_events s + (if up then of_nat n else 0)\<rparr>" by simp_all
      then show thesis using d by (intro batch [OF True n trans [OF ser [symmetric] lj] pos]) simp_all
    qed
  qed
qed

lemma send_stage_inv:
  assumes "tcp_state_inv sys opens B (pb_tcp s, io)" "send_stage sys fuel mp s io = Some (s', io')"
  shows "tcp_state_inv sys opens B (pb_tcp s', io') \<and> pb_use_bpf s' = pb_use_bpf s \<and> pb_status s' = pb_status s"
  using assms(2)
proof (cases rule: send_stage_cases)
  case (batch n evs len json up c)
  with deliver_inv [OF assms(1) batch(5)] show ?thesis by simp
qed (use assms(1) in simp_all)

lemma main_iteration_stages:
  assumes "main_iteration sys page_size fuel t s io = Some (out, s', io')"
  obtains mp s3 where "same_handles s s3" "send_stage sys fuel mp s3 io = Some (s', io')"
proof -
  let ?s = "s\<lparr>pb_rings := tk_kernel t (pb_rings s)\<rparr>"
  obtain s1 s2 mp s3 where
    1: "(if pb_use_bpf s then bpf_stage page_size (tk_perf_clock t) (tk_packets t) ?s else Some ?s) = Some s1"
    and 2: "poll_proc_net (tk_files t) (tk_update t) (tk_update_now t) s1 = Some s2"
    and 3: "metrics_stage (tk_files t) (tk_df t) (tk_now t) (tk_collect t) (tk_cleanup t) s2 = Some (mp, s3)"
    and 4: "send_stage sys fuel mp s3 io = Some (s', io')"
    using assms by (auto simp: main_iteration_def Let_def split: Option.bind_split_asm)
  have "same_handles s ?s" by (simp add: same_handles_def)
  also have "same_handles ?s s1" using 1 bpf_stage_handles by (auto simp: same_handles_def split: if_split_asm)
  also have "same_handles s1 s2" using 2 by (rule poll_proc_net_handles)
  also have "same_handles s2 s3" using 3 by (rule metrics_stage_handles)
  finally show thesis using 4 by (rule that)
qed

lemma main_iteration_inv:
  assumes "tcp_state_inv sys opens B (pb_tcp s, io)" "main_iteration sys page_size fuel t s io = Some (out, s', io')"
  shows "tcp_state_inv sys opens B (pb_tcp s', io') \<and> pb_use_bpf s' = pb_use_bpf s \<and> pb_status s' = pb_status s"
  using assms(2)
proof (rule main_iteration_stages)
  fix mp s3
  assume "same_handles s s3" "send_stage sys fuel mp s3 io = Some (s', io')"
  with send_stage_inv [of sys opens B s3 io fuel mp s' io'] assms(1) show ?thesis by (simp add: same_handles_def)
qed

lemma main_loop_inv:
  assumes "tcp_state_inv sys opens B (pb_tcp s, io)" "main_loop sys page_size fuel ts s io = Some (s', io')"
  shows "tcp_state_inv sys opens B (pb_tcp s', io') \<and> pb_use_bpf s' = pb_use_bpf s \<and> pb_status s' = pb_status s"
  using assms
proof (induction ts arbitrary: s io)
  case (Cons t ts)
  from Cons.prems(2) obtain out s1 io1 where "main_iteration sys page_size fuel t s io = Some (out, s1, io1)"
    "main_loop sys page_size fuel ts s1 io1 = Some (s', io')"
    by (auto split: Option.bind_split_asm)
  with main_iteration_inv [OF Cons.prems(1)] Cons.IH show ?case by fastforce
qed simp

lemma main_start_handles:
  assumes "main_start sys bsys al objs env argv loc io = Some (Started s, io2)"
  obtains ip port c0 r io1 malloc ifname path r' where
    "tcp_client_init (al_tcp al) (Some ip) port True = Some c0"
    "do_connect sys c0 io = Some (r, pb_tcp s, io1)"
    "bpf_loader_init bsys (al_elf al) objs ifname path io1 = Some (r', pb_status s, io2)"
    "pb_use_bpf s \<longleftrightarrow> r' = 0"
  using assms that
  by (auto simp: main_start_def tcp_client_connect_def split: Option.bind_split_asm option.split_asm start_action.split_asm)

lemma main_start_exit:
  "main_start sys bsys al objs env argv loc io = Some (Exit 0, io') \<Longrightarrow> io' = io"
  by (auto simp: main_start_def split: Option.bind_split_asm option.split_asm start_action.split_asm)

lemma main_shutdown_opens:
  assumes "sys_fds sys opens" "tc_inv (pb_tcp s)" "main_shutdown sys bsys fuel s io = Some io'"
    and "owns opens B (pb_tcp s) (if pb_use_bpf s then snd (bpf_loader_cleanup bsys (Some (pb_status s)) io) else io)"
  shows "opens (io_world io') = B"
proof -
  obtain n where "fuel = Suc n"
    using assms(3) by (cases fuel) (auto simp: main_shutdown_def tcp_client_cleanup_def)
  then show ?thesis
    using do_disconnect_spec [OF assms(1,4,2), of n] assms(3)
    by (auto simp: main_shutdown_def tcp_client_cleanup_def Let_def)
qed

lemma main_shutdown_defined:
  assumes "tc_inv (pb_tcp s)"
  shows "\<exists>io'. main_shutdown sys bsys (Suc n) s io = Some io'"
proof -
  have "tc_send_buffer_len (pb_tcp s) = 0" using assms by (simp add: tc_inv_def)
  then show ?thesis by (simp add: main_shutdown_def tcp_client_cleanup_def close_sock_def Let_def)
qed

lemma owns_loader_closed:
  assumes "bpf_fds bsys opens" "owns opens ({prog_fd, sock_fd} \<union> B) c io" "prog_fd \<notin> B" "sock_fd \<notin> B"
    and fds: "prog_fd \<noteq> sock_fd" "0 \<le> prog_fd" "0 \<le> sock_fd"
    and st: "st = zero_status\<lparr>bl_socket_fd := sock_fd, bl_perf_map_fd := - 1, bl_bpf_prog_fd := prog_fd, bl_use_bpf := 1\<rparr>"
  shows "owns opens B c (snd (bpf_loader_cleanup bsys (Some st) io))"
proof -
  define B' where "B' = (if 0 \<le> tc_sock_fd c then insert (tc_sock_fd c) B else B)"
  have "opens (io_world io) = {prog_fd, sock_fd} \<union> B'" "prog_fd \<notin> B'" "sock_fd \<notin> B'"
    using assms(2-4) by (auto simp: owns_def B'_def split: if_split_asm)
  from cleanup_after_init [OF assms(1) fds st this] assms(2) show ?thesis
    by (auto simp: owns_def B'_def split: if_split_asm)
qed

lemma deliver_gave_up:
  assumes "gave_up (c, io)" "deliver sys n json len c io = Some (up, c', io')"
  shows "\<not> up \<and> gave_up (c', io') \<and> io' = io"
proof -
  have down: "tcp_client_is_connected sys (Some x) y = (False, Some x, y)" if "gave_up (x, y)" for x y
    using that by (simp add: tcp_client_is_connected_def gave_up_def)
  obtain r c1 io1 where 1: "do_reconnect sys n c io = Some (r, c1, io1)"
    using assms(2) by (auto simp: deliver_def down [OF assms(1)] tcp_client_reconnect_def split: Option.bind_split_asm)
  from do_reconnect_gave_up [OF assms(1) 1] have g: "gave_up (c1, io1)" "io1 = io" by auto
  from assms(2) show ?thesis
    by (simp add: deliver_def down [OF assms(1)] tcp_client_reconnect_def 1 down [OF g(1)]) (use g in auto)
qed

lemma get_events_none:
  "flow_tracker_get_events ft evs (MAX_FLOWS * 2) = (0, evs') \<Longrightarrow> ft_event_count ft = 0"
  by (auto simp: flow_tracker_get_events_def Let_def MAX_FLOWS_def split: if_split_asm)

lemma main_iteration_gave_up:
  assumes "gave_up (pb_tcp s, io)" "main_iteration sys page_size fuel t s io = Some (out, s', io')"
  shows "gave_up (pb_tcp s', io') \<and> io' = io \<and> pb_total_events s' = pb_total_events s \<and> ft_event_count (pb_tracker s') = 0"
  using assms(2)
proof (rule main_iteration_stages)
  fix mp s3
  assume h: "same_handles s s3" and "send_stage sys fuel mp s3 io = Some (s', io')"
  from this(2) show ?thesis
  proof (cases rule: send_stage_cases)
    case (idle evs)
    with h assms(1) get_events_none show ?thesis by (simp add: same_handles_def)
  next
    case (empty n evs json)
    with h assms(1) show ?thesis by (simp add: same_handles_def flow_tracker_flush_def)
  next
    case (batch n evs len json up c)
    have "gave_up (pb_tcp s3, io)" using h assms(1) by (simp add: same_handles_def)
    from deliver_gave_up [OF this batch(5)] batch h show ?thesis by (auto simp: same_handles_def flow_tracker_flush_def)
  qed
qed

lemma main_loop_gave_up:
  assumes "gave_up (pb_tcp s, io)" "main_loop sys page_size fuel ts s io = Some (s', io')"
  shows "gave_up (pb_tcp s', io') \<and> io' = io \<and> pb_total_events s' = pb_total_events s \<and>
    (ts \<noteq> [] \<longrightarrow> ft_event_count (pb_tracker s') = 0)"
  using assms
proof (induction ts arbitrary: s io)
  case (Cons t ts)
  from Cons.prems(2) obtain out s1 io1 where
    1: "main_iteration sys page_size fuel t s io = Some (out, s1, io1)" and
    2: "main_loop sys page_size fuel ts s1 io1 = Some (s', io')"
    by (auto split: Option.bind_split_asm)
  note it = main_iteration_gave_up [OF Cons.prems(1) 1]
  from Cons.IH [OF _ 2] it 2 show ?case by (cases ts) auto
qed simp

lemma ip_frame_ex: "ip_frame ex_rx" "\<not> ip_frame \<lparr>rx_bytes = [1, 2, 3], rx_clock = (\<lambda>_. 7)\<rparr>"
  by code_simp+

lemma idle_iteration:
  assumes "ft_event_count (pb_tracker s) = 0" "pb_use_bpf s \<longrightarrow> bl_perf_map_fd (pb_status s) < 0"
    "pb_last_metric_ns s = 0" "pb_total_events s = 0"
  shows "main_iteration sys page_size fuel ex_tick s io = Some ([], s, io)"
proof -
  have poll: "poll_proc_net Map.empty 0 (\<lambda>_. 0) s = Some s"
    by (simp add: poll_proc_net_def proc_net_read_tcp_def proc_net_read_udp_def proc_net_read_tcp6_def
        proc_net_read_udp6_def parse_proc_net_file_def flow_tracker_update_def)
  have "send_stage sys fuel False s io = Some (s, io)"
    using assms(1) by (simp add: send_stage_def flow_tracker_get_events_def Let_def MAX_FLOWS_def)
  with assms poll show ?thesis
    by (cases "pb_use_bpf s") (simp_all add: main_iteration_def ex_tick_def bpf_stage_def metrics_stage_def stats_stage_def)
qed

lemma bpf_fds_ex: "bpf_fds ex_main_bpf (\<lambda>w. set (ew_fds w))"
  using max_fd_new by (auto simp: bpf_fds_def ex_main_bpf_def opens_new_def keeps_def ex_ok_def Let_def)

text \<open>The example starts and shuts down.\<close>

lemma ex_config:
  "\<exists>cfg out. config_load_from_env Map.empty (ml_cfg ex_locals) = Some (cfg, out) \<and>
    c_string (relay_server_ip cfg) = Some RELAY_SERVER_IP \<and> c_string (probe_id cfg) = Some PROBE_ID \<and>
    relay_server_port cfg = 9104"
proof -
  have "c_string (set_field (zbuf 64) RELAY_SERVER_IP) = Some RELAY_SERVER_IP"
    "c_string (set_field (zbuf 64) PROBE_ID) = Some PROBE_ID"
    by (simp_all add: c_string_set_field terminated_def)
  then show ?thesis
    by (simp add: config_load_from_env_def load_settings_def override_def ex_locals_def)
qed

lemma bpf_loader_init_no_file:
  "\<exists>r st io'. bpf_loader_init sys malloc Map.empty ifname path io = Some (r, st, io')"
  by (simp add: bpf_loader_init_def parse_bpf_elf_def Let_def split: prod.split)

lemma ex_started:
  obtains s io1 where
    "main_start ex_sys ex_main_bpf ex_allocs Map.empty Map.empty [] ex_locals ex_io = Some (Started s, io1)"
    "ft_event_count (pb_tracker s) = 0" "pb_use_bpf s \<longrightarrow> bl_perf_map_fd (pb_status s) < 0" "pb_last_metric_ns s = 0"
    "pb_total_events s = 0" "tc_inv (pb_tcp s)"
proof -
  obtain cfg out where cfg: "config_load_from_env Map.empty (ml_cfg ex_locals) = Some (cfg, out)"
    "c_string (relay_server_ip cfg) = Some RELAY_SERVER_IP" "c_string (probe_id cfg) = Some PROBE_ID"
    "relay_server_port cfg = 9104"
    using ex_config by blast
  obtain c0 where c0: "tcp_client_init True (Some RELAY_SERVER_IP) 9104 True = Some c0"
    by (simp add: tcp_client_init_def)
  obtain r c1 io1 where con: "do_connect ex_sys c0 ex_io = Some (r, c1, io1)"
    using tcp_client_init_inv(3) [OF c0] by (simp add: do_connect_def tcp_client_try_connect_def ex_sys_def ex_io_def sys_call_def
        set_nonblocking_def ex_ok_def Let_def)
  have "tcp_state_inv ex_sys (\<lambda>w. set (ew_fds w)) {} (c0, ex_io)"
    using tcp_client_init_inv [OF c0] sys_fds_ex by (simp add: tcp_state_inv_def owns_def ex_io_def)
  from closed_connect_inv [OF this con] tcp_client_init_inv(2) [OF c0]
  have c1: "tc_inv c1" by (simp add: tcp_state_inv_def)
  obtain r' st io2 where init: "bpf_loader_init ex_main_bpf (\<lambda>_. True) Map.empty ''eth0'' ''./bpf/stb_socket_filter.bpf.o'' io1 =
      Some (r', st, io2)"
    using bpf_loader_init_no_file by blast
  have st: "r' = 0 \<longrightarrow> bl_perf_map_fd st < 0" using bpf_loader_init_cases [OF bpf_fds_ex init] by auto
  obtain tr where tr: "flow_tracker_create (\<lambda>_. True) MAX_FLOWS = Some tr" "ft_event_count tr = 0"
    by (simp add: flow_tracker_create_def)
  obtain ad where ad: "anomaly_detector_create True = Some ad" by (simp add: anomaly_detector_create_def)
  obtain s where s: "main_start ex_sys ex_main_bpf ex_allocs Map.empty Map.empty [] ex_locals ex_io = Some (Started s, io2)"
    "pb_tracker s = tr" "pb_use_bpf s \<longleftrightarrow> r' = 0" "pb_status s = st" "pb_last_metric_ns s = 0" "pb_total_events s = 0"
    "pb_tcp s = c1"
    by (simp add: main_start_def cfg main_args_def ex_allocs_def tr ad c0 [simplified] tcp_client_connect_def con init)
  then show thesis using that [of s io2] tr(2) st c1 by simp
qed

section \<open>Properties\<close>

text \<open>
  C1: The packet stage is safe on arbitrary traffic.  Whatever frames arrive, and however malformed
  they are, the stage returns without undefined behaviour and without reading outside a frame; it
  keeps the invariants of tracker and detector, handles exactly the first IP frames up to 1000, and
  counts them.  The only hypothesis on the history is that none of the four \<open>int\<close> counters is within
  1000 of its limit.
\<close>

theorem packet_stage_safe:
  assumes "pb_inv s" "pb_room 1000 s" "bl_perf_map_fd (pb_status s) < 0"
  shows "\<exists>s'. bpf_stage page_size clock rxs s = Some s' \<and> pb_inv s' \<and>
    pb_total_packets s' = pb_total_packets s + of_nat (min 1000 (length (filter ip_frame rxs))) \<and>
    s' = s\<lparr>pb_tracker := pb_tracker s', pb_statics := pb_statics s', pb_anomaly := pb_anomaly s',
      pb_total_packets := pb_total_packets s'\<rparr>"
proof -
  obtain s' where "raw_packet_loop rxs 0 s = Some (min 1000 (length (filter ip_frame rxs)), s')" "pb_inv s'"
    "pb_total_packets s' = pb_total_packets s + of_nat (min 1000 (length (filter ip_frame rxs)))"
    "s' = s\<lparr>pb_tracker := pb_tracker s', pb_statics := pb_statics s', pb_anomaly := pb_anomaly s',
      pb_total_packets := pb_total_packets s'\<rparr>"
    using raw_packet_loop_safe [of s 0 rxs] assms(1,2) by auto
  with assms(3) show ?thesis by (simp add: bpf_stage_def)
qed

theorem packet_stage_safe_witness:
  "\<exists>s'. bpf_stage 4096 (\<lambda>_. (0, 0)) [ex_rx, \<lparr>rx_bytes = [1, 2, 3], rx_clock = (\<lambda>_. 7)\<rparr>, ex_rx] (ex_probe ex_client) = Some s' \<and>
     pb_inv s' \<and> pb_total_packets s' = 2"
proof -
  have "pb_inv (ex_probe ex_client)"
    using ft_inv_ex ex_ad_fresh by (simp add: pb_inv_def ex_probe_def ft_state_inv_def init_statics_def)
  moreover have "pb_room 1000 (ex_probe ex_client)"
    by (simp add: pb_room_def ex_probe_def init_statics_def ex_ad_def anomaly_detector_create_def)
  ultimately show ?thesis
    using packet_stage_safe [of "ex_probe ex_client"] ip_frame_ex by (fastforce simp: ex_probe_def)
qed

text \<open>
  C7: A complete run of the probe leaks no descriptor.  When \<open>main\<close> returns 0, whether it only
  printed its help or ran any number of iterations, with the filter attached or not, connected or
  not, exactly the descriptors are open that were open before.
\<close>

theorem main_leaks_no_descriptor:
  assumes "sys_fds sys opens" "bpf_fds bsys opens"
    and "main_prog sys bsys fuel al objs env argv loc ts io = Some (0, io')"
  shows "opens (io_world io') = opens (io_world io)"
proof -
  let ?B = "opens (io_world io)"
  obtain st io2 where st: "main_start sys bsys al objs env argv loc io = Some (st, io2)"
    using assms(3) by (auto simp: main_prog_def split: Option.bind_split_asm)
  show ?thesis
  proof (cases st)
    case (Exit r)
    with assms(3) st have "main_start sys bsys al objs env argv loc io = Some (Exit 0, io')" by (simp add: main_prog_def)
    then show ?thesis using main_start_exit by blast
  next
    case (Started s)
    with assms(3) st obtain s1 io3 where loop: "main_loop sys (bs_page_size bsys) fuel ts s io2 = Some (s1, io3)"
      and shut: "main_shutdown sys bsys fuel s1 io3 = Some io'"
      by (auto simp: main_prog_def split: Option.bind_split_asm)
    from st [unfolded Started] obtain ip port c0 r io1 ifname path r' where
      c0: "tcp_client_init (al_tcp al) (Some ip) port True = Some c0" and con: "do_connect sys c0 io = Some (r, pb_tcp s, io1)"
      and init: "bpf_loader_init bsys (al_elf al) objs ifname path io1 = Some (r', pb_status s, io2)"
      and use_bpf: "pb_use_bpf s \<longleftrightarrow> r' = 0"
      by (rule main_start_handles)
    note c0i = tcp_client_init_inv [OF c0]
    have "tcp_state_inv sys opens ?B (c0, io)" using c0i assms(1) by (simp add: tcp_state_inv_def owns_def)
    from closed_connect_inv [OF this con] c0i(2)
    have inv1: "tcp_state_inv sys opens ?B (pb_tcp s, io1)" by simp
    from bpf_loader_init_cases [OF assms(2) init] show ?thesis
    proof (elim disjE conjE exE)
      assume "r' = - 1" and same: "opens (io_world io2) = opens (io_world io1)"
      have "tcp_state_inv sys opens ?B (pb_tcp s, io2)" using inv1 same by (simp add: tcp_state_inv_def owns_def)
      from main_loop_inv [OF this loop] \<open>r' = - 1\<close> use_bpf main_shutdown_opens [OF assms(1) _ shut] show ?thesis
        by (simp add: tcp_state_inv_def)
    next
      fix prog_fd sock_fd
      assume "r' = 0" and pos: "0 \<le> prog_fd" "0 \<le> sock_fd" "prog_fd \<noteq> sock_fd"
        and new: "prog_fd \<notin> opens (io_world io1)" "sock_fd \<notin> opens (io_world io1)"
        and o: "opens (io_world io2) = {prog_fd, sock_fd} \<union> opens (io_world io1)"
        and s: "pb_status s = zero_status\<lparr>bl_socket_fd := sock_fd, bl_perf_map_fd := - 1, bl_bpf_prog_fd := prog_fd, bl_use_bpf := 1\<rparr>"
      have B: "prog_fd \<notin> ?B" "sock_fd \<notin> ?B" using inv1 new by (auto simp: tcp_state_inv_def owns_def split: if_split_asm)
      have "tcp_state_inv sys opens ({prog_fd, sock_fd} \<union> ?B) (pb_tcp s, io2)"
        using inv1 new o by (auto simp: tcp_state_inv_def owns_def split: if_split_asm)
      from main_loop_inv [OF this loop] have l: "tc_inv (pb_tcp s1)" "owns opens ({prog_fd, sock_fd} \<union> ?B) (pb_tcp s1) io3"
        "pb_use_bpf s1" "pb_status s1 = pb_status s" using use_bpf \<open>r' = 0\<close> by (simp_all add: tcp_state_inv_def)
      from owns_loader_closed [OF assms(2) l(2) B pos(3,1,2) trans [OF l(4) s]] l show ?thesis
        using main_shutdown_opens [OF assms(1) l(1) shut] by simp
    qed
  qed
qed

theorem main_leaks_no_descriptor_witness:
  "\<exists>io'. main_prog ex_sys ex_main_bpf 5 ex_allocs Map.empty Map.empty [] ex_locals [ex_tick] ex_io = Some (0, io') \<and>
     set (ew_fds (io_world io')) = {}"
proof -
  obtain s io1 where start: "main_start ex_sys ex_main_bpf ex_allocs Map.empty Map.empty [] ex_locals ex_io = Some (Started s, io1)"
    and s: "ft_event_count (pb_tracker s) = 0" "pb_use_bpf s \<longrightarrow> bl_perf_map_fd (pb_status s) < 0" "pb_last_metric_ns s = 0"
      "pb_total_events s = 0" and inv: "tc_inv (pb_tcp s)"
    by (rule ex_started)
  have loop: "main_loop ex_sys (bs_page_size ex_main_bpf) 5 [ex_tick] s io1 = Some (s, io1)"
    by (simp add: idle_iteration [OF s])
  obtain io' where shut: "main_shutdown ex_sys ex_main_bpf 5 s io1 = Some io'"
    using main_shutdown_defined [OF inv, of ex_sys ex_main_bpf 4 io1] by auto
  have run: "main_prog ex_sys ex_main_bpf 5 ex_allocs Map.empty Map.empty [] ex_locals [ex_tick] ex_io = Some (0, io')"
    by (simp add: main_prog_def start loop shut del: main_loop.simps)
  from main_leaks_no_descriptor [OF sys_fds_ex bpf_fds_ex run] run show ?thesis by (simp add: ex_io_def)
qed

text \<open>
  C8: After ten failed attempts to reconnect the probe is silent for good.  Whatever traffic it sees
  in whatever number of further iterations, the outside world is not touched again, no event is
  counted as sent, and the events of every iteration are removed from the tracker all the same.
\<close>

theorem main_loop_never_recovers:
  assumes "gave_up (pb_tcp s, io)" "main_loop sys page_size fuel ts s io = Some (s', io')"
  shows "gave_up (pb_tcp s', io') \<and> io' = io \<and> pb_total_events s' = pb_total_events s \<and>
    (ts = [] \<or> ft_event_count (pb_tracker s') = 0)"
  using main_loop_gave_up [OF assms] by auto

theorem main_loop_never_recovers_witness:
  "\<exists>s'. main_loop ex_sys 4096 5 [ex_tick, ex_tick] (ex_probe (ex_client\<lparr>tc_reconnect_retries := 10\<rparr>)) ex_io = Some (s', ex_io) \<and>
     pb_total_events s' = 0"
proof -
  let ?s = "ex_probe (ex_client\<lparr>tc_reconnect_retries := 10\<rparr>)"
  have "main_loop ex_sys 4096 5 [ex_tick, ex_tick] ?s ex_io = Some (?s, ex_io)"
    by (simp add: idle_iteration ex_probe_def ex_ft_def flow_tracker_create_def)
  moreover have "gave_up (pb_tcp ?s, ex_io)"
    by (simp add: gave_up_def ex_probe_def ex_client_def tcp_client_init_def)
  ultimately show ?thesis using main_loop_never_recovers by (fastforce simp: ex_probe_def)
qed

end
