(* ===== verification/Delivery.thy ===== *)
theory Delivery
  imports Probe_Main
begin

text \<open>
  What the probe is for, across its components: the frames received in one iteration of the main
  loop of \<open>src/main.c\<close> reach the relay.  The parser, the tracker, the JSON writer and the client
  are composed here; the anomaly detector and the retransmission check, which run between them, are
  shown not to disturb the events.
\<close>

section \<open>Specification\<close>

text \<open>The event of one frame: its flow key and size, with the clock readings of the tracker.\<close>

definition frame_event :: "string \<Rightarrow> rx_packet \<Rightarrow> flow_event_t" where
  "frame_event pid rx =
     (case packet_parse_raw (Some (rx_bytes rx)) (int (length (rx_bytes rx))) (Some (rx_event rx)) of
        Some (_, Some pkt) \<Rightarrow> packet_event pid ((rx_clock rx 1, rx_clock rx 2), packet_key pkt, ucast (pe_pkt_len pkt))
      | _ \<Rightarrow> zero_flow_event)"

text \<open>A socket table that is missing, or has the form in which the kernel prints it.\<close>

definition kernel_table :: "files \<Rightarrow> string \<Rightarrow> bool" where
  "kernel_table files path \<longleftrightarrow> files path = None \<or>
     (\<exists>header rows. files path = Some (unlines (header # map socket_row rows)) \<and> text_line 1024 header \<and>
        (\<forall>row \<in> set rows. text_line 1024 (socket_row row)))"

definition kernel_tables :: "files \<Rightarrow> bool" where
  "kernel_tables files \<longleftrightarrow> kernel_table files ''/proc/net/tcp'' \<and> kernel_table files ''/proc/net/udp'' \<and>
     kernel_table files ''/proc/net/tcp6'' \<and> kernel_table files ''/proc/net/udp6''"

text \<open>
  The relay keeps the connection open: a peek finds data or reports \<open>EAGAIN\<close>, and sends nothing.
\<close>

definition peer_open :: "'w sys \<Rightarrow> int \<Rightarrow> ('w \<Rightarrow> string) \<Rightarrow> bool" where
  "peer_open sys fd lg \<longleftrightarrow>
     (\<forall>w. case sys_peek sys fd w of (r, e, w') \<Rightarrow> (0 < r \<or> r < 0 \<and> e = EAGAIN) \<and> lg w' = lg w)"

text \<open>An iteration that receives two copies of a frame and something that is not IP.\<close>

definition ex_capture :: tick where
  "ex_capture = ex_tick\<lparr>tk_packets := [ex_rx, \<lparr>rx_bytes = [1, 2, 3], rx_clock = (\<lambda>_. 7)\<rparr>, ex_rx]\<rparr>"

definition ex_ready :: probe where
  "ex_ready = (ex_probe ex_conn)\<lparr>pb_json := zbuf (MAX_JSON_LEN * 16)\<rparr>"

section \<open>The tracker\<close>

text \<open>A retransmission check of a tracked flow changes neither the set of flows nor the events.\<close>

lemma upd_value_frame:
  assumes "ft_inv ft" "i < length (ft_records ft)" "fr_active (ft_records ft ! i)"
  shows "pending (upd_value ft i f) = pending ft" "ft_max_flows (upd_value ft i f) = ft_max_flows ft"
    "dom (ft_abs (upd_value ft i f)) = dom (ft_abs ft)"
proof -
  have "fr_key (ft_records ft ! i) \<in> dom (ft_abs ft)" using assms(2,3) by (auto simp: dom_ft_abs)
  then show "dom (ft_abs (upd_value ft i f)) = dom (ft_abs ft)"
    by (simp add: upd_value_def Let_def ft_abs_set_value [OF assms] insert_absorb)
qed (simp_all add: upd_value_def Let_def set_record_def pending_def)

lemma check_retransmit_frame:
  assumes "ft_inv ft" "k \<in> dom (ft_abs ft)" "check_retransmit now st ft k seq len flags = Some (ret, retx, dup, st', ft')"
  shows "pending ft' = pending ft \<and> ft_max_flows ft' = ft_max_flows ft \<and> dom (ft_abs ft') = dom (ft_abs ft)"
proof -
  from assms(2) obtain v where "ft_abs ft k = Some v" by blast
  then obtain i where i: "i < length (ft_records ft)" "fr_active (ft_records ft ! i)" "fr_key (ft_records ft ! i) = k"
    by (rule ft_abs_SomeE)
  have f: "find_record now ft k = (Some i, ft)" using assms(1) i by (blast intro: flow_slots.find_hit)
  have "\<exists>g. ft' = ft \<or> ft' = upd_value ft i g"
    using assms(3) f by (auto simp: check_retransmit_def check_pure_ack_def Let_def split: if_split_asm)
  then show ?thesis using upd_value_frame [OF assms(1) i(1,2)] by (elim exE disjE) simp_all
qed

text \<open>With a free slot, an update tracks its key and appends one event.\<close>

lemma dom_update_single:
  assumes "ft_inv ft" "card (insert k (dom (ft_abs ft))) \<le> ft_max_flows ft"
  shows "dom (ft_abs (flow_tracker_update_single ts now ft k b pid)) = insert k (dom (ft_abs ft))"
proof (cases "ft_abs ft k")
  case (Some v)
  then show ?thesis using update_single_some [OF assms(1) Some] by auto
next
  case None
  then have "card (dom (ft_abs ft)) < ft_max_flows ft"
    using assms card_dom_ft_abs(1) [OF assms(1)] by (simp add: card_insert_if domIff)
  with assms(1) obtain i where "find_idx (\<lambda>r. \<not> fr_active r) (ft_records ft) = Some i"
    by (rule free_slot_exists)
  from update_single_none [OF assms(1) None this] show ?thesis by auto
qed

lemma update_single_event:
  assumes "ft_inv ft" "card (dom (ft_abs ft)) < ft_max_flows ft" "length (pending ft) < ft_max_events ft"
    and "ft' = flow_tracker_update_single ts now ft k b pid"
  shows "pending ft' = pending ft @ [packet_event pid ((ts, now), k, b)]" "k \<in> dom (ft_abs ft')"
    "card (dom (ft_abs ft')) \<le> Suc (card (dom (ft_abs ft)))" "ft_inv ft'" "ft_max_flows ft' = ft_max_flows ft"
proof -
  have room: "card (insert k (dom (ft_abs ft))) \<le> ft_max_flows ft"
    using assms(2) card_insert_le_m1 [of "ft_max_flows ft" "dom (ft_abs ft)" k] by simp
  show "pending ft' = pending ft @ [packet_event pid ((ts, now), k, b)]"
    using pending_update_single [OF assms(1) room] pending_add_event [OF assms(1)] assms(3,4) by simp
  show "k \<in> dom (ft_abs ft')" "card (dom (ft_abs ft')) \<le> Suc (card (dom (ft_abs ft)))"
    using dom_update_single [OF assms(1) room] card_dom_ft_abs(1) [OF assms(1)] by (simp_all add: assms(4) card_insert_if)
  show "ft_inv ft'" "ft_max_flows ft' = ft_max_flows ft" using assms(1,4) by (simp_all add: ft_inv_update_single)
qed

section \<open>The packet stage\<close>

lemma main_retransmit_frame:
  assumes "ft_inv ft" "packet_key pkt \<in> dom (ft_abs ft)" "main_retransmit now p len pkt flow st ft = Some (flow', st', ft')"
  shows "pending ft' = pending ft \<and> ft_max_flows ft' = ft_max_flows ft \<and> dom (ft_abs ft') = dom (ft_abs ft)"
  using assms(3) check_retransmit_frame [OF assms(1,2)]
  unfolding main_retransmit_def Let_def
  by (auto split: if_split_asm Option.bind_split_asm option.split_asm prod.split_asm)

lemma process_packet_tracker:
  assumes "process_packet rx s = Some (True, s')"
  obtains ok pkt flow flow' st where
    "packet_parse_raw (Some (rx_bytes rx)) (int (length (rx_bytes rx))) (Some (rx_event rx)) = Some (ok, Some pkt)"
    "main_retransmit (rx_clock rx 3) (rx_bytes rx) (int (length (rx_bytes rx))) pkt flow (pb_statics s)
       (flow_tracker_update_single (rx_clock rx 1) (rx_clock rx 2) (pb_tracker s) (packet_key pkt)
          (ucast (pe_pkt_len pkt)) (pb_probe_id s)) = Some (flow', st, pb_tracker s')"
  using assms unfolding process_packet_def Let_def rx_event_def
  by (auto split: if_split_asm Option.bind_split_asm prod.split_asm)

lemma process_packet_event:
  assumes "pb_inv s" "process_packet rx s = Some (True, s')"
    and "card (dom (ft_abs (pb_tracker s))) < ft_max_flows (pb_tracker s)"
    and "length (pending (pb_tracker s)) < ft_max_events (pb_tracker s)"
  shows "pending (pb_tracker s') = pending (pb_tracker s) @ [frame_event (pb_probe_id s) rx] \<and>
    ft_max_flows (pb_tracker s') = ft_max_flows (pb_tracker s) \<and>
    card (dom (ft_abs (pb_tracker s'))) \<le> Suc (card (dom (ft_abs (pb_tracker s))))"
proof -
  obtain ok pkt flow flow' st ft where
    parse: "packet_parse_raw (Some (rx_bytes rx)) (int (length (rx_bytes rx))) (Some (rx_event rx)) = Some (ok, Some pkt)" and
    ft: "ft = flow_tracker_update_single (rx_clock rx 1) (rx_clock rx 2) (pb_tracker s) (packet_key pkt)
          (ucast (pe_pkt_len pkt)) (pb_probe_id s)" and
    rt: "main_retransmit (rx_clock rx 3) (rx_bytes rx) (int (length (rx_bytes rx))) pkt flow (pb_statics s) ft =
          Some (flow', st, pb_tracker s')"
    using process_packet_tracker [OF assms(2)] by metis
  have "ft_inv (pb_tracker s)" using assms(1) by (simp add: pb_inv_def ft_state_inv_def)
  note upd = update_single_event [OF this assms(3,4) ft]
  from main_retransmit_frame [OF upd(4,2) rt] upd show ?thesis by (simp add: frame_event_def parse)
qed

lemma raw_packet_loop_events:
  assumes "pb_inv s" "pb_room (1000 - n) s" "n + length (filter ip_frame rxs) \<le> 1000"
    and "card (dom (ft_abs (pb_tracker s))) + length (filter ip_frame rxs) \<le> ft_max_flows (pb_tracker s)"
    and "length (pending (pb_tracker s)) + length (filter ip_frame rxs) \<le> ft_max_events (pb_tracker s)"
    and "raw_packet_loop rxs n s = Some (n', s')"
  shows "pending (pb_tracker s') = pending (pb_tracker s) @ map (frame_event (pb_probe_id s)) (filter ip_frame rxs)"
  using assms
proof (induction rxs arbitrary: n s)
  case (Cons rx rxs)
  show ?case
  proof (cases "n < 1000")
    case False
    then have "length (filter ip_frame (rx # rxs)) = 0" using Cons.prems(3) by linarith
    then have "filter ip_frame (rx # rxs) = []" by (simp only: length_0_conv)
    with False Cons.prems(6) show ?thesis by simp
  next
    case True
    then have "pb_room (Suc (1000 - Suc n)) s" using Cons.prems by (simp only: Suc_diff_Suc)
    from process_packet_safe [OF Cons.prems(1) this, of rx] obtain s1 where
      s1: "process_packet rx s = Some (ip_frame rx, s1)" "pb_inv s1" "pb_room (1000 - Suc n) s1" "\<not> ip_frame rx \<longrightarrow> s1 = s"
        "s1 = s\<lparr>pb_tracker := pb_tracker s1, pb_statics := pb_statics s1, pb_anomaly := pb_anomaly s1,
          pb_total_packets := pb_total_packets s1\<rparr>"
      by blast
    have id: "pb_probe_id s1 = pb_probe_id s" by (subst s1(5)) simp
    have loop: "raw_packet_loop rxs (if ip_frame rx then n + 1 else n) s1 = Some (n', s')"
      using Cons.prems(6) True s1(1) by simp
    show ?thesis
    proof (cases "ip_frame rx")
      case False
      then have "s1 = s" using s1(4) by simp
      with loop False have "raw_packet_loop rxs n s = Some (n', s')" by simp
      with Cons.IH [OF Cons.prems(1,2)] False Cons.prems(3-5) show ?thesis by simp
    next
      case ip: True
      have ev: "pending (pb_tracker s1) = pending (pb_tracker s) @ [frame_event (pb_probe_id s) rx]"
        "ft_max_flows (pb_tracker s1) = ft_max_flows (pb_tracker s)"
        "card (dom (ft_abs (pb_tracker s1))) \<le> Suc (card (dom (ft_abs (pb_tracker s))))"
        using process_packet_event [OF Cons.prems(1), of rx s1] s1(1) ip Cons.prems(4,5) by auto
      have max: "ft_max_events (pb_tracker s1) = ft_max_events (pb_tracker s)"
        using s1(2) Cons.prems(1) ev(2) by (simp add: pb_inv_def ft_state_inv_def ft_invD(3))
      have "pending (pb_tracker s') = pending (pb_tracker s1) @ map (frame_event (pb_probe_id s1)) (filter ip_frame rxs)"
        using s1(2,3) loop ip Cons.prems(3-5) ev max by (intro Cons.IH [of s1 "Suc n"]) auto
      then show ?thesis using ip ev(1) id by simp
    qed
  qed
qed simp

section \<open>Polling and sending\<close>

lemma kernel_table_empty:
  "kernel_table files path \<Longrightarrow> parse_proc_net_file files path is_tcp entries max_entries = Some (0, entries)"
  by (auto simp: kernel_table_def parse_proc_net_file_def fgets_text_line socket_lines_rows)

lemma poll_kernel_tables:
  assumes "kernel_tables files"
  shows "poll_proc_net files ts now s = Some s"
proof -
  have read: "proc_net_read_tcp files es m = Some (0, es)" "proc_net_read_udp files es m = Some (0, es)"
    "proc_net_read_tcp6 files es m = Some (0, es)" "proc_net_read_udp6 files es m = Some (0, es)" for es m
    by (simp_all only: assms [unfolded kernel_tables_def] kernel_table_empty proc_net_read_tcp_def proc_net_read_udp_def
        proc_net_read_tcp6_def proc_net_read_udp6_def)
  show ?thesis
    unfolding poll_proc_net_def Let_def flow_tracker_update_def
    by (simp only: read bind.bind_lunit prod.case) simp
qed

lemma poll_open:
  assumes "tc_inv c" "tc_is_connected c" "peer_open sys (tc_sock_fd c) lg"
  obtains io' where "tcp_client_is_connected sys (Some c) io = (True, Some c, io')" "lg (io_world io') = lg (io_world io)"
proof -
  obtain r e w where p: "sys_peek sys (tc_sock_fd c) (io_world io) = (r, e, w)" by (cases "sys_peek sys (tc_sock_fd c) (io_world io)")
  then have "(0 < r \<or> r < 0 \<and> e = EAGAIN) \<and> lg w = lg (io_world io)" using assms(3) by (auto simp: peer_open_def dest: spec [of _ "io_world io"])
  moreover have "0 \<le> tc_sock_fd c" using assms(1,2) by (simp add: tc_inv_def)
  ultimately show thesis using that assms(2) p by (auto simp: tcp_client_is_connected_def sys_call_def)
qed

lemma length_http_header:
  assumes "length host \<le> 15" "0 \<le> len" "len < 100000"
  shows "length (http_header host len) \<le> 150"
proof -
  have "length (show_int len) \<le> 5" using assms(2,3) length_show_nat [of "nat len" 5] by (simp add: show_int_def)
  with assms(1) show ?thesis by (simp add: http_header_def CRLF_def)
qed

text \<open>A batch of up to about 64 KiB goes out as one request.\<close>

lemma deliver_batch:
  assumes c: "tc_inv c" "tc_is_connected c"
    and sys: "sys_stream sys (tc_sock_fd c) lg" "sys_progress sys (tc_sock_fd c)" "peer_open sys (tc_sock_fd c) lg"
    and json: "cstr json = body" "body \<noteq> []" "length body \<le> 65000"
  shows "\<exists>c' io'. deliver sys 65537 json (int (length body)) c io = Some (True, c', io') \<and>
    lg (io_world io') = lg (io_world io) @ http_header (cstr (tc_server_ip c)) (int (length body)) @ body"
proof -
  obtain io1 where io1: "tcp_client_is_connected sys (Some c) io = (True, Some c, io1)" "lg (io_world io1) = lg (io_world io)"
    using poll_open [OF c sys(3)] .
  obtain io2 where io2: "tcp_client_is_connected sys (Some c) io1 = (True, Some c, io2)" "lg (io_world io2) = lg (io_world io1)"
    using poll_open [OF c sys(3)] .
  have take: "take (length body) json = body" "length body \<le> length json"
    unfolding json(1) [symmetric] cstr_def by (rule takeWhile_eq_take [symmetric]) (rule length_takeWhile_le)
  have nul: "NUL \<notin> set body" unfolding json(1) [symmetric] cstr_def by (auto dest: set_takeWhileD)
  define req where "req = http_header (cstr (tc_server_ip c)) (int (length body)) @ body"
  have fd: "fd_set_ok (tc_sock_fd c)" using c by (simp add: tc_inv_def fd_set_ok_def)
  have "http_request c json (int (length body)) = Some req"
    using take nul by (simp add: http_request_body req_def)
  moreover have "length (cstr (tc_server_ip c)) \<le> 15" 
    using c(1) length_cstr_less [of 16 "tc_server_ip c"] by (simp add: tc_inv_def)
  then have "length req < 65536"
    using length_http_header [of "cstr (tc_server_ip c)" "int (length body)"] json(3) by (simp add: req_def)
  moreover have fuel: "(65537 :: nat) = Suc 65536" by simp
  ultimately obtain io' where "do_send sys 65537 c json (int (length body)) io2 =
      Some (int (length req), c\<lparr>tc_bytes_sent := tc_bytes_sent c + of_nat (length req)\<rparr>, io')"
    "lg (io_world io') = lg (io_world io2) @ req"
    using do_send_delivers [OF c(2) fd sys(1,2), of json "int (length body)" req 65536 io2, folded fuel] by blast
  then show ?thesis using io1 io2 json(2) by (simp add: deliver_def tcp_client_send_def req_def del: do_send.simps)
qed

lemma get_pending:
  assumes "ft_inv ft" "length (pending ft) \<le> MAX_FLOWS * 2"
  obtains evs where "flow_tracker_get_events ft buf (MAX_FLOWS * 2) = (length (pending ft), pending ft @ evs)"
  using assms length_pending [OF assms(1)]
  by (auto simp: flow_tracker_get_events_def Let_def pending_def min_def split: if_splits)

lemma send_stage_delivers:
  assumes ft: "ft_inv (pb_tracker s)" "pending (pb_tracker s) \<noteq> []" "length (pending (pb_tracker s)) \<le> 75"
    and buf: "NUL \<notin> set (pb_probe_id s)" "length (pb_probe_id s) < 64" "MAX_JSON_LEN * 16 \<le> length (pb_json s)"
    and c: "tc_inv (pb_tcp s)" "tc_is_connected (pb_tcp s)"
    and sys: "sys_stream sys (tc_sock_fd (pb_tcp s)) lg" "sys_progress sys (tc_sock_fd (pb_tcp s))"
      "peer_open sys (tc_sock_fd (pb_tcp s)) lg"
  shows "\<exists>ts s' io'. item_texts (pending (pb_tracker s)) None (pb_probe_id s) = Some ts \<and>
    length ts = length (pending (pb_tracker s)) \<and> send_stage sys 65537 False s io = Some (s', io') \<and> pending (pb_tracker s') = [] \<and>
    pb_total_events s' = pb_total_events s + of_nat (length (pending (pb_tracker s))) \<and>
    lg (io_world io') = lg (io_world io) @ http_header (cstr (tc_server_ip (pb_tcp s))) (int (length (json_array ts))) @ json_array ts"
proof -
  define evs where "evs = pending (pb_tracker s)"
  obtain rest where get: "flow_tracker_get_events (pb_tracker s) (pb_events s) (MAX_FLOWS * 2) = (length evs, evs @ rest)"
    using get_pending [OF ft(1), of "pb_events s"] ft(3) by (auto simp: evs_def MAX_FLOWS_def)
  obtain ts where ts: "item_texts evs None (pb_probe_id s) = Some ts" "length ts = length evs"
    "length (json_array ts) \<le> 2 + length evs * (752 + length (pb_probe_id s))"
    using item_texts_wf [of evs "pb_probe_id s"] ft_invD(7) [OF ft(1)] by (auto simp: evs_def)
  have "length evs * (752 + length (pb_probe_id s)) \<le> 75 * 815"
    using ft(3) buf(2) by (intro mult_le_mono) (simp_all add: evs_def)
  with ts(3) have small: "length (json_array ts) \<le> 65000" by simp
  obtain json where json: "serialize_batch evs None (pb_probe_id s) (pb_json s) (int (MAX_JSON_LEN * 16)) =
      Some (int (length (json_array ts)), json)" "cstr json = json_array ts"
    using serialize_batch_cstr [OF ts(1), of "int (MAX_JSON_LEN * 16)" "pb_json s"] small buf(1,3)
    by (auto simp: MAX_JSON_LEN_def)
  have ne: "json_array ts \<noteq> []" by (simp add: json_array_def)
  obtain c' io' where d: "deliver sys 65537 json (int (length (json_array ts))) (pb_tcp s) io = Some (True, c', io')"
    "lg (io_world io') = lg (io_world io) @ http_header (cstr (tc_server_ip (pb_tcp s))) (int (length (json_array ts))) @ json_array ts"
    using deliver_batch [OF c sys json(2) ne small] by blast
  have flush: "pending (flow_tracker_flush (pb_tracker s)) = []" by (simp add: pending_def flow_tracker_flush_def)
  have "evs \<noteq> []" using ft(2) by (simp add: evs_def)
  then show ?thesis
    unfolding evs_def [symmetric] send_stage_def get by (simp add: ts(1,2) json(1) [simplified] d ne flush)
qed

section \<open>Properties\<close>

text \<open>
  C2: Captured traffic is delivered.  In an iteration with at most 75 IP frames, a connected relay
  that keeps accepting bytes, and as many free tracker slots as frames, exactly one HTTP request goes
  out; its body is the JSON array of one event per IP frame, in the order of arrival, whatever
  other frames are among them.  Afterwards no event is pending and the count of sent events has
  grown by the number of frames.
\<close>

theorem captured_traffic_delivered:
  assumes "pb_inv s" "pb_room 1000 s" "pb_use_bpf s" "bl_perf_map_fd (pb_status s) < 0"
    and frames: "fs = filter ip_frame (tk_packets t)" "fs \<noteq> []" "length fs \<le> 75"
    and tracker: "pending (pb_tracker s) = []" "ft_active_count (pb_tracker s) + int (length fs) \<le> int (ft_max_flows (pb_tracker s))"
    and buf: "NUL \<notin> set (pb_probe_id s)" "length (pb_probe_id s) < 64" "MAX_JSON_LEN * 16 \<le> length (pb_json s)"
    and proc: "kernel_tables (tk_files t)"
    and now: "fst (tk_now t) * 1000000000 + snd (tk_now t) - pb_last_metric_ns s < 30000000000"
    and c: "tc_inv (pb_tcp s)" "tc_is_connected (pb_tcp s)"
    and sys: "sys_stream sys (tc_sock_fd (pb_tcp s)) lg" "sys_progress sys (tc_sock_fd (pb_tcp s))"
      "peer_open sys (tc_sock_fd (pb_tcp s)) lg"
  shows "\<exists>ts out s' io'. item_texts (map (frame_event (pb_probe_id s)) fs) None (pb_probe_id s) = Some ts \<and>
    length ts = length fs \<and> main_iteration sys page_size 65537 t s io = Some (out, s', io') \<and>
    lg (io_world io') = lg (io_world io) @ http_header (cstr (tc_server_ip (pb_tcp s))) (int (length (json_array ts))) @ json_array ts \<and>
    pending (pb_tracker s') = [] \<and> pb_total_events s' = pb_total_events s + of_nat (length fs)"
proof -
  define s0 where "s0 = s\<lparr>pb_rings := tk_kernel t (pb_rings s)\<rparr>"
  have inv: "pb_inv s0" "pb_room (1000 - 0) s0" using assms(1,2) by (simp_all add: s0_def pb_inv_def pb_room_def)
  have ft: "ft_inv (pb_tracker s)" using assms(1) by (simp add: pb_inv_def ft_state_inv_def)
  obtain n s1 where s1: "raw_packet_loop (tk_packets t) 0 s0 = Some (n, s1)" "pb_inv s1"
    "s1 = s0\<lparr>pb_tracker := pb_tracker s1, pb_statics := pb_statics s1, pb_anomaly := pb_anomaly s1,
      pb_total_packets := pb_total_packets s1\<rparr>"
    using raw_packet_loop_safe [OF inv] by blast
  have stage: "bpf_stage page_size (tk_perf_clock t) (tk_packets t) s0 = Some s1"
    using assms(4) s1(1) by (simp add: bpf_stage_def s0_def)
  have same: "pb_probe_id s1 = pb_probe_id s" "pb_json s1 = pb_json s" "pb_tcp s1 = pb_tcp s"
    "pb_last_metric_ns s1 = pb_last_metric_ns s" "pb_total_events s1 = pb_total_events s"
    by ((subst s1(3), simp add: s0_def))+
  have use: "pb_use_bpf s0" using assms(3) by (simp add: s0_def)
  have metrics: "metrics_stage files df (tk_now t) c1 c2 s1 = Some (False, s1)" for files df c1 c2
    using now unfolding metrics_stage_def Let_def same(4) by (simp only: not_le [symmetric] if_False)
  have room: "card (dom (ft_abs (pb_tracker s))) + length fs \<le> ft_max_flows (pb_tracker s)"
    "length fs \<le> ft_max_events (pb_tracker s)"
    using tracker(2) card_dom_ft_abs(2) [OF ft] ft_invD(3) [OF ft] by linarith+
  have evs: "pending (pb_tracker s1) = map (frame_event (pb_probe_id s)) fs"
    using raw_packet_loop_events [OF inv _ _ _ s1(1)] frames(1,3) tracker(1) room by (simp add: s0_def)
  have ft1: "ft_inv (pb_tracker s1)" "pending (pb_tracker s1) \<noteq> []" "length (pending (pb_tracker s1)) \<le> 75"
    using s1(2) evs frames(2,3) by (simp_all add: pb_inv_def ft_state_inv_def)
  obtain ts s' io' where send: "item_texts (pending (pb_tracker s1)) None (pb_probe_id s1) = Some ts"
    "length ts = length (pending (pb_tracker s1))" "send_stage sys 65537 False s1 io = Some (s', io')" "pending (pb_tracker s') = []"
    "pb_total_events s' = pb_total_events s1 + of_nat (length (pending (pb_tracker s1)))"
    "lg (io_world io') = lg (io_world io) @ http_header (cstr (tc_server_ip (pb_tcp s1))) (int (length (json_array ts))) @ json_array ts"
    using send_stage_delivers [OF ft1, of sys lg io, unfolded same, OF buf c sys] unfolding same by blast
  have it: "main_iteration sys page_size 65537 t s io = Some (stats_stage s', s', io')"
    unfolding main_iteration_def Let_def s0_def [symmetric]
    by (simp add: use stage poll_kernel_tables [OF proc] metrics send(3))
  show ?thesis
    by (intro exI conjI) (fact it send [unfolded evs same length_map])+
qed

theorem captured_traffic_delivered_witness:
  "\<exists>ts out s' io'. item_texts (map (frame_event ''stb'') [ex_rx, ex_rx]) None ''stb'' = Some ts \<and> length ts = length [ex_rx, ex_rx] \<and>
     main_iteration ex_sys 4096 65537 ex_capture ex_ready ex_io = Some (out, s', io') \<and>
     ew_log (io_world io') = http_header ''10.0.0.1'' (int (length (json_array ts))) @ json_array ts \<and>
     pending (pb_tracker s') = [] \<and> pb_total_events s' = 2"
proof -
  have fields: "pb_tracker ex_ready = ex_ft" "pb_tcp ex_ready = ex_conn" "pb_probe_id ex_ready = ''stb''"
    "pb_statics ex_ready = init_statics" "pb_anomaly ex_ready = ex_ad" "pb_use_bpf ex_ready" "bl_perf_map_fd (pb_status ex_ready) < 0"
    "pb_last_metric_ns ex_ready = 0" "pb_total_events ex_ready = 0" "length (pb_json ex_ready) = MAX_JSON_LEN * 16"
    by (simp_all add: ex_ready_def ex_probe_def)
  have inv: "pb_inv ex_ready" "pb_room 1000 ex_ready"
    using ft_inv_ex ex_ad_fresh
    by (simp_all add: pb_inv_def pb_room_def fields ft_state_inv_def init_statics_def ex_ad_def anomaly_detector_create_def)
  have fs: "filter ip_frame (tk_packets ex_capture) = [ex_rx, ex_rx]"
    using ip_frame_ex by (simp add: ex_capture_def)
  have ft: "pending ex_ft = []" "ft_active_count ex_ft + int (length [ex_rx, ex_rx]) \<le> int (ft_max_flows ex_ft)"
    by (simp_all add: ex_ft_def flow_tracker_create_def pending_def)
  have tick: "kernel_tables (tk_files ex_capture)" "tk_now ex_capture = (0, 0)"
    by (simp_all add: ex_capture_def ex_tick_def kernel_tables_def kernel_table_def)
  have c: "tc_inv ex_conn" "tc_is_connected ex_conn"
    using tcp_client_init_inv [of True "Some ''10.0.0.1''" 9104 True ex_client]
    by (simp_all add: ex_conn_def tc_inv_def ex_client_def tcp_client_init_def)
  have peer: "peer_open ex_sys (tc_sock_fd ex_conn) ew_log" by (simp add: peer_open_def ex_sys_def)
  show ?thesis
    using captured_traffic_delivered [of ex_ready "[ex_rx, ex_rx]" ex_capture ex_sys ew_log 4096 ex_io]
      inv fs ft tick c peer sys_stream_ex sys_progress_ex
    by (simp add: fields cstr_ex_conn ex_io_def)
qed

end
