(* ===== verification/Go_Lib.thy ===== *)
theory Go_Lib
  imports Payload_Parsers Table_Interfaces "HOL-Library.Sublist"
begin

text \<open>
  The part of Go and its library that the Go programs under \<open>src/pkg/protocol\<close>,
  \<open>src/internal/collector\<close> and \<open>src/internal/output\<close> use on text and bytes.  A run-time panic (an
  index or a slice bound out of range) is \<open>None\<close>, as undefined behaviour is for the C sources.  A
  \<open>[]byte\<close> is a list of bytes, a \<open>string\<close> the list of its bytes as characters; \<open>int\<close> has 64 bits, which
  no length of a packet exceeds.

  Case conversion and white space follow Unicode in Go.  The white space runes are listed below
  with their UTF-8 encodings.  \<open>strings.ToLower\<close> maps an ASCII string byte by byte; for other strings the
  Unicode case tables decide, which are the argument \<open>uc\<close>.
\<close>

section \<open>Slices and integers\<close>

definition slice :: "'a list \<Rightarrow> nat \<Rightarrow> nat \<Rightarrow> 'a list ub" where
  "slice p a b = (if a \<le> b \<and> b \<le> length p then Some (take (b - a) (drop a p)) else None)"

definition BigEndian_Uint16 :: "byte list \<Rightarrow> nat \<Rightarrow> nat \<Rightarrow> u16 ub" where
  "BigEndian_Uint16 p a b = do { s \<leftarrow> slice p a b; b0 \<leftarrow> rd s 0; b1 \<leftarrow> rd s 1; Some (be16 b0 b1) }"

definition BigEndian_Uint32 :: "byte list \<Rightarrow> nat \<Rightarrow> nat \<Rightarrow> u32 ub" where
  "BigEndian_Uint32 p a b = do {
     s \<leftarrow> slice p a b; b0 \<leftarrow> rd s 0; b1 \<leftarrow> rd s 1; b2 \<leftarrow> rd s 2; b3 \<leftarrow> rd s 3; Some (be32 b0 b1 b2 b3) }"

text \<open>Integer division of Go rounds towards zero.\<close>

definition go_div :: "int \<Rightarrow> int \<Rightarrow> int" where
  "go_div a b = (if a < 0 then - ((- a) div b) else a div b)"

section \<open>Formatting\<close>

definition hex_char :: "nat \<Rightarrow> char" where
  "hex_char d = ''0123456789abcdef'' ! d"

definition hex_byte :: "byte \<Rightarrow> string" where
  "hex_byte b = [hex_char (unat b div 16), hex_char (unat b mod 16)]"

text \<open>\<open>%x\<close> of a byte slice and of an unsigned integer.\<close>

definition hex_bytes :: "byte list \<Rightarrow> string" where
  "hex_bytes bs = concat (map hex_byte bs)"

fun show_hex :: "nat \<Rightarrow> string" where
  "show_hex n = (if n < 16 then [hex_char n] else show_hex (n div 16) @ [hex_char (n mod 16)])"

declare show_hex.simps [simp del]

section \<open>strings and bytes\<close>

definition go_string :: "byte list \<Rightarrow> string" where
  "go_string bs = map chr bs"

fun index_of :: "string \<Rightarrow> string \<Rightarrow> nat option" where
  "index_of [] sub = (if sub = [] then Some 0 else None)"
| "index_of (c # cs) sub = (if prefix sub (c # cs) then Some 0 else map_option Suc (index_of cs sub))"

definition contains :: "string \<Rightarrow> string \<Rightarrow> bool" where
  "contains s sub = (index_of s sub \<noteq> None)"

text \<open>\<open>strings.SplitN\<close> with a non-empty separator; \<open>strings.Split\<close> has as many pieces as there are.\<close>

fun split_n :: "nat \<Rightarrow> string \<Rightarrow> string \<Rightarrow> string list" where
  "split_n 0 sep s = []"
| "split_n (Suc 0) sep s = [s]"
| "split_n (Suc (Suc n)) sep s =
     (case index_of s sep of
        None \<Rightarrow> [s]
      | Some i \<Rightarrow> take i s # split_n (Suc n) sep (drop (i + length sep) s))"

definition split :: "string \<Rightarrow> string \<Rightarrow> string list" where
  "split sep s = split_n (Suc (length s)) sep s"

fun join :: "string \<Rightarrow> string list \<Rightarrow> string" where
  "join sep [] = []"
| "join sep [s] = s"
| "join sep (s # t # ts) = s @ sep @ join sep (t # ts)"

definition is_ascii :: "string \<Rightarrow> bool" where
  "is_ascii s = list_all (\<lambda>c. of_char c < (128 :: nat)) s"

definition ToLower :: "(string \<Rightarrow> string) \<Rightarrow> string \<Rightarrow> string" where
  "ToLower uc s = (if is_ascii s then map tolower s else uc s)"

text \<open>
  The encodings of the white space runes: six ASCII characters, U+0085, U+00A0, U+1680, U+2000 to
  U+200A, U+2028, U+2029, U+202F, U+205F and U+3000.
\<close>

definition space_runes :: "string list" where
  "space_runes =
     [[CHR 0x09], [CHR 0x0A], [CHR 0x0B], [CHR 0x0C], [CHR 0x0D], [CHR 0x20],
      [CHR 0xC2, CHR 0x85], [CHR 0xC2, CHR 0xA0], [CHR 0xE1, CHR 0x9A, CHR 0x80],
      [CHR 0xE2, CHR 0x80, CHR 0x80], [CHR 0xE2, CHR 0x80, CHR 0x81], [CHR 0xE2, CHR 0x80, CHR 0x82],
      [CHR 0xE2, CHR 0x80, CHR 0x83], [CHR 0xE2, CHR 0x80, CHR 0x84], [CHR 0xE2, CHR 0x80, CHR 0x85],
      [CHR 0xE2, CHR 0x80, CHR 0x86], [CHR 0xE2, CHR 0x80, CHR 0x87], [CHR 0xE2, CHR 0x80, CHR 0x88],
      [CHR 0xE2, CHR 0x80, CHR 0x89], [CHR 0xE2, CHR 0x80, CHR 0x8A], [CHR 0xE2, CHR 0x80, CHR 0xA8],
      [CHR 0xE2, CHR 0x80, CHR 0xA9], [CHR 0xE2, CHR 0x80, CHR 0xAF], [CHR 0xE2, CHR 0x81, CHR 0x9F],
      [CHR 0xE3, CHR 0x80, CHR 0x80]]"

definition space_at :: "string \<Rightarrow> nat" where
  "space_at s = (case find (\<lambda>r. prefix r s) space_runes of None \<Rightarrow> 0 | Some r \<Rightarrow> length r)"

definition space_end :: "string \<Rightarrow> nat" where
  "space_end s = (case find (\<lambda>r. suffix r s) space_runes of None \<Rightarrow> 0 | Some r \<Rightarrow> length r)"

function trim_left :: "string \<Rightarrow> string" where
  "trim_left s = (if s = [] \<or> space_at s = 0 then s else trim_left (drop (space_at s) s))"
  by pat_completeness auto
termination by (relation "measure length") auto

function trim_right :: "string \<Rightarrow> string" where
  "trim_right s = (if s = [] \<or> space_end s = 0 then s else trim_right (take (length s - space_end s) s))"
  by pat_completeness auto
termination by (relation "measure length") auto

declare trim_left.simps [simp del] trim_right.simps [simp del]

definition TrimSpace :: "string \<Rightarrow> string" where
  "TrimSpace s = trim_right (trim_left s)"

text \<open>\<open>bytes.Trim(b, "\x00")\<close> and \<open>bytes.TrimRight\<close>.\<close>

definition trim_right_nul :: "string \<Rightarrow> string" where
  "trim_right_nul s = rev (dropWhile (\<lambda>c. c = NUL) (rev s))"

definition trim_nul :: "string \<Rightarrow> string" where
  "trim_nul s = trim_right_nul (dropWhile (\<lambda>c. c = NUL) s)"

end
