(* ===== verification/Go_Dns.thy ===== *)
theory Go_Dns
  imports Go_Lib
begin

text \<open>
  \<open>src/pkg/protocol/dns.go\<close>: the DNS parser of the Go programs, with compression pointers and answers,
  the two name classifiers, and the matching of responses to queries.  The clock is an argument.
  The entropy is computed with exact real numbers in place of \<open>float64\<close>.
\<close>

section \<open>Data\<close>

record DNSEvent =
  dn_Timestamp :: int
  dn_PID :: u32
  dn_SrcIP :: string
  dn_DstIP :: string
  dn_SrcPort :: u16
  dn_DstPort :: u16
  dn_QueryID :: u16
  dn_QType :: string
  dn_QName :: string
  dn_RCode :: u8
  dn_Answers :: "string list"
  dn_LatencyMs :: int
  dn_Direction :: u8
  dn_IsNXDOMAIN :: bool
  dn_IsSuspicious :: bool
  dn_IsTunnel :: bool
  dn_IsTimeout :: bool

definition zero_DNSEvent :: DNSEvent where
  "zero_DNSEvent = \<lparr>dn_Timestamp = 0, dn_PID = 0, dn_SrcIP = [], dn_DstIP = [], dn_SrcPort = 0, dn_DstPort = 0,
     dn_QueryID = 0, dn_QType = [], dn_QName = [], dn_RCode = 0, dn_Answers = [], dn_LatencyMs = 0, dn_Direction = 0,
     dn_IsNXDOMAIN = False, dn_IsSuspicious = False, dn_IsTunnel = False, dn_IsTimeout = False\<rparr>"

section \<open>Names\<close>

text \<open>
  The loop of \<open>parseDNSName\<close>.  At most five pointers are followed, and otherwise the offset grows, so
  it ends.
\<close>

function name_loop :: "byte list \<Rightarrow> string list \<Rightarrow> bool \<Rightarrow> nat \<Rightarrow> nat \<Rightarrow> nat \<Rightarrow> (string \<times> int) ub" where
  "name_loop data parts jumped originalOffset jumps offset =
     (if length data \<le> offset then Some ([], - 1)
      else do {
        b \<leftarrow> rd data offset;
        let len = unat b;
        if len = 0 then Some (join ''.'' parts, if jumped then int originalOffset else int (offset + 1))
        else if b AND 0xC0 = 0xC0 then
          if length data \<le> offset + 1 then Some ([], - 1)
          else do {
            w \<leftarrow> BigEndian_Uint16 data offset (offset + 2);
            let pointer = unat (w AND 0x3FFF);
            let originalOffset = (if \<not> jumped then offset + 2 else originalOffset);
            if \<not> jumps < 5 then Some ([], - 1)
            else name_loop data parts True originalOffset (jumps + 1) pointer
          }
        else if 63 < len then Some ([], - 1)
        else if length data < offset + 1 + len then Some ([], - 1)
        else do {
          l \<leftarrow> slice data (offset + 1) (offset + 1 + len);
          name_loop data (parts @ [go_string l]) jumped originalOffset jumps (offset + 1 + len)
        }
      })"
  by pat_completeness auto
termination
  by (relation "measures [\<lambda>(_, _, _, _, jumps, _). 5 - jumps, \<lambda>(data, _, _, _, _, offset). length data - offset]") auto

declare name_loop.simps [simp del]

definition parseDNSName :: "byte list \<Rightarrow> nat \<Rightarrow> (string \<times> int) ub" where
  "parseDNSName data offset =
     (if length data \<le> offset then Some ([], - 1) else name_loop data [] False offset 0 offset)"

definition queryTypeName :: "u16 \<Rightarrow> string" where
  "queryTypeName qtype =
     (if qtype = 1 then ''A'' else if qtype = 2 then ''NS'' else if qtype = 5 then ''CNAME''
      else if qtype = 6 then ''SOA'' else if qtype = 12 then ''PTR'' else if qtype = 15 then ''MX''
      else if qtype = 16 then ''TXT'' else if qtype = 28 then ''AAAA'' else if qtype = 33 then ''SRV''
      else if qtype = 255 then ''ANY'' else ''TYPE'' @ show_word qtype)"

section \<open>Resource records\<close>

text \<open>The eight groups of an IPv6 address, each without leading zeros.\<close>

definition hex_groups :: "byte list \<Rightarrow> string ub" where
  "hex_groups rdata = do {
     g0 \<leftarrow> BigEndian_Uint16 rdata 0 2; g1 \<leftarrow> BigEndian_Uint16 rdata 2 4;
     g2 \<leftarrow> BigEndian_Uint16 rdata 4 6; g3 \<leftarrow> BigEndian_Uint16 rdata 6 8;
     g4 \<leftarrow> BigEndian_Uint16 rdata 8 10; g5 \<leftarrow> BigEndian_Uint16 rdata 10 12;
     g6 \<leftarrow> BigEndian_Uint16 rdata 12 14; g7 \<leftarrow> BigEndian_Uint16 rdata 14 16;
     Some (join '':'' (map (\<lambda>g. show_hex (unat g)) [g0, g1, g2, g3, g4, g5, g6, g7]))
   }"

definition dotted_quad :: "byte list \<Rightarrow> string ub" where
  "dotted_quad rdata = do {
     b0 \<leftarrow> rd rdata 0; b1 \<leftarrow> rd rdata 1; b2 \<leftarrow> rd rdata 2; b3 \<leftarrow> rd rdata 3;
     Some (join ''.'' (map show_word [b0, b1, b2, b3]))
   }"

definition parseRData :: "u16 \<Rightarrow> u16 \<Rightarrow> byte list \<Rightarrow> string ub" where
  "parseRData atype aclass rdata =
     (if aclass \<noteq> 1 then Some (''CLASS'' @ show_word aclass @ '':'' @ hex_bytes rdata)
      else if atype = 1 \<and> length rdata = 4 then dotted_quad rdata
      else if atype = 2 \<or> atype = 5 \<or> atype = 12 then map_option fst (parseDNSName rdata 0)
      else if atype = 15 \<and> 2 \<le> length rdata then do {
        pref \<leftarrow> BigEndian_Uint16 rdata 0 2;
        (name, _) \<leftarrow> parseDNSName rdata 2;
        Some (show_word pref @ '' '' @ name)
      }
      else if atype = 16 then Some (go_string rdata)
      else if atype = 28 \<and> length rdata = 16 then hex_groups rdata
      else if atype = 33 \<and> 6 \<le> length rdata then do {
        priority \<leftarrow> BigEndian_Uint16 rdata 0 2;
        weight \<leftarrow> BigEndian_Uint16 rdata 2 4;
        port \<leftarrow> BigEndian_Uint16 rdata 4 6;
        (name, _) \<leftarrow> parseDNSName rdata 6;
        Some (show_word priority @ '' '' @ show_word weight @ '' '' @ show_word port @ '' '' @ name)
      }
      else Some (hex_bytes rdata))"

section \<open>Classification of names\<close>

definition calculateEntropy :: "string \<Rightarrow> real" where
  "calculateEntropy s =
     (if s = [] then 0
      else - sum_list (map (\<lambda>c. let p = real (count_list s c) / real (length s) in p * log 2 p) (remdups s)))"

definition DetectDGADomain :: "string \<Rightarrow> bool" where
  "DetectDGADomain domain =
     (if 50 < length domain then True
      else let parts = split ''.'' domain in
        if length parts < 2 then False
        else let subdomain = hd parts in 20 < length subdomain \<and> 3.5 < calculateEntropy subdomain)"

definition DetectDNSTunnel :: "string \<Rightarrow> bool" where
  "DetectDNSTunnel domain =
     (if 60 < length domain then True else list_ex (\<lambda>p. 30 < length p) (split ''.'' domain))"

section \<open>Messages\<close>

text \<open>The loop over the answers; \<open>n\<close> is the number still announced.\<close>

fun answer_loop :: "byte list \<Rightarrow> nat \<Rightarrow> nat \<Rightarrow> string list \<Rightarrow> string list ub" where
  "answer_loop payload 0 offset answers = Some answers"
| "answer_loop payload (Suc n) offset answers =
     (if \<not> offset < length payload then Some answers
      else do {
        (name, newOffset) \<leftarrow> parseDNSName payload offset;
        if newOffset < 0 \<or> int (length payload) < newOffset + 10 then Some answers
        else do {
          let o1 = nat newOffset;
          atype \<leftarrow> BigEndian_Uint16 payload o1 (o1 + 2);
          aclass \<leftarrow> BigEndian_Uint16 payload (o1 + 2) (o1 + 4);
          ttl \<leftarrow> BigEndian_Uint32 payload (o1 + 4) (o1 + 8);
          rdlen \<leftarrow> BigEndian_Uint16 payload (o1 + 8) (o1 + 10);
          let o2 = o1 + 10;
          if length payload < o2 + unat rdlen then Some answers
          else do {
            rdata \<leftarrow> slice payload o2 (o2 + unat rdlen);
            text \<leftarrow> parseRData atype aclass rdata;
            let answer = name @ '' '' @ queryTypeName atype @ '' '' @ show_word ttl @ '' '' @ text;
            answer_loop payload n (o2 + unat rdlen) (answers @ [answer])
          }
        }
      })"

text \<open>
  The question, if there is one: name, type and where the answers start.  \<open>Some None\<close> is the
  result \<open>nil\<close>.
\<close>

definition dns_question :: "byte list \<Rightarrow> u16 \<Rightarrow> (string \<times> string \<times> nat) ptr ub" where
  "dns_question payload questions =
     (if 0 < questions then do {
        (name, newOffset) \<leftarrow> parseDNSName payload 12;
        if newOffset < 0 \<or> int (length payload) < newOffset + 2 then Some None
        else do {
          qtype \<leftarrow> BigEndian_Uint16 payload (nat newOffset) (nat newOffset + 2);
          Some (Some (name, queryTypeName qtype, nat newOffset + 4))
        }
      } else Some (Some ([], [], 12)))"

definition ParseDNSPacket ::
  "int \<Rightarrow> byte list \<Rightarrow> string \<Rightarrow> string \<Rightarrow> u16 \<Rightarrow> u16 \<Rightarrow> u8 \<Rightarrow> DNSEvent ptr ub" where
  "ParseDNSPacket now payload srcIP dstIP srcPort dstPort direction =
     (if length payload < 12 then Some None
      else do {
        qid \<leftarrow> BigEndian_Uint16 payload 0 2;
        flags \<leftarrow> BigEndian_Uint16 payload 2 4;
        let isResponse = drop_bit 15 flags AND 1;
        let rcode = ucast (flags AND 0x0F);
        questions \<leftarrow> BigEndian_Uint16 payload 4 6;
        answerRRs \<leftarrow> BigEndian_Uint16 payload 6 8;
        question \<leftarrow> dns_question payload questions;
        case question of
          None \<Rightarrow> Some None
        | Some (name, qtype, offset) \<Rightarrow> do {
            answers \<leftarrow> (if isResponse = 1 \<and> 0 < answerRRs then answer_loop payload (unat answerRRs) offset [] else Some []);
            Some (Some (zero_DNSEvent\<lparr>dn_Timestamp := now, dn_SrcIP := srcIP, dn_DstIP := dstIP, dn_SrcPort := srcPort,
              dn_DstPort := dstPort, dn_QueryID := qid, dn_QType := qtype, dn_QName := name, dn_RCode := rcode,
              dn_Answers := answers, dn_Direction := direction, dn_IsNXDOMAIN := (rcode = 3),
              dn_IsSuspicious := DetectDGADomain name, dn_IsTunnel := DetectDNSTunnel name\<rparr>))
          }
      })"

text \<open>
  The older entry point \<open>ParseDNS\<close>.  Its last slice expression is not guarded by the length, and Go
  checks a slice bound against the capacity: the argument \<open>buf\<close> is the array from the start of the
  slice up to its capacity, of which \<open>len\<close> bytes are the payload.
\<close>

record DNSRecord =
  dr_Timestamp :: int
  dr_ProbeID :: string
  dr_SrcIP :: string
  dr_DstIP :: string
  dr_SrcPort :: u16
  dr_DstPort :: u16
  dr_QueryName :: string
  dr_QueryType :: string
  dr_ResponseCode :: int
  dr_LatencyMs :: real
  dr_IsNXDOMAIN :: bool
  dr_IsSuspicious :: bool
  dr_IsTunnel :: bool

function old_name_loop :: "byte list \<Rightarrow> nat \<Rightarrow> nat \<Rightarrow> string list \<Rightarrow> (nat \<times> string list) ub" where
  "old_name_loop buf len offset nameParts =
     (if \<not> offset < len then Some (offset, nameParts)
      else do {
        b \<leftarrow> rd buf offset;
        let l = unat b;
        if l = 0 then Some (offset + 1, nameParts)
        else if b AND 0xC0 = 0xC0 then Some (offset + 2, nameParts)
        else if len < offset + 1 + l then Some (offset, nameParts)
        else do {
          s \<leftarrow> slice buf (offset + 1) (offset + 1 + l);
          old_name_loop buf len (offset + 1 + l) (nameParts @ [go_string s])
        }
      })"
  by pat_completeness auto
termination
  by (relation "measure (\<lambda>(_, len, offset, _). len - offset)") auto

declare old_name_loop.simps [simp del]

definition ParseDNS ::
  "int \<Rightarrow> byte list \<Rightarrow> nat \<Rightarrow> string \<Rightarrow> string \<Rightarrow> u16 \<Rightarrow> u16 \<Rightarrow> DNSRecord ptr ub" where
  "ParseDNS now buf len srcIP dstIP srcPort dstPort =
     (if len < 12 then Some None
      else do {
        flags \<leftarrow> BigEndian_Uint16 buf 2 4;
        questions \<leftarrow> BigEndian_Uint16 buf 4 6;
        if questions = 0 then Some None
        else do {
          (offset, nameParts) \<leftarrow> old_name_loop buf len 12 [];
          let name = join ''.'' nameParts;
          qtype \<leftarrow> BigEndian_Uint16 buf offset (offset + 2);
          Some (Some \<lparr>dr_Timestamp = now, dr_ProbeID = [], dr_SrcIP = srcIP, dr_DstIP = dstIP, dr_SrcPort = srcPort,
            dr_DstPort = dstPort, dr_QueryName = name, dr_QueryType = queryTypeName qtype,
            dr_ResponseCode = int (unat (flags AND 0x0F)), dr_LatencyMs = 0, dr_IsNXDOMAIN = (unat (flags AND 0x0F) = 3),
            dr_IsSuspicious = DetectDGADomain name, dr_IsTunnel = DetectDNSTunnel name\<rparr>)
        }
      })"

definition BuildDNSEvent :: "DNSEvent ptr \<Rightarrow> DNSEvent ptr \<Rightarrow> DNSEvent ptr" where
  "BuildDNSEvent query_p response_p =
     (case (query_p, response_p) of
        (Some q, Some r) \<Rightarrow> Some (zero_DNSEvent\<lparr>dn_Timestamp := dn_Timestamp q, dn_PID := dn_PID q,
          dn_SrcIP := dn_SrcIP q, dn_DstIP := dn_DstIP q, dn_SrcPort := dn_SrcPort q, dn_DstPort := dn_DstPort q,
          dn_QueryID := dn_QueryID q, dn_QType := dn_QType q, dn_QName := dn_QName q, dn_RCode := dn_RCode r,
          dn_Answers := dn_Answers r, dn_LatencyMs := dn_LatencyMs r, dn_Direction := 1,
          dn_IsNXDOMAIN := dn_IsNXDOMAIN r, dn_IsSuspicious := dn_IsSuspicious q \<or> dn_IsSuspicious r,
          dn_IsTunnel := dn_IsTunnel q \<or> dn_IsTunnel r\<rparr>)
      | _ \<Rightarrow> None)"

section \<open>Matching responses to queries\<close>

text \<open>Times are in nanoseconds.  Every operation holds the mutex from its start to its end.\<close>

record DNSMatchKey =
  dk_QueryID :: u16
  dk_SrcIP :: string
  dk_SrcPort :: u16
  dk_DstIP :: string
  dk_DstPort :: u16

record DNSPending =
  dp_Key :: DNSMatchKey
  dp_QName :: string
  dp_QType :: string
  dp_Timestamp :: int

record DNSMatcher =
  dm_requests :: "DNSMatchKey \<rightharpoonup> DNSPending"
  dm_window :: int

definition NewDNSMatcher :: "int \<Rightarrow> DNSMatcher" where
  "NewDNSMatcher window = \<lparr>dm_requests = Map.empty, dm_window = (if window \<le> 0 then 10000000000 else window)\<rparr>"

definition dns_cleanup :: "int \<Rightarrow> DNSMatcher \<Rightarrow> DNSMatcher" where
  "dns_cleanup before m = m\<lparr>dm_requests := (\<lambda>k. case dm_requests m k of
     None \<Rightarrow> None | Some v \<Rightarrow> if dp_Timestamp v < before then None else Some v)\<rparr>"

text \<open>One tick of the background loop.\<close>

definition dns_cleanup_tick :: "int \<Rightarrow> DNSMatcher \<Rightarrow> DNSMatcher" where
  "dns_cleanup_tick now m = dns_cleanup (now - dm_window m) m"

definition RecordQuery :: "DNSMatchKey \<Rightarrow> string \<Rightarrow> string \<Rightarrow> int \<Rightarrow> DNSMatcher \<Rightarrow> DNSMatcher" where
  "RecordQuery key qname qtype ts m = m\<lparr>dm_requests := (dm_requests m)(key \<mapsto>
     \<lparr>dp_Key = key, dp_QName = qname, dp_QType = qtype, dp_Timestamp = ts\<rparr>)\<rparr>"

definition MatchResponse :: "int \<Rightarrow> DNSMatchKey \<Rightarrow> DNSMatcher \<Rightarrow> (DNSPending ptr \<times> int \<times> bool) \<times> DNSMatcher" where
  "MatchResponse now key m =
     (case dm_requests m key of
        None \<Rightarrow> ((None, 0, False), m)
      | Some req \<Rightarrow> ((Some req, go_div (now - dp_Timestamp req) 1000000, True),
          m\<lparr>dm_requests := (dm_requests m)(key := None)\<rparr>))"

text \<open>The operations of the matcher as the steps of \<open>request_matcher\<close>.\<close>

fun dns_entry :: "DNSMatchKey \<Rightarrow> string \<times> string \<times> int \<Rightarrow> DNSPending" where
  "dns_entry key (qname, qtype, ts) = \<lparr>dp_Key = key, dp_QName = qname, dp_QType = qtype, dp_Timestamp = ts\<rparr>"

fun dns_note :: "DNSMatchKey \<Rightarrow> string \<times> string \<times> int \<Rightarrow> DNSMatcher \<Rightarrow> DNSMatcher" where
  "dns_note key (qname, qtype, ts) m = RecordQuery key qname qtype ts m"

definition dns_take :: "DNSMatchKey \<Rightarrow> DNSMatcher \<Rightarrow> DNSMatcher" where
  "dns_take key m = snd (MatchResponse 0 key m)"

fun dns_apply :: "(DNSMatchKey, string \<times> string \<times> int) match_op \<Rightarrow> DNSMatcher \<Rightarrow> DNSMatcher" where
  "dns_apply (Note key a) m = dns_note key a m"
| "dns_apply (Take key) m = dns_take key m"
| "dns_apply (Expire before) m = dns_cleanup before m"

section \<open>Specification of names\<close>

text \<open>
  RFC 1035, section 4.1.4: at \<open>off\<close> stands a name with labels \<open>ls\<close>, read through \<open>j\<close> pointers, and
  the next field of the message stands at \<open>nxt\<close>.
\<close>

inductive name_at :: "byte list \<Rightarrow> nat \<Rightarrow> string list \<Rightarrow> nat \<Rightarrow> nat \<Rightarrow> bool" for data where
  root: "off < length data \<Longrightarrow> data ! off = 0 \<Longrightarrow> name_at data off [] 0 (off + 1)"
| label: "off < length data \<Longrightarrow> 0 < unat (data ! off) \<Longrightarrow> unat (data ! off) \<le> 63 \<Longrightarrow>
    off + 1 + unat (data ! off) \<le> length data \<Longrightarrow> name_at data (off + 1 + unat (data ! off)) ls j nxt \<Longrightarrow>
    name_at data off (go_string (take (unat (data ! off)) (drop (off + 1) data)) # ls) j nxt"
| pointer: "off + 1 < length data \<Longrightarrow> data ! off AND 0xC0 = 0xC0 \<Longrightarrow>
    name_at data (unat (be16 (data ! off) (data ! (off + 1)) AND 0x3FFF)) ls j nxt \<Longrightarrow>
    name_at data off ls (Suc j) (off + 2)"

inductive_cases name_at_elim: "name_at data off ls j nxt"

text \<open>
  An address record of an answer as servers send it: its name is a pointer to the question at
  offset 12.
\<close>

definition a_record :: "u32 \<times> byte list \<Rightarrow> byte list" where
  "a_record = (\<lambda>(ttl, quad). [0xC0, 0x0C] @ u16_bytes 1 @ u16_bytes 1 @ u32_bytes ttl @ u16_bytes 4 @ quad)"

definition a_text :: "string \<Rightarrow> u32 \<times> byte list \<Rightarrow> string" where
  "a_text name = (\<lambda>(ttl, quad). name @ '' A '' @ show_word ttl @ '' '' @ join ''.'' (map show_word quad))"

definition dns_labels_ok :: "string list \<Rightarrow> bool" where
  "dns_labels_ok ls \<longleftrightarrow> (\<forall>l \<in> set ls. l \<noteq> [] \<and> length l \<le> 63)"

definition ex_dns_key :: DNSMatchKey where
  "ex_dns_key = \<lparr>dk_QueryID = 7, dk_SrcIP = ''10.0.0.2'', dk_SrcPort = 4711, dk_DstIP = ''10.0.0.3'', dk_DstPort = 53\<rparr>"

section \<open>Lemmas\<close>

lemma slice_Some [simp]: "a \<le> b \<Longrightarrow> b \<le> length p \<Longrightarrow> slice p a b = Some (take (b - a) (drop a p))"
  by (simp add: slice_def)

lemma BigEndian_Uint16_at:
  "off + 2 \<le> length p \<Longrightarrow> b = off + 2 \<Longrightarrow> BigEndian_Uint16 p off b = Some (be16 (p ! off) (p ! (off + 1)))"
  by (simp add: BigEndian_Uint16_def)

lemma BigEndian_Uint32_at:
  "off + 4 \<le> length p \<Longrightarrow> b = off + 4 \<Longrightarrow>
   BigEndian_Uint32 p off b = Some (be32 (p ! off) (p ! (off + 1)) (p ! (off + 2)) (p ! (off + 3)))"
  by (simp add: BigEndian_Uint32_def)

lemma pointer_large: "b AND 0xC0 = 0xC0 \<Longrightarrow> 192 \<le> unat (b :: byte)"
proof -
  assume "b AND 0xC0 = 0xC0"
  moreover have "b AND 0xC0 \<le> b" by (rule word_and_le2)
  ultimately have "unat (0xC0 :: byte) \<le> unat b" by (simp add: word_le_nat_alt)
  then show ?thesis by simp
qed

text \<open>The four ways in which a round of the loop goes.\<close>

lemma name_loop_root:
  "off < length data \<Longrightarrow> data ! off = 0 \<Longrightarrow>
   name_loop data parts jumped orig jumps off = Some (join ''.'' parts, if jumped then int orig else int (off + 1))"
  by (subst name_loop.simps) simp

lemma name_loop_label:
  assumes "off < length data" "0 < unat (data ! off)" "unat (data ! off) \<le> 63" "off + 1 + unat (data ! off) \<le> length data"
  shows "name_loop data parts jumped orig jumps off =
    name_loop data (parts @ [go_string (take (unat (data ! off)) (drop (off + 1) data))]) jumped orig jumps
      (off + 1 + unat (data ! off))"
proof -
  have "data ! off AND 0xC0 \<noteq> 0xC0" using assms(3) pointer_large [of "data ! off"] by auto
  with assms show ?thesis by (subst name_loop.simps) (simp add: Let_def)
qed

lemma name_loop_pointer:
  assumes "off + 1 < length data" "data ! off AND 0xC0 = 0xC0"
  shows "name_loop data parts jumped orig jumps off =
    (if jumps < 5 then name_loop data parts True (if jumped then orig else off + 2) (Suc jumps)
       (unat (be16 (data ! off) (data ! (off + 1)) AND 0x3FFF))
     else Some ([], - 1))"
proof -
  have "unat (data ! off) \<noteq> 0" using assms(2) pointer_large [of "data ! off"] by auto
  then show ?thesis using assms
    by (subst name_loop.simps) (simp add: Let_def BigEndian_Uint16_at del: unat_eq_0)
qed

lemma name_loop_cases:
  obtains (outside) "name_loop data parts jumped orig jumps off = Some ([], - 1)"
      "\<not> (\<exists>ls j nxt. name_at data off ls j nxt)"
    | (root) "off < length data" "data ! off = 0"
    | (label) "off < length data" "0 < unat (data ! off)" "unat (data ! off) \<le> 63" "off + 1 + unat (data ! off) \<le> length data"
    | (pointer) "off + 1 < length data" "data ! off AND 0xC0 = 0xC0"
proof -
  define b where "b = data ! off"
  have no: "\<not> (\<exists>ls j nxt. name_at data off ls j nxt)"
    if "\<not> (off < length data \<and> b = 0)"
      "\<not> (off < length data \<and> 0 < unat b \<and> unat b \<le> 63 \<and> off + 1 + unat b \<le> length data)"
      "\<not> (off + 1 < length data \<and> b AND 0xC0 = 0xC0)"
    using that unfolding b_def by (auto elim: name_at_elim)
  have err: "name_loop data parts jumped orig jumps off = Some ([], - 1)"
    if "\<not> (off < length data \<and> b = 0)"
      "\<not> (off < length data \<and> 0 < unat b \<and> unat b \<le> 63 \<and> off + 1 + unat b \<le> length data)"
      "\<not> (off + 1 < length data \<and> b AND 0xC0 = 0xC0)"
    using that unfolding b_def
    by (subst name_loop.simps) (auto simp: Let_def unat_eq_0)
  consider "off < length data \<and> b = 0"
    | "off < length data \<and> 0 < unat b \<and> unat b \<le> 63 \<and> off + 1 + unat b \<le> length data"
    | "off + 1 < length data \<and> b AND 0xC0 = 0xC0"
    | "name_loop data parts jumped orig jumps off = Some ([], - 1)" "\<not> (\<exists>ls j nxt. name_at data off ls j nxt)"
    using err no by blast
  then show thesis by cases (use that in \<open>auto simp: b_def\<close>)
qed

lemma name_loop_complete:
  assumes "name_at data off ls j nxt" "jumps + j \<le> 5"
  shows "name_loop data parts jumped orig jumps off = Some (join ''.'' (parts @ ls), if jumped then int orig else int nxt)"
  using assms
proof (induction arbitrary: parts jumped orig jumps)
  case (root off)
  then show ?case by (simp add: name_loop_root)
next
  case (label off ls j nxt)
  then show ?case by (simp add: name_loop_label)
next
  case (pointer off ls j nxt)
  then show ?case by (simp add: name_loop_pointer)
qed

lemma name_loop_spec:
  "(\<exists>ls j nxt. name_at data off ls j nxt \<and> jumps + j \<le> 5) \<or> name_loop data parts jumped orig jumps off = Some ([], - 1)"
  if "jumps \<le> 5"
  using that
proof (induction "(5 - jumps) * Suc (length data) + (length data - off)" arbitrary: parts jumped orig jumps off rule: less_induct)
  case less
  show ?case
  proof (cases rule: name_loop_cases [of data parts jumped orig jumps off])
    case root
    then have "name_at data off [] 0 (off + 1)" by (rule name_at.root)
    with less.prems show ?thesis by (metis add_0_right)
  next
    case label
    then have "(5 - jumps) * Suc (length data) + (length data - (off + 1 + unat (data ! off))) <
        (5 - jumps) * Suc (length data) + (length data - off)" by linarith
    from less.hyps [OF this less.prems] show ?thesis
      by (metis name_at.label [OF label] name_loop_label [OF label])
  next
    case pointer
    show ?thesis
    proof (cases "jumps < 5")
      case True
      let ?p = "unat (be16 (data ! off) (data ! (off + 1)) AND 0x3FFF)"
      have "5 - jumps = Suc (5 - Suc jumps)" using True by simp
      then have "(5 - Suc jumps) * Suc (length data) + (length data - ?p) <
          (5 - jumps) * Suc (length data) + (length data - off)"
        by simp
      from less.hyps [OF this, of parts True "if jumped then orig else off + 2"] True
      have "(\<exists>ls j nxt. name_at data ?p ls j nxt \<and> Suc jumps + j \<le> 5) \<or>
          name_loop data parts True (if jumped then orig else off + 2) (Suc jumps) ?p = Some ([], - 1)" by simp
      then show ?thesis
      proof
        assume "\<exists>ls j nxt. name_at data ?p ls j nxt \<and> Suc jumps + j \<le> 5"
        then show ?thesis using name_at.pointer [OF pointer] by (metis add_Suc_shift)
      qed (simp add: name_loop_pointer [OF pointer])
    qed (simp add: name_loop_pointer [OF pointer])
  qed blast
qed

lemma name_at_inside: "name_at data off ls j nxt \<Longrightarrow> off < length data"
  by (erule name_at_elim) auto

lemma parseDNSName_complete:
  "name_at data off ls j nxt \<Longrightarrow> j \<le> 5 \<Longrightarrow> parseDNSName data off = Some (join ''.'' ls, int nxt)"
  using name_loop_complete [of data off ls j nxt 0 "[]" False off] name_at_inside
  by (fastforce simp: parseDNSName_def)

lemma parseDNSName_cases:
  obtains ls j nxt where "name_at data off ls j nxt" "j \<le> 5" "parseDNSName data off = Some (join ''.'' ls, int nxt)"
  | "parseDNSName data off = Some ([], - 1)"
proof (cases "length data \<le> off")
  case True
  then show thesis by (intro that(2)) (simp add: parseDNSName_def)
next
  case False
  have "(0 :: nat) \<le> 5" by simp
  from name_loop_spec [OF this, of data off "[]" False off] show thesis
  proof
    assume "\<exists>ls j nxt. name_at data off ls j nxt \<and> 0 + j \<le> 5"
    then show thesis using that(1) parseDNSName_complete by fastforce
  next
    assume "name_loop data [] False off 0 off = Some ([], - 1)"
    then show thesis using False that(2) by (simp add: parseDNSName_def)
  qed
qed

lemma parseDNSName_defined: "\<exists>n o1. parseDNSName data off = Some (n, o1)"
  by (rule parseDNSName_cases [of data off]) auto

lemma parseRData_defined: "\<exists>t. parseRData atype aclass rdata = Some t"
proof -
  define ok where "ok x \<longleftrightarrow> (\<exists>t. x = Some t)" for x :: "string ub"
  have ite: "(c \<Longrightarrow> ok a) \<Longrightarrow> (\<not> c \<Longrightarrow> ok b) \<Longrightarrow> ok (if c then a else b)" for c a b by simp
  have "ok (Some t)" for t by (simp add: ok_def)
  moreover have "ok (map_option fst (parseDNSName r o1))" for r o1
    using parseDNSName_defined [of r o1] by (auto simp: ok_def)
  moreover have "ok (dotted_quad rdata)" if "atype = 1 \<and> length rdata = 4"
    using that by (simp add: ok_def dotted_quad_def)
  moreover have "ok (hex_groups rdata)" if "atype = 28 \<and> length rdata = 16"
    using that by (simp add: ok_def hex_groups_def BigEndian_Uint16_at)
  moreover have "ok (do { pref \<leftarrow> BigEndian_Uint16 rdata 0 2; (name, _) \<leftarrow> parseDNSName rdata 2;
      Some (show_word pref @ '' '' @ name) })" if "atype = 15 \<and> 2 \<le> length rdata"
    using that parseDNSName_defined [of rdata 2] by (auto simp: ok_def BigEndian_Uint16_at)
  moreover have "ok (do { priority \<leftarrow> BigEndian_Uint16 rdata 0 2; weight \<leftarrow> BigEndian_Uint16 rdata 2 4;
      port \<leftarrow> BigEndian_Uint16 rdata 4 6; (name, _) \<leftarrow> parseDNSName rdata 6;
      Some (show_word priority @ '' '' @ show_word weight @ '' '' @ show_word port @ '' '' @ name) })"
    if "atype = 33 \<and> 6 \<le> length rdata"
    using that parseDNSName_defined [of rdata 6] by (auto simp: ok_def BigEndian_Uint16_at)
  ultimately have "ok (parseRData atype aclass rdata)"
    unfolding parseRData_def by (intro ite) blast+
  then show ?thesis by (simp add: ok_def)
qed

lemma answer_loop_defined: "\<exists>as. answer_loop payload n off answers = Some as"
proof (induction n arbitrary: off answers)
  case (Suc n)
  obtain name o1 where name: "parseDNSName payload off = Some (name, o1)" using parseDNSName_defined by blast
  show ?case
  proof (cases "o1 < 0 \<or> int (length payload) < o1 + 10")
    case False
    define k where "k = nat o1"
    have k: "k + 10 \<le> length payload" using False unfolding k_def by linarith
    then obtain atype aclass rdlen ttl where
      fields: "BigEndian_Uint16 payload k (k + 2) = Some atype" "BigEndian_Uint16 payload (k + 2) (k + 4) = Some aclass"
        "BigEndian_Uint16 payload (k + 8) (k + 10) = Some rdlen" "BigEndian_Uint32 payload (k + 4) (k + 8) = Some ttl"
      by (simp add: BigEndian_Uint16_at BigEndian_Uint32_at)
    obtain t where "parseRData atype aclass (take (unat rdlen) (drop (k + 10) payload)) = Some t"
      using parseRData_defined by blast
    with name Suc.IH False fields show ?thesis by (simp add: Let_def k_def [symmetric])
  qed (simp add: name)
qed simp

lemma dns_question_defined: "\<exists>q. dns_question payload questions = Some q"
proof -
  obtain name o1 where name: "parseDNSName payload 12 = Some (name, o1)" using parseDNSName_defined by blast
  obtain k where k: "k = nat o1" by blast
  have "BigEndian_Uint16 payload k (k + 2) = Some (be16 (payload ! k) (payload ! (k + 1)))"
    if "\<not> (o1 < 0 \<or> int (length payload) < o1 + 2)"
    using that unfolding k by (intro BigEndian_Uint16_at) linarith+
  with name show ?thesis unfolding dns_question_def by (auto simp: k [symmetric])
qed

lemma ParseDNSPacket_defined: "\<exists>r. ParseDNSPacket now payload srcIP dstIP sp dp dir = Some r"
proof (cases "length payload < 12")
  case False
  then obtain qid flags questions answerRRs where
    fields: "BigEndian_Uint16 payload 0 2 = Some qid" "BigEndian_Uint16 payload 2 4 = Some flags"
      "BigEndian_Uint16 payload 4 6 = Some questions" "BigEndian_Uint16 payload 6 8 = Some answerRRs"
    by (simp add: BigEndian_Uint16_at)
  obtain q where q: "dns_question payload questions = Some q" using dns_question_defined by blast
  from False show ?thesis
  proof (cases q)
    case (Some x)
    obtain name qtype off where x: "x = (name, qtype, off)" by (cases x)
    obtain as where "answer_loop payload (unat answerRRs) off [] = Some as" using answer_loop_defined by blast
    with Some False fields q x show ?thesis by (simp add: ParseDNSPacket_def Let_def)
  qed (simp add: ParseDNSPacket_def fields q Let_def)
qed (simp add: ParseDNSPacket_def)

lemma length_dns_label [simp]: "length (dns_label l) = Suc (length l)"
  by (simp add: dns_label_def)

lemma name_at_labels:
  assumes "dns_labels_ok ls" "data = pre @ concat (map dns_label ls) @ 0 # r"
  shows "name_at data (length pre) ls 0 (length pre + length (concat (map dns_label ls)) + 1)"
  using assms
proof (induction ls arbitrary: pre)
  case Nil
  then show ?case using name_at.root [of "length pre" data] by simp
next
  case (Cons l ls)
  have l: "length l \<le> 63" "l \<noteq> []" "dns_labels_ok ls" using Cons.prems(1) by (auto simp: dns_labels_ok_def)
  have d: "data = (pre @ dns_label l) @ concat (map dns_label ls) @ 0 # r" using Cons.prems(2) by simp
  have len: "unat (data ! length pre) = length l"
    using l(1) Cons.prems(2) by (simp add: dns_label_def nth_append unat_of_nat_less)
  have "take (length l) (drop (length pre + 1) data) = bytes_of l"
    using Cons.prems(2) by (simp add: dns_label_def)
  then have "go_string (take (length l) (drop (length pre + 1) data)) = l" by (simp add: go_string_def)
  moreover have "name_at data (length pre + 1 + length l) ls 0 (length (pre @ dns_label l) + length (concat (map dns_label ls)) + 1)"
    using Cons.IH [OF l(3) d] by simp
  ultimately show ?case
    using name_at.label [of "length pre" data ls 0] l len Cons.prems(2) by (simp add: add_ac)
qed

lemma BigEndian_Uint16_field:
  "k + i + 2 \<le> length p \<Longrightarrow> b = k + i + 2 \<Longrightarrow> BigEndian_Uint16 p (k + i) b = Some (be16 (p ! (k + i)) (p ! (k + (i + 1))))"
  using BigEndian_Uint16_at [of "k + i" p b] by (simp add: add.assoc)

lemma BigEndian_Uint32_field:
  "k + i + 4 \<le> length p \<Longrightarrow> b = k + i + 4 \<Longrightarrow>
   BigEndian_Uint32 p (k + i) b = Some (be32 (p ! (k + i)) (p ! (k + (i + 1))) (p ! (k + (i + 2))) (p ! (k + (i + 3))))"
  using BigEndian_Uint32_at [of "k + i" p b] by (simp add: add.assoc)

lemma answer_loop_step:
  assumes "off < length p" "parseDNSName p off = Some (name, int m)" "m10 + unat rdlen \<le> length p"
    and "BigEndian_Uint16 p m m2 = Some atype" "BigEndian_Uint16 p m2 m4 = Some aclass"
    and "BigEndian_Uint32 p m4 m8 = Some ttl" "BigEndian_Uint16 p m8 m10 = Some rdlen"
    and "m2 = m + 2" "m4 = m + 4" "m8 = m + 8" "m10 = m + 10"
    and "parseRData atype aclass (take (unat rdlen) (drop m10 p)) = Some t"
  shows "answer_loop p (Suc n) off as = answer_loop p n (m10 + unat rdlen)
    (as @ [name @ '' '' @ queryTypeName atype @ '' '' @ show_word ttl @ '' '' @ t])"
  using assms by (simp add: Let_def)

lemma answer_loop_records:
  assumes "name_at data 12 ls 0 nxt" "data = pre @ concat (map a_record rs) @ r" "\<forall>(ttl, quad) \<in> set rs. length quad = 4"
  shows "answer_loop data (length rs) (length pre) as = Some (as @ map (a_text (join ''.'' ls)) rs)"
  using assms(2,3)
proof (induction rs arbitrary: pre as)
  case (Cons x rs)
  obtain ttl quad where x: "x = (ttl, quad)" by (cases x)
  obtain b0 b1 b2 b3 where quad: "quad = [b0, b1, b2, b3]"
    using Cons.prems(2) x by (auto simp: length_Suc_conv eval_nat_numeral)
  define k where "k = length pre"
  define y where "y = concat (map a_record rs) @ r"
  have data: "data = pre @ a_record x @ y" using Cons.prems(1) by (simp add: y_def)
  have rec: "a_record x = [0xC0, 0x0C, 0, 1, 0, 1] @ u32_bytes ttl @ [0, 4, b0, b1, b2, b3]"
    by (simp add: x quad a_record_def u16_bytes_def)
  have len: "k + 16 \<le> length data" using data rec by (simp add: k_def)
  have byte: "data ! (k + i) = a_record x ! i" if "i < 16" for i
  proof -
    have "length (a_record x) = 16" by (simp add: rec)
    with that show ?thesis by (simp add: data k_def nth_append)
  qed
  have bytes: "data ! k = 0xC0" "data ! (k + 1) = 0x0C" "data ! (k + 2) = 0" "data ! (k + 3) = 1" "data ! (k + 4) = 0"
    "data ! (k + 5) = 1" "data ! (k + 10) = 0" "data ! (k + 11) = 4"
    "be32 (data ! (k + 6)) (data ! (k + 7)) (data ! (k + 8)) (data ! (k + 9)) = ttl"
    using byte [of 0] byte [of 1] byte [of 2] byte [of 3] byte [of 4] byte [of 5] byte [of 6] byte [of 7] byte [of 8]
      byte [of 9] byte [of 10] byte [of 11]
    by (simp_all add: rec u32_bytes_def endian_simps)
  have "name_at data k ls 1 (k + 2)"
    using name_at.pointer [of k data ls 0 nxt] len assms(1) bytes(1,2) by (simp add: be16_def)
  then have name: "parseDNSName data k = Some (join ''.'' ls, int (k + 2))"
    by (rule parseDNSName_complete) (rule one_le_numeral)
  have "be16 0 1 = 1" "be16 0 4 = 4" by (simp_all add: be16_def)
  then have fields: "BigEndian_Uint16 data (k + 2) (k + 4) = Some 1" "BigEndian_Uint16 data (k + 4) (k + 6) = Some 1"
    "BigEndian_Uint32 data (k + 6) (k + 10) = Some ttl" "BigEndian_Uint16 data (k + 10) (k + 12) = Some 4"
    using len bytes BigEndian_Uint16_field [of k 2 data "k + 4"] BigEndian_Uint16_field [of k 4 data "k + 6"]
      BigEndian_Uint16_field [of k 10 data "k + 12"] BigEndian_Uint32_field [of k 6 data "k + 10"]
    by simp_all
  have quad4: "take 4 (drop (k + 12) data) = quad" by (simp add: data k_def rec quad)
  have rtext: "parseRData 1 1 quad = Some (join ''.'' (map show_word quad))"
    by (simp add: parseRData_def dotted_quad_def quad)
  have "answer_loop data (Suc (length rs)) k as = answer_loop data (length rs) (k + 12 + unat (4 :: u16))
      (as @ [join ''.'' ls @ '' '' @ queryTypeName 1 @ '' '' @ show_word ttl @ '' '' @ join ''.'' (map show_word quad)])"
    by (rule answer_loop_step [OF _ name _ fields]) (use len in \<open>simp_all add: quad4 rtext\<close>)
  moreover have "k + 12 + unat (4 :: u16) = k + 16" "length (x # rs) = Suc (length rs)" by simp_all
  moreover have "join ''.'' ls @ '' '' @ queryTypeName 1 @ '' '' @ show_word ttl @ '' '' @ join ''.'' (map show_word quad) =
      a_text (join ''.'' ls) x" by (simp add: queryTypeName_def a_text_def x)
  ultimately have "answer_loop data (length (x # rs)) k as =
      answer_loop data (length rs) (k + 16) (as @ [a_text (join ''.'' ls) x])" by (simp only:)
  also have "\<dots> = Some ((as @ [a_text (join ''.'' ls) x]) @ map (a_text (join ''.'' ls)) rs)"
    using Cons.IH [of "pre @ a_record x" "as @ [a_text (join ''.'' ls) x]"] Cons.prems by (simp add: k_def rec)
  finally show ?case by (simp add: k_def)
qed simp

lemma old_name_loop_labels:
  assumes "dns_labels_ok ls" "p = pre @ concat (map dns_label ls)"
  shows "old_name_loop p (length p) (length pre) parts = Some (length p, parts @ ls)"
  using assms
proof (induction ls arbitrary: pre parts)
  case Nil
  then show ?case by (subst old_name_loop.simps) simp
next
  case (Cons l ls)
  have l: "length l \<le> 63" "l \<noteq> []" "dns_labels_ok ls" using Cons.prems(1) by (auto simp: dns_labels_ok_def)
  have p: "p = (pre @ dns_label l) @ concat (map dns_label ls)" using Cons.prems(2) by simp
  have b: "p ! length pre = of_nat (length l)" "unat (of_nat (length l) :: byte) = length l"
    using l(1) Cons.prems(2) by (simp_all add: dns_label_def nth_append unat_of_nat_less)
  have "(of_nat (length l) :: byte) AND 0xC0 \<noteq> 0xC0" using pointer_large [of "of_nat (length l)"] b(2) l(1) by auto
  moreover have "take (length l) (drop (length pre + 1) p) = bytes_of l" using Cons.prems(2) by (simp add: dns_label_def)
  ultimately have "old_name_loop p (length p) (length pre) parts = old_name_loop p (length p) (length pre + 1 + length l) (parts @ [l])"
    using l b Cons.prems(2) by (subst old_name_loop.simps) (simp add: Let_def go_string_def)
  then show ?case using Cons.IH [OF l(3) p, of "parts @ [l]"] by simp
qed

lemma name_loop_truncated:
  assumes "dns_labels_ok ls" "p = pre @ concat (map dns_label ls)"
  shows "name_loop p parts jumped orig jumps (length pre) = Some ([], - 1)"
  using assms
proof (induction ls arbitrary: pre parts)
  case Nil
  then show ?case by (subst name_loop.simps) simp
next
  case (Cons l ls)
  have l: "length l \<le> 63" "l \<noteq> []" "dns_labels_ok ls" using Cons.prems(1) by (auto simp: dns_labels_ok_def)
  have p: "p = (pre @ dns_label l) @ concat (map dns_label ls)" using Cons.prems(2) by simp
  have b: "unat (p ! length pre) = length l"
    using l(1) Cons.prems(2) by (simp add: dns_label_def nth_append unat_of_nat_less)
  have "length pre + 1 + length l = length (pre @ dns_label l)" "length (pre @ dns_label l) \<le> length p" by (simp_all add: p)
  then show ?case
    using name_loop_label [of "length pre" p parts jumped orig jumps] b l Cons.IH [OF l(3) p] by simp
qed

interpretation dns_matcher: request_matcher dm_requests dns_entry dp_Timestamp dns_note dns_take dns_cleanup
proof
  fix k a t show "dm_requests (dns_note k a t) = (dm_requests t)(k \<mapsto> dns_entry k a)"
    by (cases a) (simp add: RecordQuery_def)
next
  fix k t show "dm_requests (dns_take k t) = (dm_requests t)(k := None)"
    by (cases "dm_requests t k") (auto simp: dns_take_def MatchResponse_def)
qed (simp add: dns_cleanup_def)

lemma dns_apply_eq: "dns_matcher.apply_op = dns_apply"
proof (intro ext)
  fix op m show "dns_matcher.apply_op op m = dns_apply op m" by (cases op) simp_all
qed

lemma snd_MatchResponse: "snd (MatchResponse now key m) = dns_take key m"
  by (simp add: dns_take_def MatchResponse_def split: option.split)

lemma response_bit: "bit (flags :: u16) 15 \<Longrightarrow> drop_bit 15 flags AND 1 = 1"
  by (simp add: bit_iff_odd_drop_bit and_one_eq odd_iff_mod_2_eq_one)

lemma rcode_eq: "(ucast (flags AND 0x0F :: u16) :: u8) = 3 \<longleftrightarrow> flags AND 0x0F = 3"
proof -
  have "flags AND 0x0F \<le> 0x0F" by (rule word_and_le1)
  then have "unat (flags AND 0x0F) \<le> 15" by (simp add: word_le_nat_alt)
  then have "unat (ucast (flags AND 0x0F) :: u8) = unat (flags AND 0x0F)"
    by (simp add: unsigned_ucast_eq take_bit_nat_eq_self)
  then show ?thesis by (simp add: word_unat_eq_iff)
qed

lemma dns_query_fields:
  assumes "p = dns_query ident flags qd an labels qtype rest"
  shows "BigEndian_Uint16 p 0 2 = Some ident" "BigEndian_Uint16 p 2 4 = Some flags"
    "BigEndian_Uint16 p 4 6 = Some qd" "BigEndian_Uint16 p 6 8 = Some an" "12 \<le> length p"
  by (simp_all add: assms dns_query_def u16_bytes_def BigEndian_Uint16_at endian_simps)

lemma dns_query_question:
  assumes "p = dns_query ident flags qd an labels qtype rest" "dns_labels_ok labels" "0 < qd"
  defines "k \<equiv> 13 + length (concat (map dns_label labels))"
  shows "name_at p 12 labels 0 k" "dns_question p qd = Some (Some (join ''.'' labels, queryTypeName qtype, k + 4))"
proof -
  note parts = dns_query_parts [OF assms(1)]
  show name: "name_at p 12 labels 0 k"
    using name_at_labels [OF assms(2) parts(5)] by (simp add: k_def)
  have "parseDNSName p 12 = Some (join ''.'' labels, int k)" using name by (rule parseDNSName_complete) simp
  moreover have "BigEndian_Uint16 p k (k + 2) = Some qtype"
    using parts(1,3,4) by (simp add: BigEndian_Uint16_at k_def endian_simps)
  moreover have "k + 2 \<le> length p" using parts(1) by (simp add: k_def)
  ultimately show "dns_question p qd = Some (Some (join ''.'' labels, queryTypeName qtype, k + 4))"
    using assms(3) by (simp add: dns_question_def)
qed

lemma join_dotted_name: "join ''.'' ls = dotted_name ls"
proof (induction ls)
  case (Cons l ls)
  then show ?case by (cases ls) (simp_all add: dotted_name_def)
qed (simp add: dotted_name_def)

section \<open>Properties\<close>


text \<open>
  C27: A DNS response is decoded.  From a response with one question and any number of address
  records whose names point back to the question, the parser recovers identifier, name and type of
  the question, and one line per record with name, time to live and address, in their order.
\<close>

theorem dns_response_roundtrip:
  assumes "p = dns_query ident flags 1 (of_nat (length rs)) labels qtype (u16_bytes 1 @ concat (map a_record rs) @ rest)"
    and "dns_labels_ok labels" "bit flags 15" "length rs < 65536" "\<forall>(ttl, quad) \<in> set rs. length quad = 4"
  shows "\<exists>e. ParseDNSPacket now p src dst sp dp dir = Some (Some e) \<and> dn_QueryID e = ident \<and>
    dn_QName e = join ''.'' labels \<and> dn_QType e = queryTypeName qtype \<and>
    dn_Answers e = map (a_text (join ''.'' labels)) rs \<and> dn_IsNXDOMAIN e = (flags AND 0x0F = 3)"
proof -
  note fields = dns_query_fields [OF assms(1)]
  note question = dns_query_question [OF assms(1,2)]
  obtain pre where pre: "p = pre @ concat (map a_record rs) @ rest"
    "length pre = 13 + length (concat (map dns_label labels)) + 4"
    using assms(1) by (simp add: dns_query_def)
  have an: "unat (of_nat (length rs) :: u16) = length rs" using assms(4) by (simp add: unat_of_nat_less)
  have "answer_loop p (length rs) (13 + length (concat (map dns_label labels)) + 4) [] =
      Some (map (a_text (join ''.'' labels)) rs)"
    using answer_loop_records [OF question(1) pre(1) assms(5), of "[]"] pre(2) by simp
  moreover have "(0 < (of_nat (length rs) :: u16)) = (rs \<noteq> [])"
    using an by (cases rs) (auto simp: word_less_nat_alt)
  moreover have "(ucast (flags AND 0x0F) :: u8) = 3 \<longleftrightarrow> flags AND 0x0F = 3" by (rule rcode_eq)
  ultimately show ?thesis
    using fields question(2) response_bit [OF assms(3)] an
    by (cases "rs = []") (simp_all add: ParseDNSPacket_def Let_def)
qed

theorem dns_response_roundtrip_witness:
  "\<exists>e. ParseDNSPacket 5 (dns_query 7 0x8180 1 1 [''www'', ''org''] 1 (u16_bytes 1 @ a_record (300, [10, 0, 0, 1])))
     ''10.0.0.2'' ''10.0.0.3'' 53 4711 1 = Some (Some e) \<and> dn_QName e = ''www.org'' \<and>
     dn_Answers e = [''www.org A 300 10.0.0.1'']"
  using dns_response_roundtrip [OF refl, of "[''www'', ''org'']" "0x8180" "[(300, [10, 0, 0, 1])]" 5 7 1 "[]"
      "''10.0.0.2''" "''10.0.0.3''" 53 4711 1]
  by (auto simp: dns_labels_ok_def a_text_def show_word_def show_nat.simps digit_char_def bit_simps)

text \<open>
  C28: How far the two DNS parsers of the repository agree.  On a query whose labels have at most 63
  characters, whatever its type, the details that the C probe writes hold the name that the Go parser
  reports.  The types agree for A, CNAME, PTR, MX, TXT, AAAA and SRV; for every other type, NS, SOA
  and ANY included, the C probe writes UNKNOWN where the Go parser has another text.
\<close>

theorem dns_parsers_agree:
  assumes "p = dns_query ident flags qdcount ancount labels qtype rest" "wf_labels labels" "dns_labels_ok labels"
    and "0 < qdcount" "wf_flow_event f" "\<not> bit flags 15"
  shows "\<exists>e f' type. ParseDNSPacket now p src dst sp dp dir = Some (Some e) \<and>
    parse_dns_payload (Some p) (int (length p)) (Some f) False = Some (Some f') \<and>
    cstr (fe_details f') = take 127 (''dns_query:name='' @ dn_QName e @ '',type='' @ type) \<and>
    (if qtype \<in> {1, 5, 12, 15, 16, 28, 33} then type = dn_QType e else type = ''UNKNOWN'' \<and> type \<noteq> dn_QType e)"
proof -
  have "drop_bit 15 flags AND 1 = 0" using assms(6)
    by (simp add: bit_iff_odd_drop_bit and_one_eq even_iff_mod_2_eq_zero)
  then obtain e where e: "ParseDNSPacket now p src dst sp dp dir = Some (Some e)" "dn_QName e = join ''.'' labels"
    "dn_QType e = queryTypeName qtype"
    using dns_query_fields [OF assms(1)] dns_query_question(2) [OF assms(1,3,4)]
    by (simp add: ParseDNSPacket_def Let_def)
  obtain f' where f': "parse_dns_payload (Some p) (int (length p)) (Some f) False = Some (Some f')"
    "cstr (fe_details f') = take 127 (''dns_query:name='' @ dn_QName e @ '',type='' @ dns_type_str qtype)"
    using dns_query_details [OF assms(1,2,4,5)] assms(6) join_dotted_name [of labels] e(2) by auto
  have "if qtype \<in> {1, 5, 12, 15, 16, 28, 33} then dns_type_str qtype = dn_QType e
      else dns_type_str qtype = ''UNKNOWN'' \<and> dns_type_str qtype \<noteq> dn_QType e"
    by (auto simp: e(3) queryTypeName_def dns_type_str_def)
  with e(1) f' show ?thesis by blast
qed

text \<open>A query for name servers: the Go parser reports NS.\<close>

theorem dns_parsers_agree_witness:
  "\<exists>e f'. ParseDNSPacket 5 (dns_query 7 0x100 1 0 [''www'', ''org''] 2 [0, 1]) [] [] 53 53 0 = Some (Some e) \<and>
     parse_dns_payload (Some (dns_query 7 0x100 1 0 [''www'', ''org''] 2 [0, 1])) 25 (Some zero_flow_event) False = Some (Some f') \<and>
     cstr (fe_details f') = take 127 (''dns_query:name='' @ dn_QName e @ '',type=UNKNOWN'') \<and> dn_QType e \<noteq> ''UNKNOWN''"
  using dns_parsers_agree [OF refl, of "[''www'', ''org'']" 1 zero_flow_event "0x100" 5 7 0 2 "[0, 1]" "[]" "[]" 53 53 0]
  by (auto simp: wf_labels_def dns_labels_ok_def dotted_name_def wf_flow_event_def zero_flow_event_def dns_query_def
      u16_bytes_def dns_label_def bit_simps)

text \<open>
  The older entry point panics on a truncated query.  When a message with a question ends in the
  middle of the name and its slice ends there too, \<open>ParseDNS\<close> slices past the end of the array,
  where \<open>ParseDNSPacket\<close> returns \<open>nil\<close>.
\<close>

theorem ParseDNS_truncated_panics:
  assumes "p = hdr @ concat (map dns_label labels)" "length hdr = 12" "be16 (hdr ! 4) (hdr ! 5) \<noteq> 0" "dns_labels_ok labels"
  shows "ParseDNS now p (length p) src dst sp dp = None \<and> ParseDNSPacket now p src dst sp dp dir = Some None"
proof -
  have fields: "BigEndian_Uint16 p 2 4 = Some (be16 (hdr ! 2) (hdr ! 3))" "BigEndian_Uint16 p 4 6 = Some (be16 (hdr ! 4) (hdr ! 5))"
    using assms(1,2) by (simp_all add: BigEndian_Uint16_at nth_append)
  have "old_name_loop p (length p) 12 [] = Some (length p, labels)"
    using old_name_loop_labels [OF assms(4,1), of "[]"] assms(2) by simp
  moreover have "BigEndian_Uint16 p (length p) (length p + 2) = None" by (simp add: BigEndian_Uint16_def slice_def)
  ultimately have old: "ParseDNS now p (length p) src dst sp dp = None"
    using assms fields by (simp add: ParseDNS_def)
  have "BigEndian_Uint16 p 0 2 = Some (be16 (hdr ! 0) (hdr ! 1))" "BigEndian_Uint16 p 6 8 = Some (be16 (hdr ! 6) (hdr ! 7))"
    using assms(1,2) by (simp_all add: BigEndian_Uint16_at nth_append)
  moreover have "parseDNSName p 12 = Some ([], - 1)"
    using name_loop_truncated [OF assms(4,1), of "[]" False 12 0] assms(2) by (simp add: parseDNSName_def)
  ultimately show ?thesis
    using assms(1,2,3) fields old by (simp add: ParseDNSPacket_def dns_question_def Let_def word_gt_0)
qed

theorem ParseDNS_truncated_panics_witness:
  "ParseDNS 0 ([0, 0, 0, 0, 0, 1, 0, 0, 0, 0, 0, 0] @ dns_label ''www'') 16 [] [] 1 53 = None \<and>
   ParseDNSPacket 0 ([0, 0, 0, 0, 0, 1, 0, 0, 0, 0, 0, 0] @ dns_label ''www'') [] [] 1 53 0 = Some None"
  using ParseDNS_truncated_panics [of _ "[0, 0, 0, 0, 0, 1, 0, 0, 0, 0, 0, 0]" "[''www'']" 0 "[]" "[]" 1 53 0, OF refl]
  by (simp add: dns_labels_ok_def be16_def eval_nat_numeral)

text \<open>
  C29: Responses are paired with their queries.  After a query was recorded, whatever happens to
  other keys, and as long as no clean-up reaches its time stamp (none does within the window), the
  response finds that query, with the time since it in milliseconds; a second response to it finds
  nothing, until the same key is recorded again.
\<close>

theorem dns_response_matched:
  assumes "m1 = fold dns_apply ops (RecordQuery key qname qtype ts m)"
    and "\<forall>op \<in> set ops. case op of Note k a \<Rightarrow> k \<noteq> key | Take k \<Rightarrow> k \<noteq> key | Expire before \<Rightarrow> before \<le> ts"
    and "MatchResponse now key m1 = (r, m2)" "\<forall>a. Note key a \<notin> set ops'"
  shows "r = (Some (dns_entry key (qname, qtype, ts)), go_div (now - ts) 1000000, True) \<and>
    fst (MatchResponse now' key (fold dns_apply ops' m2)) = (None, 0, False)"
proof -
  have "dm_requests (RecordQuery key qname qtype ts m) key = Some (dns_entry key (qname, qtype, ts))"
    by (simp add: RecordQuery_def)
  then have "dm_requests m1 key = Some (dns_entry key (qname, qtype, ts))"
    using dns_matcher.entry_stays [OF _, where ops = ops] assms(2) unfolding assms(1) dns_apply_eq [symmetric]
    by (metis dns_entry.simps DNSPending.select_convs(4))
  moreover have "m2 = dns_take key m1" using assms(3) snd_MatchResponse [of now key m1] by simp
  then have "dm_requests (fold dns_apply ops' m2) key = None"
    using dns_matcher.taken_once [of key ops' m1] assms(4) unfolding dns_apply_eq by simp
  ultimately show ?thesis using assms(3) by (simp add: MatchResponse_def)
qed

theorem dns_response_matched_witness:
  "\<exists>r m2. MatchResponse 5000000 ex_dns_key (fold dns_apply [Expire (- 9)] (RecordQuery ex_dns_key ''a'' ''A'' 0 (NewDNSMatcher 0))) = (r, m2) \<and>
     r = (Some (dns_entry ex_dns_key (''a'', ''A'', 0)), 5, True)"
proof -
  obtain r m2 where "MatchResponse 5000000 ex_dns_key
      (fold dns_apply [Expire (- 9)] (RecordQuery ex_dns_key ''a'' ''A'' 0 (NewDNSMatcher 0))) = (r, m2)"
    by (cases "MatchResponse 5000000 ex_dns_key (fold dns_apply [Expire (- 9)] (RecordQuery ex_dns_key ''a'' ''A'' 0 (NewDNSMatcher 0)))")
  then show ?thesis
    using dns_response_matched [OF refl, of "[Expire (- 9)]" ex_dns_key 0 5000000 "''a''" "''A''" "NewDNSMatcher 0" r m2 "[]" 0]
    by (simp add: go_div_def)
qed

end
