(* ===== verification/Go_Collectors.thy ===== *)
theory Go_Collectors
  imports Go_Lib Bpf_Tracers
begin

text \<open>
  The collectors of the Go probe, \<open>src/internal/collector\<close>: each reads the bytes that a BPF program has
  put into a ring or perf buffer at fixed offsets and passes an event to the output.  The layouts
  of the two C structures, \<open>struct event\<close> of \<open>bpf/common.h\<close> and \<open>struct fe\<close> of \<open>bpf/network_flow.bpf.c\<close>,
  are defined here as well, so that what a collector reports is related to what the BPF program meant.

  A sample is the array up to the capacity of its slice, of which \<open>len\<close> bytes are the sample: Go
  checks the bounds of a slice expression against the capacity.  \<open>None\<close> is a panic.
\<close>

section \<open>Layouts\<close>

definition le16_bytes :: "u16 \<Rightarrow> byte list" where
  "le16_bytes x = [ucast x, ucast (drop_bit 8 x)]"

definition le32_bytes :: "u32 \<Rightarrow> byte list" where
  "le32_bytes x = [ucast x, ucast (drop_bit 8 x), ucast (drop_bit 16 x), ucast (drop_bit 24 x)]"

definition le64_bytes :: "u64 \<Rightarrow> byte list" where
  "le64_bytes x = [ucast x, ucast (drop_bit 8 x), ucast (drop_bit 16 x), ucast (drop_bit 24 x),
     ucast (drop_bit 32 x), ucast (drop_bit 40 x), ucast (drop_bit 48 x), ucast (drop_bit 56 x)]"

text \<open>\<open>struct event\<close>; \<open>pad\<close> are its seven bytes of padding.\<close>

definition event_bytes :: "byte list \<Rightarrow> event \<Rightarrow> byte list" where
  "event_bytes pad e =
     le64_bytes (ev_timestamp_ns e) @ le32_bytes (ev_type e) @ le32_bytes (ev_pid e) @ le32_bytes (ev_ppid e) @
     le32_bytes (ev_src_ip e) @ le32_bytes (ev_dst_ip e) @ le16_bytes (ev_src_port e) @ le16_bytes (ev_dst_port e) @
     [ev_protocol e] @ pad @ le64_bytes (ev_bytes e) @ le64_bytes (ev_packets e) @ le64_bytes (ev_latency_ns e) @
     le64_bytes (ev_count e) @ bytes_of (ev_comm e) @ bytes_of (ev_data e)"

definition wf_event :: "byte list \<Rightarrow> event \<Rightarrow> bool" where
  "wf_event pad e \<longleftrightarrow> length pad = 7 \<and> length (ev_comm e) = TASK_COMM_LEN \<and> length (ev_data e) = DATA_LEN"

text \<open>\<open>struct fe\<close>\<close>

definition flow_bytes :: "flow_ev \<Rightarrow> byte list" where
  "flow_bytes v =
     le64_bytes (fl_ts v) @ le32_bytes (fl_si v) @ le32_bytes (fl_di v) @ le32_bytes (fl_by v) @ le32_bytes (fl_pk v) @
     le16_bytes (fl_sp v) @ le16_bytes (fl_dp v) @ [fl_pr v, fl_dir v, 0, 0]"

section \<open>Little-endian reads\<close>

definition LittleEndian_Uint16 :: "byte list \<Rightarrow> nat \<Rightarrow> nat \<Rightarrow> u16 ub" where
  "LittleEndian_Uint16 p a b = do { s \<leftarrow> slice p a b; b0 \<leftarrow> rd s 0; b1 \<leftarrow> rd s 1; Some (le16 b0 b1) }"

definition LittleEndian_Uint32 :: "byte list \<Rightarrow> nat \<Rightarrow> nat \<Rightarrow> u32 ub" where
  "LittleEndian_Uint32 p a b = do {
     s \<leftarrow> slice p a b; b0 \<leftarrow> rd s 0; b1 \<leftarrow> rd s 1; b2 \<leftarrow> rd s 2; b3 \<leftarrow> rd s 3; Some (le32 b0 b1 b2 b3) }"

definition le64 :: "byte list \<Rightarrow> u64" where
  "le64 s = ucast (s ! 0) OR push_bit 8 (ucast (s ! 1)) OR push_bit 16 (ucast (s ! 2)) OR push_bit 24 (ucast (s ! 3)) OR
     push_bit 32 (ucast (s ! 4)) OR push_bit 40 (ucast (s ! 5)) OR push_bit 48 (ucast (s ! 6)) OR push_bit 56 (ucast (s ! 7))"

definition LittleEndian_Uint64 :: "byte list \<Rightarrow> nat \<Rightarrow> nat \<Rightarrow> u64 ub" where
  "LittleEndian_Uint64 p a b = do { s \<leftarrow> slice p a b; _ \<leftarrow> rd s 7; Some (le64 s) }"

section \<open>Output\<close>

text \<open>\<open>output.Event\<close>, and the calls of the interface \<open>output.Writer\<close>.\<close>

record out_event =
  oe_Timestamp :: int
  oe_ProbeID :: string
  oe_Category :: string
  oe_EventType :: string
  oe_SrcIP :: string
  oe_DstIP :: string
  oe_SrcPort :: u16
  oe_DstPort :: u16
  oe_Protocol :: string
  oe_Bytes :: u64
  oe_Packets :: u64
  oe_LatencyMs :: rat
  oe_Service :: string
  oe_Details :: string
  oe_Tags :: string
  oe_TenantID :: string
  oe_ClusterID :: string

definition zero_out_event :: out_event where
  "zero_out_event = \<lparr>oe_Timestamp = 0, oe_ProbeID = [], oe_Category = [], oe_EventType = [], oe_SrcIP = [], oe_DstIP = [],
     oe_SrcPort = 0, oe_DstPort = 0, oe_Protocol = [], oe_Bytes = 0, oe_Packets = 0, oe_LatencyMs = 0, oe_Service = [],
     oe_Details = [], oe_Tags = [], oe_TenantID = [], oe_ClusterID = []\<rparr>"

datatype writer_call =
  WriteEvent out_event
| WriteProcessEvent int string u32 u32 string string string string
| WriteFileEvent int string u32 string string string int
| WriteSyscallEvent int string u32 string u64 u64 u64

text \<open>\<open>PutUint32\<close> in network order, then the four bytes in decimal.\<close>

definition ipToString :: "u32 \<Rightarrow> string" where
  "ipToString ip = join ''.'' (map show_word (u32_bytes ip))"

definition ebpfTimeToWallTime :: "int \<Rightarrow> u64 \<Rightarrow> int" where
  "ebpfTimeToWallTime clockOffset timestampNs = sint (timestampNs + of_int clockOffset)"

section \<open>network.go\<close>

definition handleFlowEvent :: "string \<Rightarrow> int \<Rightarrow> byte list \<Rightarrow> writer_call list ub" where
  "handleFlowEvent probeID now data =
     (if length data < 32 then Some []
      else do {
        srcIP \<leftarrow> BigEndian_Uint32 data 8 12;
        dstIP \<leftarrow> BigEndian_Uint32 data 12 16;
        pktBytes \<leftarrow> LittleEndian_Uint32 data 16 20;
        pkts \<leftarrow> LittleEndian_Uint32 data 20 24;
        srcPort \<leftarrow> LittleEndian_Uint16 data 24 26;
        dstPort \<leftarrow> LittleEndian_Uint16 data 26 28;
        proto \<leftarrow> rd data 28;
        let protoString = (if proto = 6 then ''TCP'' else if proto = 17 then ''UDP'' else ''IP'');
        Some [WriteEvent (zero_out_event\<lparr>oe_Timestamp := now, oe_ProbeID := probeID @ ''-bpf'',
          oe_Category := ''network'', oe_EventType := ''flow'', oe_SrcIP := ipToString srcIP, oe_DstIP := ipToString dstIP,
          oe_SrcPort := srcPort, oe_DstPort := dstPort, oe_Protocol := protoString,
          oe_Bytes := ucast pktBytes, oe_Packets := ucast pkts\<rparr>)]
      })"

definition handleHTTPEvent :: "string \<Rightarrow> int \<Rightarrow> byte list \<Rightarrow> writer_call list ub" where
  "handleHTTPEvent probeID now data =
     (if length data < 24 then Some []
      else do {
        srcIP \<leftarrow> BigEndian_Uint32 data 8 12;
        dstIP \<leftarrow> BigEndian_Uint32 data 12 16;
        srcPort \<leftarrow> LittleEndian_Uint16 data 16 18;
        dstPort \<leftarrow> LittleEndian_Uint16 data 18 20;
        let urlStr = trim_right_nul (go_string (drop 21 data));
        if urlStr = [] then Some []
        else Some [WriteEvent (zero_out_event\<lparr>oe_Timestamp := now, oe_ProbeID := probeID @ ''-bpf'',
          oe_Category := ''network'', oe_EventType := ''http'', oe_SrcIP := ipToString srcIP, oe_DstIP := ipToString dstIP,
          oe_SrcPort := srcPort, oe_DstPort := dstPort, oe_Protocol := ''HTTP'', oe_Details := urlStr\<rparr>)]
      })"

section \<open>http\_trace.go, dns\_trace.go, db\_trace.go\<close>

text \<open>The three collectors of raw payloads read addresses and ports in the same way.\<close>

definition raw_endpoints :: "byte list \<Rightarrow> (u32 \<times> u32 \<times> u16 \<times> u16) ub" where
  "raw_endpoints buf = do {
     srcIP \<leftarrow> LittleEndian_Uint32 buf 20 24;
     dstIP \<leftarrow> LittleEndian_Uint32 buf 24 28;
     srcPort \<leftarrow> LittleEndian_Uint16 buf 28 30;
     dstPort \<leftarrow> LittleEndian_Uint16 buf 30 32;
     Some (srcIP, dstIP, srcPort, dstPort)
   }"

definition raw_event :: "string \<Rightarrow> int \<Rightarrow> string \<Rightarrow> string \<Rightarrow> u32 \<Rightarrow> u32 \<times> u32 \<times> u16 \<times> u16 \<Rightarrow> string \<Rightarrow> out_event" where
  "raw_event probeID now eventType protocol etype = (\<lambda>(srcIP, dstIP, srcPort, dstPort) payload.
     zero_out_event\<lparr>oe_Timestamp := now, oe_ProbeID := probeID, oe_Category := ''protocol'', oe_EventType := eventType,
       oe_SrcIP := ipToString srcIP, oe_DstIP := ipToString dstIP, oe_SrcPort := srcPort, oe_DstPort := dstPort,
       oe_Protocol := protocol, oe_Bytes := of_nat (length payload), oe_Details := payload,
       oe_Tags := ''etype='' @ show_word etype\<rparr>)"

definition http_handleEvent :: "string \<Rightarrow> int \<Rightarrow> byte list \<Rightarrow> nat \<Rightarrow> writer_call list ub" where
  "http_handleEvent probeID now buf len =
     (if len < 48 then Some []
      else do {
        etype \<leftarrow> LittleEndian_Uint32 buf 8 12;
        if etype \<noteq> 2 then Some []
        else do {
          ep \<leftarrow> raw_endpoints buf;
          raw \<leftarrow> slice buf 72 328;
          Some [WriteEvent (raw_event probeID now ''http_raw'' ''HTTP'' etype ep (trim_nul (go_string raw)))]
        }
      })"

definition dns_handleEvent :: "string \<Rightarrow> int \<Rightarrow> byte list \<Rightarrow> nat \<Rightarrow> writer_call list ub" where
  "dns_handleEvent probeID now buf len =
     (if len < 48 then Some []
      else do {
        etype \<leftarrow> LittleEndian_Uint32 buf 8 12;
        if etype \<noteq> 3 then Some []
        else do {
          ep \<leftarrow> raw_endpoints buf;
          raw \<leftarrow> slice buf 72 328;
          Some [WriteEvent (raw_event probeID now ''dns_raw'' ''DNS'' etype ep (go_string raw))]
        }
      })"

definition db_handleEvent :: "string \<Rightarrow> int \<Rightarrow> byte list \<Rightarrow> nat \<Rightarrow> writer_call list ub" where
  "db_handleEvent probeID now buf len =
     (if len < 48 then Some []
      else do {
        etype \<leftarrow> LittleEndian_Uint32 buf 8 12;
        ep \<leftarrow> raw_endpoints buf;
        raw \<leftarrow> slice buf 72 328;
        Some [WriteEvent (raw_event probeID now ''db_raw'' ''DB'' etype ep (go_string raw))]
      })"

section \<open>syscall.go, performance.go, security.go, security\_trace.go\<close>

definition syscall_handleEvent :: "string \<Rightarrow> int \<Rightarrow> byte list \<Rightarrow> nat \<Rightarrow> writer_call list ub" where
  "syscall_handleEvent probeID now buf len =
     (if len < 88 then Some []
      else do {
        pid \<leftarrow> LittleEndian_Uint32 buf 12 16;
        comm \<leftarrow> slice buf 72 88;
        latencyNs \<leftarrow> LittleEndian_Uint64 buf 56 64;
        syscallNr \<leftarrow> LittleEndian_Uint64 buf 64 72;
        Some [WriteSyscallEvent now probeID pid (trim_nul (go_string comm)) syscallNr latencyNs 1]
      })"

definition perf_handleEvent :: "string \<Rightarrow> int \<Rightarrow> byte list \<Rightarrow> nat \<Rightarrow> writer_call list ub" where
  "perf_handleEvent probeID now buf len =
     (if len < 48 then Some []
      else do {
        etype \<leftarrow> LittleEndian_Uint32 buf 8 12;
        pid \<leftarrow> LittleEndian_Uint32 buf 12 16;
        ppid \<leftarrow> LittleEndian_Uint32 buf 16 20;
        comm \<leftarrow> slice buf 72 88;
        argData \<leftarrow> slice buf 88 344;
        Some (if etype = 4 then [WriteProcessEvent now probeID pid ppid (trim_nul (go_string comm)) []
                (trim_nul (go_string argData)) ''execve'']
              else if etype = 5 then [WriteProcessEvent now probeID pid ppid (trim_nul (go_string comm)) [] [] ''exit'']
              else [])
      })"

definition sec_handleEvent :: "string \<Rightarrow> int \<Rightarrow> byte list \<Rightarrow> nat \<Rightarrow> writer_call list ub" where
  "sec_handleEvent probeID clockOffset buf len =
     (if len < 48 then Some []
      else do {
        timestampNs \<leftarrow> LittleEndian_Uint64 buf 0 8;
        etype \<leftarrow> LittleEndian_Uint32 buf 8 12;
        pid \<leftarrow> LittleEndian_Uint32 buf 12 16;
        comm \<leftarrow> slice buf 72 88;
        rawData \<leftarrow> slice buf 88 344;
        let comm = trim_nul (go_string comm);
        let dataStr = cstr (go_string rawData);
        let now = ebpfTimeToWallTime clockOffset timestampNs;
        Some (if etype = 6 then [WriteFileEvent now probeID pid comm dataStr ''open'' 0]
              else if etype = 7 then [WriteEvent (zero_out_event\<lparr>oe_Timestamp := now, oe_ProbeID := probeID,
                oe_Category := ''security'', oe_EventType := ''connect'',
                oe_Details := ''pid='' @ show_word pid @ '' comm='' @ comm\<rparr>)]
              else [])
      })"

definition isSensitiveFile :: "string \<Rightarrow> bool" where
  "isSensitiveFile filename =
     list_ex (contains filename) [''/etc/shadow'', ''/etc/passwd'', ''/root'', ''/proc/kcore'', ''/proc/kallsyms'']"

definition sectrace_handleEvent :: "string \<Rightarrow> int \<Rightarrow> byte list \<Rightarrow> nat \<Rightarrow> writer_call list ub" where
  "sectrace_handleEvent probeID now buf len =
     (if len < 48 then Some []
      else do {
        etype \<leftarrow> LittleEndian_Uint32 buf 8 12;
        pid \<leftarrow> LittleEndian_Uint32 buf 12 16;
        count \<leftarrow> LittleEndian_Uint64 buf 64 72;
        latency \<leftarrow> LittleEndian_Uint64 buf 48 56;
        raw \<leftarrow> slice buf 72 328;
        let payload = trim_nul (go_string raw);
        let (eventType, details, tags) =
          (if etype = 18 then (''cap_capable'', ''pid='' @ show_word pid @ '' cap='' @ show_word count,
             ''opt='' @ show_word latency)
           else if etype = 19 then (''security_file_open'', ''pid='' @ show_word pid @ '' file='' @ payload,
             if isSensitiveFile payload then ''sensitive=true'' else [])
           else if etype = 20 then (''load_module'', ''pid='' @ show_word pid @ '' module_load'', ''alert=kernel_module'')
           else ([], [], []));
        Some [WriteEvent (zero_out_event\<lparr>oe_Timestamp := now, oe_ProbeID := probeID, oe_Category := ''security'',
          oe_EventType := eventType, oe_Details := details, oe_Tags := tags\<rparr>)]
      })"

section \<open>Reference\<close>

text \<open>An address as text, an address with its bytes in reverse, and a whole sample: the event and what
  the buffer appends to it.\<close>

fun addr4_text :: "addr4 \<Rightarrow> string" where
  "addr4_text (a, b, c, d) = join ''.'' [show_word a, show_word b, show_word c, show_word d]"

fun addr4_rev :: "addr4 \<Rightarrow> addr4" where
  "addr4_rev (a, b, c, d) = (d, c, b, a)"

definition sample_of :: "byte list \<Rightarrow> event \<Rightarrow> byte list \<Rightarrow> bool" where
  "sample_of pad e buf \<longleftrightarrow> wf_event pad e \<and> (\<exists>rest. buf = event_bytes pad e @ rest)"

text \<open>The part of a captured message that the collectors read.\<close>

definition captured :: "bpf_ctx \<Rightarrow> sock \<Rightarrow> kvec \<Rightarrow> event \<Rightarrow> event \<Rightarrow> bool" where
  "captured c sk kvec slot e \<longleftrightarrow> ev_comm e = bc_comm c \<and> ev_src_ip e = sk_rcv_saddr sk \<and> ev_dst_ip e = sk_daddr sk \<and>
     ev_src_port e = sk_num sk \<and> ev_dst_port e = ntohs (sk_dport sk) \<and> ev_data e = copy_iov c kvec (ev_data slot)"

section \<open>Lemmas\<close>

text \<open>Bit \<open>n\<close> of the byte at bit position \<open>j\<close> of a word.\<close>

lemma bit_byte_at:
  "bit (push_bit j (ucast (ucast (drop_bit j x) :: byte)) :: 'a::len word) n \<longleftrightarrow>
   n < LENGTH('a) \<and> j \<le> n \<and> n < j + 8 \<and> bit (x :: 'a word) n"
  by (auto simp: bit_simps dest: bit_imp_le_length)

lemma bit_byte_0: "bit (ucast (ucast x :: byte) :: 'a::len word) n \<longleftrightarrow> n < LENGTH('a) \<and> n < 8 \<and> bit (x :: 'a word) n"
  using bit_byte_at [of 0 x n] by simp

lemma le_bytes_simps [endian_simps]:
  "le16 (ucast x) (ucast (drop_bit 8 x)) = (x :: u16)"
  "le32 (ucast y) (ucast (drop_bit 8 y)) (ucast (drop_bit 16 y)) (ucast (drop_bit 24 y)) = (y :: u32)"
proof -
  show "le16 (ucast x) (ucast (drop_bit 8 x)) = x"
    unfolding le16_def by (rule bit_word_eqI) (simp add: bit_or_iff bit_byte_at bit_byte_0, linarith)
  show "le32 (ucast y) (ucast (drop_bit 8 y)) (ucast (drop_bit 16 y)) (ucast (drop_bit 24 y)) = y"
    unfolding le32_def by (rule bit_word_eqI) (simp add: bit_or_iff bit_byte_at bit_byte_0, linarith)
qed

lemma le64_le64_bytes [endian_simps]: "le64 (le64_bytes x) = x"
  unfolding le64_def le64_bytes_def
  by (rule bit_word_eqI) (simp add: bit_or_iff bit_byte_at bit_byte_0, linarith)

lemma length_le_words [simp]:
  "length (le16_bytes x) = 2" "length (le32_bytes y) = 4" "length (le64_bytes z) = 8"
  by (simp_all add: le16_bytes_def le32_bytes_def le64_bytes_def)

text \<open>A slice of a concatenation.\<close>

lemma slice_skip: "length xs \<le> a \<Longrightarrow> a \<le> b \<Longrightarrow> slice (xs @ ys) a b = slice ys (a - length xs) (b - length xs)"
  by (auto simp: slice_def)

lemma slice_here: "b \<le> length xs \<Longrightarrow> slice (xs @ ys) a b = slice xs a b"
  by (auto simp: slice_def)

lemma slice_all: "b = length xs \<Longrightarrow> slice xs 0 b = Some xs"
  by (simp add: slice_def)

lemma slice_cons: "0 < a \<Longrightarrow> a \<le> b \<Longrightarrow> slice (x # xs) a b = slice xs (a - 1) (b - 1)"
  by (cases a; cases b) (auto simp: slice_def)

lemmas slice_simps = slice_skip slice_here slice_all slice_cons

lemma length_event_bytes: "wf_event pad e \<Longrightarrow> length (event_bytes pad e) = 344"
  by (simp add: wf_event_def event_bytes_def)

text \<open>The fields of an event at the offsets of the C structure.\<close>

lemma event_slices:
  assumes "wf_event pad e"
  defines "b \<equiv> event_bytes pad e"
  shows "slice b 0 8 = Some (le64_bytes (ev_timestamp_ns e))" "slice b 8 12 = Some (le32_bytes (ev_type e))"
    "slice b 12 16 = Some (le32_bytes (ev_pid e))" "slice b 16 20 = Some (le32_bytes (ev_ppid e))"
    "slice b 20 24 = Some (le32_bytes (ev_src_ip e))" "slice b 24 28 = Some (le32_bytes (ev_dst_ip e))"
    "slice b 28 30 = Some (le16_bytes (ev_src_port e))" "slice b 30 32 = Some (le16_bytes (ev_dst_port e))"
    "slice b 40 48 = Some (le64_bytes (ev_bytes e))" "slice b 48 56 = Some (le64_bytes (ev_packets e))"
    "slice b 56 64 = Some (le64_bytes (ev_latency_ns e))" "slice b 64 72 = Some (le64_bytes (ev_count e))"
    "slice b 72 88 = Some (bytes_of (ev_comm e))" "slice b 88 344 = Some (bytes_of (ev_data e))"
  using assms(1) unfolding b_def by (simp_all add: wf_event_def event_bytes_def slice_simps)

lemma event_raw_slice:
  assumes "wf_event pad e"
  shows "slice (event_bytes pad e) 72 328 = Some (bytes_of (ev_comm e) @ bytes_of (take 240 (ev_data e)))"
proof -
  have "slice (bytes_of (ev_comm e) @ bytes_of (ev_data e)) 0 256 =
      Some (bytes_of (ev_comm e) @ bytes_of (take 240 (ev_data e)))"
    using assms by (simp add: wf_event_def slice_def bytes_of_def take_map)
  with assms show ?thesis by (simp add: wf_event_def event_bytes_def slice_simps)
qed

text \<open>Every field is read back from a sample.\<close>

lemma sample_slice: "sample_of pad e buf \<Longrightarrow> b \<le> 344 \<Longrightarrow> slice buf a b = slice (event_bytes pad e) a b"
  by (auto simp: sample_of_def length_event_bytes slice_here)

lemma sample_length: "sample_of pad e buf \<Longrightarrow> 344 \<le> length buf"
  by (auto simp: sample_of_def length_event_bytes)

lemma LittleEndian_of_bytes:
  "slice buf a b = Some (le16_bytes x) \<Longrightarrow> LittleEndian_Uint16 buf a b = Some x"
  "slice buf a b = Some (le32_bytes y) \<Longrightarrow> LittleEndian_Uint32 buf a b = Some y"
  "slice buf a b = Some (le64_bytes z) \<Longrightarrow> LittleEndian_Uint64 buf a b = Some z"
proof -
  show "slice buf a b = Some (le16_bytes x) \<Longrightarrow> LittleEndian_Uint16 buf a b = Some x"
    by (simp add: LittleEndian_Uint16_def le16_bytes_def rd_def endian_simps)
  show "slice buf a b = Some (le32_bytes y) \<Longrightarrow> LittleEndian_Uint32 buf a b = Some y"
    by (simp add: LittleEndian_Uint32_def le32_bytes_def rd_def endian_simps)
  show "slice buf a b = Some (le64_bytes z) \<Longrightarrow> LittleEndian_Uint64 buf a b = Some z"
    by (simp add: LittleEndian_Uint64_def rd_def endian_simps)
qed

lemma sample_reads:
  assumes "sample_of pad e buf"
  shows "LittleEndian_Uint64 buf 0 8 = Some (ev_timestamp_ns e)" "LittleEndian_Uint32 buf 8 12 = Some (ev_type e)"
    "LittleEndian_Uint32 buf 12 16 = Some (ev_pid e)" "LittleEndian_Uint32 buf 16 20 = Some (ev_ppid e)"
    "LittleEndian_Uint32 buf 20 24 = Some (ev_src_ip e)" "LittleEndian_Uint32 buf 24 28 = Some (ev_dst_ip e)"
    "LittleEndian_Uint16 buf 28 30 = Some (ev_src_port e)" "LittleEndian_Uint16 buf 30 32 = Some (ev_dst_port e)"
    "LittleEndian_Uint64 buf 40 48 = Some (ev_bytes e)" "LittleEndian_Uint64 buf 48 56 = Some (ev_packets e)"
    "LittleEndian_Uint64 buf 56 64 = Some (ev_latency_ns e)" "LittleEndian_Uint64 buf 64 72 = Some (ev_count e)"
    "slice buf 72 88 = Some (bytes_of (ev_comm e))" "slice buf 88 344 = Some (bytes_of (ev_data e))"
    "slice buf 72 328 = Some (bytes_of (ev_comm e) @ bytes_of (take 240 (ev_data e)))"
proof -
  have "wf_event pad e" using assms by (simp add: sample_of_def)
  note sl = event_slices [OF this] event_raw_slice [OF this]
  show "LittleEndian_Uint64 buf 0 8 = Some (ev_timestamp_ns e)" "LittleEndian_Uint32 buf 8 12 = Some (ev_type e)"
    "LittleEndian_Uint32 buf 12 16 = Some (ev_pid e)" "LittleEndian_Uint32 buf 16 20 = Some (ev_ppid e)"
    "LittleEndian_Uint32 buf 20 24 = Some (ev_src_ip e)" "LittleEndian_Uint32 buf 24 28 = Some (ev_dst_ip e)"
    "LittleEndian_Uint16 buf 28 30 = Some (ev_src_port e)" "LittleEndian_Uint16 buf 30 32 = Some (ev_dst_port e)"
    "LittleEndian_Uint64 buf 40 48 = Some (ev_bytes e)" "LittleEndian_Uint64 buf 48 56 = Some (ev_packets e)"
    "LittleEndian_Uint64 buf 56 64 = Some (ev_latency_ns e)" "LittleEndian_Uint64 buf 64 72 = Some (ev_count e)"
    using sl by (simp_all add: LittleEndian_of_bytes sample_slice [OF assms])
  show "slice buf 72 88 = Some (bytes_of (ev_comm e))" "slice buf 88 344 = Some (bytes_of (ev_data e))"
    "slice buf 72 328 = Some (bytes_of (ev_comm e) @ bytes_of (take 240 (ev_data e)))"
    using sl by (simp_all add: sample_slice [OF assms])
qed

lemma go_string_bytes_of [simp]: "go_string (bytes_of s) = s" "go_string (xs @ ys) = go_string xs @ go_string ys"
  by (simp_all add: go_string_def bytes_of_def comp_def)

text \<open>Addresses as text.\<close>

lemma u32_bytes_be32: "u32_bytes (be32 a b c d) = [a, b, c, d]"
  by (auto simp: u32_bytes_def be32_def bit_simps intro!: bit_word_eqI dest: bit_imp_le_length)

lemma u32_bytes_le32: "u32_bytes (le32 a b c d) = [d, c, b, a]"
  by (auto simp: u32_bytes_def le32_def bit_simps intro!: bit_word_eqI dest: bit_imp_le_length)

lemma ipToString_be32: "ipToString (be32 a b c d) = addr4_text (a, b, c, d)"
  by (simp add: ipToString_def u32_bytes_be32)

lemma ipToString_mem: "ipToString (addr4_mem x) = addr4_text (addr4_rev x)"
  by (cases x) (simp add: ipToString_def u32_bytes_le32)

lemma le32_bytes_mem: "le32_bytes (addr4_mem x) = addr4_bytes x"
  by (cases x)
    (auto simp: le32_bytes_def le32_def bit_simps intro!: bit_word_eqI dest: bit_imp_le_length)

lemma BigEndian_of_addr:
  assumes "slice buf a b = Some (le32_bytes (addr4_mem x))"
  shows "\<exists>w. BigEndian_Uint32 buf a b = Some w \<and> ipToString w = addr4_text x"
proof -
  obtain p q r s where x: "x = (p, q, r, s)" by (cases x)
  have "slice buf a b = Some [p, q, r, s]" using assms unfolding le32_bytes_mem by (simp add: x)
  then show ?thesis by (simp add: BigEndian_Uint32_def rd_def ipToString_be32 x)
qed

text \<open>What the collector reports for an event of the classifier.\<close>

lemma handleFlowEvent_of_flow:
  assumes "fl_si v = addr4_mem src" "fl_di v = addr4_mem dst"
  shows "handleFlowEvent probeID now (flow_bytes v) = Some [WriteEvent (zero_out_event\<lparr>oe_Timestamp := now,
    oe_ProbeID := probeID @ ''-bpf'', oe_Category := ''network'', oe_EventType := ''flow'', oe_SrcIP := addr4_text src,
    oe_DstIP := addr4_text dst, oe_SrcPort := fl_sp v, oe_DstPort := fl_dp v,
    oe_Protocol := if fl_pr v = 6 then ''TCP'' else if fl_pr v = 17 then ''UDP'' else ''IP'',
    oe_Bytes := ucast (fl_by v), oe_Packets := ucast (fl_pk v)\<rparr>)]"
proof -
  define b where "b = flow_bytes v"
  have b: "length b = 32" "slice b 8 12 = Some (le32_bytes (addr4_mem src))" "slice b 12 16 = Some (le32_bytes (addr4_mem dst))"
    "slice b 16 20 = Some (le32_bytes (fl_by v))" "slice b 20 24 = Some (le32_bytes (fl_pk v))"
    "slice b 24 26 = Some (le16_bytes (fl_sp v))" "slice b 26 28 = Some (le16_bytes (fl_dp v))" "rd b 28 = Some (fl_pr v)"
    by (simp_all add: b_def flow_bytes_def assms slice_simps rd_def nth_append)
  obtain s d where "BigEndian_Uint32 b 8 12 = Some s" "ipToString s = addr4_text src"
      "BigEndian_Uint32 b 12 16 = Some d" "ipToString d = addr4_text dst"
    using BigEndian_of_addr [OF b(2)] BigEndian_of_addr [OF b(3)] by blast
  then show ?thesis
    using b(1,8) LittleEndian_of_bytes(2) [OF b(4)] LittleEndian_of_bytes(2) [OF b(5)]
      LittleEndian_of_bytes(1) [OF b(6)] LittleEndian_of_bytes(1) [OF b(7)]
    by (simp add: handleFlowEvent_def b_def [symmetric] Let_def)
qed

section \<open>Properties\<close>

text \<open>
  C6: From the wire to the report: for an untagged IPv4 frame without IP options whose TCP or UDP
  header is complete, the event that either program of the kernel's classifier sends is reported by
  the Go collector with the addr4_text addresses, the ports, the protocol and the length of the frame; a
  frame is left out only for an excluded peer (the destination on ingress, the source on egress).
\<close>

theorem flow_reported:
  assumes "length macs = 12" "wf_ipv4 h []" "f = eth_frame macs None ETH_P_IP (ipv4_hdr h [] @ tr)"
    and "v4_proto h = 6 \<and> 20 \<le> length tr \<or> v4_proto h = 17 \<and> 8 \<le> length tr"
    and "skb_bytes skb = f" "skb_linear skb = length f"
    and "report = zero_out_event\<lparr>oe_Timestamp := now, oe_ProbeID := probeID @ ''-bpf'', oe_Category := ''network'',
      oe_EventType := ''flow'', oe_SrcIP := addr4_text (v4_src h), oe_DstIP := addr4_text (v4_dst h),
      oe_SrcPort := be16 (tr ! 0) (tr ! 1), oe_DstPort := be16 (tr ! 2) (tr ! 3),
      oe_Protocol := if v4_proto h = 6 then ''TCP'' else ''UDP'', oe_Bytes := ucast (skb_len skb), oe_Packets := 1\<rparr>"
  shows "map_option (\<lambda>v. handleFlowEvent probeID now (flow_bytes v)) (f1 c excl skb) =
      (if ex excl (addr4_mem (v4_dst h)) then None else Some (Some [WriteEvent report])) \<and>
    map_option (\<lambda>v. handleFlowEvent probeID now (flow_bytes v)) (f2 c excl skb) =
      (if ex excl (addr4_mem (v4_src h)) then None else Some (Some [WriteEvent report]))"
proof -
  have ports: "ntohs (ld16 tr 0) = be16 (tr ! 0) (tr ! 1)" "ntohs (ld16 tr 2) = be16 (tr ! 2) (tr ! 3)"
    by (simp_all add: ld16_def endian_simps)
  have "v4_proto h = 6 \<or> v4_proto h = 17" using assms(4) by auto
  then show ?thesis
    by (elim disjE)
      (simp_all add: flow_programs_frame [OF assms(1-6)] handleFlowEvent_of_flow [where src = "v4_src h" and dst = "v4_dst h"]
        ports assms(7))
qed

theorem flow_reported_witness:
  "\<exists>skb report. skb_bytes skb = eth_frame (replicate 12 1) None ETH_P_IP (ipv4_hdr (ex_ipv4\<lparr>v4_ihl := 5\<rparr>) [] @ tcp_hdr ex_tcp) \<and>
     map_option (\<lambda>v. handleFlowEvent ''p'' 7 (flow_bytes v)) (f1 (ex_bpf_ctx 0 0 []) Map.empty skb) = Some (Some [WriteEvent report]) \<and>
     oe_SrcIP report = ''10.0.0.1'' \<and> oe_DstIP report = ''93.184.216.34'' \<and> oe_Protocol report = ''TCP''"
proof -
  let ?h = "ex_ipv4\<lparr>v4_ihl := 5\<rparr>"
  let ?f = "eth_frame (replicate 12 1) None ETH_P_IP (ipv4_hdr ?h [] @ tcp_hdr ex_tcp)"
  let ?skb = "\<lparr>skb_bytes = ?f, skb_linear = length ?f, skb_len = 54\<rparr>"
  let ?c = "ex_bpf_ctx 0 0 []" and ?tr = "tcp_hdr ex_tcp"
  let ?r = "zero_out_event\<lparr>oe_Timestamp := 7, oe_ProbeID := ''p'' @ ''-bpf'', oe_Category := ''network'',
      oe_EventType := ''flow'', oe_SrcIP := addr4_text (v4_src ?h), oe_DstIP := addr4_text (v4_dst ?h),
      oe_SrcPort := be16 (?tr ! 0) (?tr ! 1), oe_DstPort := be16 (?tr ! 2) (?tr ! 3),
      oe_Protocol := if v4_proto ?h = 6 then ''TCP'' else ''UDP'', oe_Bytes := ucast (skb_len ?skb), oe_Packets := 1\<rparr>"
  have wf: "wf_ipv4 ?h []" by (simp add: wf_ipv4_def ex_ipv4_def)
  have "map_option (\<lambda>v. handleFlowEvent ''p'' 7 (flow_bytes v)) (f1 ?c Map.empty ?skb) = Some (Some [WriteEvent ?r])"
    using flow_reported [OF _ wf refl, where macs = "replicate 12 1" and tr = ?tr and skb = ?skb and c = ?c and
        excl = Map.empty and probeID = "''p''" and now = 7 and report = ?r]
    by (simp add: ex_def ex_ipv4_def)
  moreover have "oe_SrcIP ?r = ''10.0.0.1''" "oe_DstIP ?r = ''93.184.216.34''" "oe_Protocol ?r = ''TCP''"
    by (simp_all add: ex_ipv4_def show_word_def) code_simp+
  ultimately show ?thesis by (intro exI [of _ ?skb] exI [of _ ?r]) simp
qed

text \<open>
  System calls: after an entry recorded while the map has room (or holds the key) and any
  operations on other keys, the exit is reported with the process, its name and the time between the
  two readings of the clock; its call number is whatever the ring buffer slot held before.  The
  entry is reported with the call number, and the latency that its slot held before.
\<close>

theorem syscall_reported:
  assumes "length m < START_TS_MAX \<or> bpf_map_lookup_elem m k \<noteq> None"
    and "\<forall>oper \<in> set ops. op_key oper \<noteq> Some k" "run = fold (bpf_start.apply_op START_TS_MAX) ops"
    and "bc_pid_tgid c = k" "bc_pid_tgid c' = k"
  shows "\<exists>m0 m1 e0 e1. tracepoint_sys_enter c nr (Some slot0) m = (m0, Some e0) \<and>
    tracepoint_sys_exit c' (Some slot1) (run m0) = (m1, Some e1) \<and>
    (\<forall>pad buf. sample_of pad e0 buf \<longrightarrow> syscall_handleEvent probeID now buf (length buf) =
      Some [WriteSyscallEvent now probeID (bc_pid c) (trim_nul (bc_comm c)) nr (ev_latency_ns slot0) 1]) \<and>
    (\<forall>pad buf. sample_of pad e1 buf \<longrightarrow> syscall_handleEvent probeID now buf (length buf) =
      Some [WriteSyscallEvent now probeID (bc_pid c') (trim_nul (bc_comm c')) (ev_count slot1)
        (bc_ktime c' 0 - bc_ktime c 0) 1])"
proof -
  have report: "syscall_handleEvent probeID now buf (length buf) =
      Some [WriteSyscallEvent now probeID (ev_pid e) (trim_nul (ev_comm e)) (ev_count e) (ev_latency_ns e) 1]"
    if "sample_of pad e buf" for pad e buf
    using sample_reads [OF that] sample_length [OF that] by (simp add: syscall_handleEvent_def)
  have "bpf_map_lookup_elem (run (bpf_map_update_elem START_TS_MAX k (bc_ktime c 0) m)) k = Some (bc_ktime c 0)"
    unfolding assms(3) using assms(1,2) by (rule bpf_start.start_found)
  then show ?thesis
    by (simp add: tracepoint_sys_enter_def tracepoint_sys_exit_def assms(4,5) report Let_def)
qed

theorem syscall_reported_witness:
  "\<exists>m0 m1 e0 e1. tracepoint_sys_enter (ex_bpf_ctx 7 400 []) 59 (Some zero_event) [] = (m0, Some e0) \<and>
    tracepoint_sys_exit (ex_bpf_ctx 7 900 []) (Some zero_event) m0 = (m1, Some e1) \<and>
    syscall_handleEvent ''p'' 5 (event_bytes (replicate 7 0) e1) 344 = Some [WriteSyscallEvent 5 ''p'' 0 [] 0 500 1]"
proof -
  let ?c = "ex_bpf_ctx 7 400 []" and ?c' = "ex_bpf_ctx 7 900 []"
  obtain m0 m1 e0 e1 where r: "tracepoint_sys_enter ?c 59 (Some zero_event) [] = (m0, Some e0)"
      "tracepoint_sys_exit ?c' (Some zero_event) (fold (bpf_start.apply_op START_TS_MAX) [] m0) = (m1, Some e1)"
      "\<And>pad buf. sample_of pad e1 buf \<Longrightarrow> syscall_handleEvent ''p'' 5 buf (length buf) =
        Some [WriteSyscallEvent 5 ''p'' (bc_pid ?c') (trim_nul (bc_comm ?c')) (ev_count zero_event) (bc_ktime ?c' 0 - bc_ktime ?c 0) 1]"
    using syscall_reported [of "[]" 7 "[]" _ ?c ?c' 59 zero_event zero_event "''p''" 5, OF _ _ refl]
    by (auto simp: START_TS_MAX_def ex_bpf_ctx_def)
  have "ev_comm e1 = zbuf 16" "ev_data e1 = zbuf 256"
    using r(1,2) by (auto simp: tracepoint_sys_exit_def Let_def ex_bpf_ctx_def zero_event_def split: option.split_asm)
  then have wf: "wf_event (replicate 7 0) e1" by (simp add: wf_event_def zbuf_def)
  have vals: "bc_pid ?c' = 0" "trim_nul (bc_comm ?c') = []" "ev_count zero_event = 0" "bc_ktime ?c' 0 - bc_ktime ?c 0 = 500"
    by (simp_all add: bc_pid_def ex_bpf_ctx_def zero_event_def trim_nul_def trim_right_nul_def zbuf_def)
  have "syscall_handleEvent ''p'' 5 (event_bytes (replicate 7 0) e1) 344 = Some [WriteSyscallEvent 5 ''p'' 0 [] 0 500 1]"
    using r(3) [of "replicate 7 0" "event_bytes (replicate 7 0) e1"] wf
    unfolding vals length_event_bytes [OF wf] by (simp add: sample_of_def)
  with r(1,2) show ?thesis by auto
qed

text \<open>
  What the collectors of raw payloads read of a captured message.
\<close>

lemma message_captured:
  "handle_udp_msg c sk kvec sz dir (Some slot) = Some e \<Longrightarrow> captured c sk kvec slot e \<and> ev_type e = 3"
  "handle_tcp_msg c sk kvec sz dir (Some slot) = Some e \<Longrightarrow> captured c sk kvec slot e \<and> ev_type e = 2"
  "handle_db_tcp c sk kvec sz dir (Some slot) = Some e \<Longrightarrow> captured c sk kvec slot e"
  by (auto simp: captured_def handle_udp_msg_def handle_tcp_msg_def handle_db_tcp_def bpf_ntohs_def endian_simps Let_def
      split: if_split_asm)

lemma raw_reads:
  assumes "captured c sk kvec slot e" "sample_of pad e buf"
  shows "raw_endpoints buf = Some (sk_rcv_saddr sk, sk_daddr sk, sk_num sk, ntohs (sk_dport sk))"
    "\<exists>raw. slice buf 72 328 = Some raw \<and> go_string raw = bc_comm c @ take 240 (copy_iov c kvec (ev_data slot))"
  using assms(1) sample_reads [OF assms(2)] by (simp_all add: raw_endpoints_def captured_def)

text \<open>
  C34: The collectors of raw payloads report the ports of the socket, but both addresses with
  their bytes reversed, and as payload the sixteen bytes of the process name followed by the first 240
  bytes of the captured data: they read at offset 72, where \<open>struct event\<close> has \<open>comm\<close>, and the data starts at 88.
\<close>

theorem raw_payload_reported:
  assumes "sk_rcv_saddr sk = addr4_mem src" "sk_daddr sk = addr4_mem dst"
    and "payload = bc_comm c @ take 240 (copy_iov c kvec (ev_data slot))"
    and "good = (\<lambda>r. oe_SrcIP r = addr4_text (addr4_rev src) \<and> oe_DstIP r = addr4_text (addr4_rev dst) \<and>
      oe_SrcPort r = sk_num sk \<and> oe_DstPort r = ntohs (sk_dport sk))"
  shows "(handle_udp_msg c sk kvec sz dir (Some slot) = Some e \<and> sample_of pad e buf \<longrightarrow>
      (\<exists>r. dns_handleEvent probeID now buf (length buf) = Some [WriteEvent r] \<and> good r \<and> oe_Details r = payload)) \<and>
    (handle_tcp_msg c sk kvec sz dir (Some slot) = Some e \<and> sample_of pad e buf \<longrightarrow>
      (\<exists>r. http_handleEvent probeID now buf (length buf) = Some [WriteEvent r] \<and> good r \<and> oe_Details r = trim_nul payload)) \<and>
    (handle_db_tcp c sk kvec sz dir (Some slot) = Some e \<and> sample_of pad e buf \<longrightarrow>
      (\<exists>r. db_handleEvent probeID now buf (length buf) = Some [WriteEvent r] \<and> good r \<and> oe_Details r = payload))"
proof -
  have good: "good (raw_event probeID now t p ty (sk_rcv_saddr sk, sk_daddr sk, sk_num sk, ntohs (sk_dport sk)) s)"
    "oe_Details (raw_event probeID now t p ty (sk_rcv_saddr sk, sk_daddr sk, sk_num sk, ntohs (sk_dport sk)) s) = s" for t p ty s
    by (simp_all add: raw_event_def assms(1,2,4) ipToString_mem)
  have reads: "344 \<le> length buf \<and> LittleEndian_Uint32 buf 8 12 = Some (ev_type e) \<and>
      raw_endpoints buf = Some (sk_rcv_saddr sk, sk_daddr sk, sk_num sk, ntohs (sk_dport sk)) \<and>
      (\<exists>raw. slice buf 72 328 = Some raw \<and> go_string raw = payload)"
    if "captured c sk kvec slot e" "sample_of pad e buf"
    using raw_reads [OF that] sample_reads(2) [OF that(2)] sample_length [OF that(2)] by (simp_all add: assms(3))
  show ?thesis
    by (auto dest!: message_captured reads simp: dns_handleEvent_def http_handleEvent_def db_handleEvent_def good)
qed

text \<open>A query sent from 10.0.0.1 to the resolver at 8.8.4.4, captured in a zeroed slot.\<close>

theorem raw_payload_reported_witness:
  "\<exists>e r. handle_udp_msg (ex_bpf_ctx 7 900 []) \<lparr>sk_num = 4660, sk_dport = 0x3500, sk_rcv_saddr = le32 10 0 0 1,
       sk_daddr = le32 8 8 4 4\<rparr> None 20 1 (Some zero_event) = Some e \<and>
     dns_handleEvent ''p'' 5 (event_bytes (replicate 7 0) e) 344 = Some [WriteEvent r] \<and>
     oe_SrcIP r = ''1.0.0.10'' \<and> oe_DstIP r = ''4.4.8.8'' \<and> oe_DstPort r = 53"
proof -
  let ?c = "ex_bpf_ctx 7 900 []"
  let ?sk = "\<lparr>sk_num = 4660, sk_dport = 0x3500, sk_rcv_saddr = le32 10 0 0 1, sk_daddr = le32 8 8 4 4\<rparr>"
  have port: "ntohs 0x3500 = 53" by (simp add: ntohs_def)
  obtain e where e: "handle_udp_msg ?c ?sk None 20 1 (Some zero_event) = Some e" "captured ?c ?sk None zero_event e"
    using message_captured(1) [of ?c ?sk None 20 1 zero_event]
    by (auto simp: handle_udp_msg_def Let_def bpf_ntohs_def endian_simps port)
  have wf: "wf_event (replicate 7 0) e"
    using e(2) by (simp add: wf_event_def captured_def ex_bpf_ctx_def copy_iov_def zero_event_def zbuf_def)
  then have "sample_of (replicate 7 0) e (event_bytes (replicate 7 0) e)" by (simp add: sample_of_def)
  with e(1) obtain r where "dns_handleEvent ''p'' 5 (event_bytes (replicate 7 0) e) 344 = Some [WriteEvent r]"
      "oe_SrcIP r = addr4_text (1, 0, 0, 10)" "oe_DstIP r = addr4_text (4, 4, 8, 8)" "oe_DstPort r = 53"
    using raw_payload_reported [of ?sk "(10, 0, 0, 1)" "(8, 8, 4, 4)" _ ?c None zero_event _ 20 1 e "replicate 7 0"
        "event_bytes (replicate 7 0) e" "''p''" 5, OF _ _ refl refl]
    by (auto simp: length_event_bytes [OF wf] port)
  moreover have "addr4_text (1, 0, 0, 10) = ''1.0.0.10''" "addr4_text (4, 4, 8, 8) = ''4.4.8.8''" by code_simp+
  ultimately show ?thesis using e(1) by auto
qed

text \<open>Processes and files: what the other two collectors report of the events of their programs.\<close>

theorem process_reported:
  assumes "sample_of pad e buf"
  shows "tracepoint_sched_process_exec c pid ppid a0 a1 (Some slot) = Some e \<Longrightarrow>
      perf_handleEvent probeID now buf (length buf) =
        Some [WriteProcessEvent now probeID pid ppid (trim_nul (bc_comm c)) [] (trim_nul (ev_data e)) ''execve'']"
    and "tracepoint_sched_process_exit c pid ppid (Some slot) = Some e \<Longrightarrow>
      perf_handleEvent probeID now buf (length buf) =
        Some [WriteProcessEvent now probeID pid ppid (trim_nul (bc_comm c)) [] [] ''exit'']"
    and "trace_vfs_write c (Some slot) = Some e \<Longrightarrow>
      sec_handleEvent probeID off buf (length buf) =
        Some [WriteFileEvent (ebpfTimeToWallTime off (bc_ktime c 0)) probeID (bc_pid c) (trim_nul (bc_comm c)) ''WRITE'' ''open'' 0]"
  using sample_reads [OF assms] sample_length [OF assms]
  by (auto simp: tracepoint_sched_process_exec_def tracepoint_sched_process_exit_def trace_vfs_write_def perf_handleEvent_def
      sec_handleEvent_def Let_def cstr_def)

end
