(* ===== verification/Go_Edge.thy ===== *)
theory Go_Edge
  imports Go_Collectors "HOL-Library.Multiset"
begin

text \<open>
  The client of the edge server, \<open>src/internal/output/edge.go\<close>: it samples events by category, collects
  them in a batch under a mutex, and posts the batch when it is full, on a ticker, on request and at
  the end; a request that fails puts its events back.

  Each section under the mutex is one function.  A call of a method is the composition of its sections;
  the machine at the end interleaves the sections of any number of goroutines.  The numbers drawn
  by \<open>rand.Float64\<close> and the outcomes of the requests are arguments.
\<close>

section \<open>Sampling\<close>

definition categorySampling :: "(string \<times> rat) list" where
  "categorySampling = [(''file_events'', 1/100), (''network_events'', 1/10), (''process_events'', 1/10),
     (''security_events'', 1), (''syscall'', 1/1000)]"

definition shouldSample :: "string \<Rightarrow> rat \<Rightarrow> bool" where
  "shouldSample category r =
     (let rate = (case map_of categorySampling category of None \<Rightarrow> 1 | Some q \<Rightarrow> q)
      in if 1 \<le> rate then True else r < rate)"

section \<open>JSON\<close>

text \<open>
  Strings as \<open>encoding/json\<close> writes them.  \<open>utf8_len\<close> is the length of the valid UTF-8 sequence
  that starts a byte string, 0 if there is none.
\<close>

definition cont :: "string \<Rightarrow> nat \<Rightarrow> nat \<Rightarrow> nat \<Rightarrow> bool" where
  "cont s i lo hi \<longleftrightarrow> i < length s \<and> lo \<le> of_char (s ! i) \<and> of_char (s ! i) \<le> hi"

definition utf8_len :: "string \<Rightarrow> nat" where
  "utf8_len s =
     (case s of
        [] \<Rightarrow> 0
      | c # _ \<Rightarrow>
          let b = of_char c :: nat in
          if b < 0x80 then 1
          else if 0xC2 \<le> b \<and> b \<le> 0xDF then (if cont s 1 0x80 0xBF then 2 else 0)
          else if 0xE0 \<le> b \<and> b \<le> 0xEF then
            (if cont s 1 (if b = 0xE0 then 0xA0 else 0x80) (if b = 0xED then 0x9F else 0xBF) \<and> cont s 2 0x80 0xBF then 3 else 0)
          else if 0xF0 \<le> b \<and> b \<le> 0xF4 then
            (if cont s 1 (if b = 0xF0 then 0x90 else 0x80) (if b = 0xF4 then 0x8F else 0xBF) \<and> cont s 2 0x80 0xBF \<and>
               cont s 3 0x80 0xBF then 4 else 0)
          else 0)"

definition json_ascii :: "char \<Rightarrow> string" where
  "json_ascii c =
     (if c = CHR 0x22 then [CHR 0x5C, CHR 0x22] else if c = CHR 0x5C then [CHR 0x5C, CHR 0x5C]
      else if c = CHR 0x08 then [CHR 0x5C] @ ''b'' else if c = CHR 0x0C then [CHR 0x5C] @ ''f''
      else if c = CHR 0x0A then [CHR 0x5C] @ ''n'' else if c = CHR 0x0D then [CHR 0x5C] @ ''r''
      else if c = CHR 0x09 then [CHR 0x5C] @ ''t''
      else if of_char c < (0x20 :: nat) \<or> c \<in> {CHR 0x3C, CHR 0x3E, CHR 0x26} then
        [CHR 0x5C] @ ''u00'' @ [hex_char (of_char c div 16), hex_char (of_char c mod 16)]
      else [c])"

function json_chars :: "string \<Rightarrow> string" where
  "json_chars [] = []"
| "json_chars (c # cs) =
     (if of_char c < (0x80 :: nat) then json_ascii c @ json_chars cs
      else let n = utf8_len (c # cs) in
        if n = 0 then [CHR 0x5C] @ ''ufffd'' @ json_chars cs
        else if take 3 (c # cs) = [CHR 0xE2, CHR 0x80, CHR 0xA8] then [CHR 0x5C] @ ''u2028'' @ json_chars (drop n (c # cs))
        else if take 3 (c # cs) = [CHR 0xE2, CHR 0x80, CHR 0xA9] then [CHR 0x5C] @ ''u2029'' @ json_chars (drop n (c # cs))
        else take n (c # cs) @ json_chars (drop n (c # cs)))"
  by pat_completeness auto
termination
  by (relation "measure length") (auto simp: utf8_len_def)

definition json_string :: "string \<Rightarrow> string" where
  "json_string s = [CHR 0x22] @ json_chars s @ [CHR 0x22]"

text \<open>A map is written with its keys in order; the texts of the values are given.\<close>

definition json_object :: "(string \<times> string) list \<Rightarrow> string" where
  "json_object kvs = ''{'' @ join '','' (map (\<lambda>(k, v). json_string k @ '':'' @ v) kvs) @ ''}''"

section \<open>The client\<close>

record edge_client =
  ec_addr :: string
  ec_batch :: "out_event list"
  ec_stopped :: bool

definition NewEdgeClient :: "string \<Rightarrow> edge_client" where
  "NewEdgeClient addr = \<lparr>ec_addr = addr, ec_batch = [], ec_stopped = False\<rparr>"

text \<open>The sections under the mutex: add events, take the batch, put a failed batch back.\<close>

definition append_events :: "out_event list \<Rightarrow> edge_client \<Rightarrow> bool \<times> edge_client" where
  "append_events evs e =
     (let batch = ec_batch e @ evs; shouldFlush = (2000 \<le> length batch)
      in (shouldFlush, e\<lparr>ec_batch := batch\<rparr>))"

definition flush_take :: "edge_client \<Rightarrow> out_event list option \<times> edge_client" where
  "flush_take e = (if ec_batch e = [] then (None, e) else (Some (ec_batch e), e\<lparr>ec_batch := []\<rparr>))"

definition flush_restore :: "out_event list \<Rightarrow> edge_client \<Rightarrow> edge_client" where
  "flush_restore events e =
     (let batch = events @ ec_batch e
      in e\<lparr>ec_batch := (if 10000 < length batch then take 10000 batch else batch)\<rparr>)"

text \<open>The outcome of a request: an error, or a response with its status.\<close>

datatype post_result = PostError | Status nat

definition flush_answer :: "post_result \<Rightarrow> out_event list \<Rightarrow> edge_client \<Rightarrow> edge_client" where
  "flush_answer r events e =
     (case r of
        PostError \<Rightarrow> flush_restore events e
      | Status n \<Rightarrow> if n \<noteq> 200 then flush_restore events e else e)"

text \<open>A request made by a call, with its outcome.\<close>

type_synonym post = "string \<times> out_event list \<times> post_result"

definition flush :: "post_result \<Rightarrow> edge_client \<Rightarrow> post list \<times> edge_client" where
  "flush r e =
     (case flush_take e of
        (None, e) \<Rightarrow> ([], e)
      | (Some events, e) \<Rightarrow>
          ([(''http://'' @ ec_addr e @ ''/api/v1/ingest'', events, r)], flush_answer r events e))"

definition WriteEvent_edge :: "rat \<Rightarrow> post_result \<Rightarrow> out_event \<Rightarrow> edge_client \<Rightarrow> post list \<times> edge_client" where
  "WriteEvent_edge d r ev e =
     (if \<not> shouldSample (oe_Category ev) d then ([], e)
      else case append_events [ev] e of (shouldFlush, e) \<Rightarrow> if shouldFlush then flush r e else ([], e))"

text \<open>Every event comes with the number that would be drawn for it.\<close>

definition WriteBatch :: "post_result \<Rightarrow> (out_event \<times> rat) list \<Rightarrow> edge_client \<Rightarrow> post list \<times> edge_client" where
  "WriteBatch r events e =
     (let filtered = map fst (filter (\<lambda>(ev, d). shouldSample (oe_Category ev) d) events) in
      if filtered = [] then ([], e)
      else case append_events filtered e of (shouldFlush, e) \<Rightarrow> if shouldFlush then flush r e else ([], e))"

text \<open>Closing a closed channel panics.\<close>

definition Close :: "post_result \<Rightarrow> edge_client \<Rightarrow> (post list \<times> edge_client) ub" where
  "Close r e = (if ec_stopped e then None else Some (flush r (e\<lparr>ec_stopped := True\<rparr>)))"

definition Flush :: "post_result \<Rightarrow> edge_client \<Rightarrow> post list \<times> edge_client" where
  "Flush r e = flush r e"

text \<open>One round of the loop of the ticker, which ends when the channel is closed.\<close>

definition flushLoop_tick :: "post_result \<Rightarrow> edge_client \<Rightarrow> post list \<times> edge_client" where
  "flushLoop_tick r e = (if ec_stopped e then ([], e) else flush r e)"

section \<open>The methods of the interface\<close>

text \<open>The events that the methods build; those of the metrics take the texts of the floating-point numbers.\<close>

definition metrics_event :: "int \<Rightarrow> string \<Rightarrow> string \<Rightarrow> string \<Rightarrow> string \<Rightarrow> u64 \<Rightarrow> u64 \<Rightarrow> u64 \<Rightarrow> u64 \<Rightarrow> out_event" where
  "metrics_event now probeID cpu mem disk netRx netTx diskRead diskWrite =
     zero_out_event\<lparr>oe_Timestamp := now, oe_ProbeID := probeID, oe_Category := ''metrics'', oe_EventType := ''host_metrics'',
       oe_Details := json_object [(''cpu_percent'', cpu), (''disk_percent'', disk), (''disk_read_bytes'', show_word diskRead),
         (''disk_write_bytes'', show_word diskWrite), (''memory_percent'', mem), (''net_rx_bytes'', show_word netRx),
         (''net_tx_bytes'', show_word netTx)]\<rparr>"

definition process_event :: "int \<Rightarrow> string \<Rightarrow> u32 \<Rightarrow> u32 \<Rightarrow> string \<Rightarrow> string \<Rightarrow> string \<Rightarrow> string \<Rightarrow> out_event" where
  "process_event ts probeID pid ppid comm exe args eventType =
     zero_out_event\<lparr>oe_Timestamp := ts, oe_ProbeID := probeID, oe_Category := ''process'', oe_EventType := eventType,
       oe_Details := json_object [(''args'', json_string args), (''comm'', json_string comm), (''exe'', json_string exe),
         (''pid'', show_word pid), (''ppid'', show_word ppid)]\<rparr>"

definition file_event :: "int \<Rightarrow> string \<Rightarrow> u32 \<Rightarrow> string \<Rightarrow> string \<Rightarrow> string \<Rightarrow> int \<Rightarrow> out_event" where
  "file_event ts probeID pid comm filename operation result =
     zero_out_event\<lparr>oe_Timestamp := ts, oe_ProbeID := probeID, oe_Category := ''file'', oe_EventType := operation,
       oe_Details := json_object [(''comm'', json_string comm), (''filename'', json_string filename),
         (''pid'', show_word pid), (''result'', show_int result)]\<rparr>"

definition syscall_event :: "int \<Rightarrow> string \<Rightarrow> u32 \<Rightarrow> string \<Rightarrow> u64 \<Rightarrow> u64 \<Rightarrow> u64 \<Rightarrow> out_event" where
  "syscall_event ts probeID pid comm syscallNr latencyNs cnt =
     zero_out_event\<lparr>oe_Timestamp := ts, oe_ProbeID := probeID, oe_Category := ''syscall'', oe_EventType := ''syscall'',
       oe_Details := json_object [(''comm'', json_string comm), (''count'', show_word cnt), (''latency_ns'', show_word latencyNs),
         (''pid'', show_word pid), (''syscall_nr'', show_word syscallNr)]\<rparr>"

definition WriteMetrics where
  "WriteMetrics d r now probeID cpu mem disk netRx netTx diskRead diskWrite e =
     WriteEvent_edge d r (metrics_event now probeID cpu mem disk netRx netTx diskRead diskWrite) e"

fun call_event :: "writer_call \<Rightarrow> out_event" where
  "call_event (WriteEvent ev) = ev"
| "call_event (WriteProcessEvent ts probeID pid ppid comm exe args eventType) = process_event ts probeID pid ppid comm exe args eventType"
| "call_event (WriteFileEvent ts probeID pid comm filename operation result) = file_event ts probeID pid comm filename operation result"
| "call_event (WriteSyscallEvent ts probeID pid comm nr lat cnt) = syscall_event ts probeID pid comm nr lat cnt"

definition edge_call :: "rat \<Rightarrow> post_result \<Rightarrow> writer_call \<Rightarrow> edge_client \<Rightarrow> post list \<times> edge_client" where
  "edge_call d r call e = WriteEvent_edge d r (call_event call) e"

section \<open>Interleavings\<close>

text \<open>
  \<open>es_due\<close> counts the goroutines that are about to flush, \<open>es_flight\<close> holds the events of the requests
  that are under way.  What was accepted, what a response with status 200 confirmed and what was
  cut off is recorded beside the client.
\<close>

record edge_state =
  es_client :: edge_client
  es_due :: nat
  es_flight :: "out_event list list"
  es_accepted :: "out_event list"
  es_sent :: "out_event list list"
  es_dropped :: "out_event list"

definition edge_start :: "string \<Rightarrow> edge_state" where
  "edge_start addr = \<lparr>es_client = NewEdgeClient addr, es_due = 0, es_flight = [], es_accepted = [], es_sent = [], es_dropped = []\<rparr>"

definition confirmed :: "post_result \<Rightarrow> bool" where
  "confirmed r \<longleftrightarrow> r = Status 200"

inductive edge_step :: "edge_state \<Rightarrow> edge_state \<Rightarrow> bool" where
  accept: "append_events evs (es_client s) = (full, c) \<Longrightarrow>
    edge_step s (s\<lparr>es_client := c, es_due := es_due s + (if full then 1 else 0), es_accepted := es_accepted s @ evs\<rparr>)"
| tick: "\<not> ec_stopped (es_client s) \<Longrightarrow> edge_step s (s\<lparr>es_due := es_due s + 1\<rparr>)"
| call: "edge_step s (s\<lparr>es_due := es_due s + 1\<rparr>)"
| close: "\<not> ec_stopped (es_client s) \<Longrightarrow>
    edge_step s (s\<lparr>es_client := (es_client s)\<lparr>ec_stopped := True\<rparr>, es_due := es_due s + 1\<rparr>)"
| idle: "0 < es_due s \<Longrightarrow> flush_take (es_client s) = (None, c) \<Longrightarrow> edge_step s (s\<lparr>es_client := c, es_due := es_due s - 1\<rparr>)"
| begin_post: "0 < es_due s \<Longrightarrow> flush_take (es_client s) = (Some events, c) \<Longrightarrow>
    edge_step s (s\<lparr>es_client := c, es_due := es_due s - 1, es_flight := es_flight s @ [events]\<rparr>)"
| answer: "es_flight s = pre @ events # post \<Longrightarrow>
    edge_step s (s\<lparr>es_client := flush_answer r events (es_client s), es_flight := pre @ post,
      es_sent := es_sent s @ (if confirmed r then [events] else []),
      es_dropped := es_dropped s @ (if confirmed r then [] else drop 10000 (events @ ec_batch (es_client s)))\<rparr>)"

inductive_cases edge_stepE: "edge_step s s'"

text \<open>The invariant: no event is lost or duplicated, every request has events, and nothing is cut off
  while fewer than 10000 events are waiting.\<close>

definition edge_inv :: "edge_state \<Rightarrow> bool" where
  "edge_inv s \<longleftrightarrow>
     mset (es_accepted s) = mset (ec_batch (es_client s)) + mset (concat (es_flight s)) + mset (concat (es_sent s)) +
       mset (es_dropped s) \<and>
     [] \<notin> set (es_flight s) \<and> [] \<notin> set (es_sent s) \<and>
     (length (es_accepted s) \<le> 10000 \<longrightarrow> es_dropped s = [])"

text \<open>The steps that remain when nothing is written, no flush is requested and every request is confirmed.\<close>

inductive drain_step :: "edge_state \<Rightarrow> edge_state \<Rightarrow> bool" where
  drain_idle: "0 < es_due s \<Longrightarrow> flush_take (es_client s) = (None, c) \<Longrightarrow> drain_step s (s\<lparr>es_client := c, es_due := es_due s - 1\<rparr>)"
| drain_post: "0 < es_due s \<Longrightarrow> flush_take (es_client s) = (Some events, c) \<Longrightarrow>
    drain_step s (s\<lparr>es_client := c, es_due := es_due s - 1, es_flight := es_flight s @ [events]\<rparr>)"
| drain_answer: "es_flight s = pre @ events # post \<Longrightarrow>
    drain_step s (s\<lparr>es_client := flush_answer (Status 200) events (es_client s), es_flight := pre @ post,
      es_sent := es_sent s @ [events]\<rparr>)"

text \<open>Calls one after the other, the events that they accept, and what a sequence of them has sent.\<close>

datatype client_op = Op_Write rat post_result out_event | Op_Batch post_result "(out_event \<times> rat) list" | Op_Flush post_result

fun edge_op :: "client_op \<Rightarrow> edge_client \<Rightarrow> post list \<times> edge_client" where
  "edge_op (Op_Write d r ev) e = WriteEvent_edge d r ev e"
| "edge_op (Op_Batch r evs) e = WriteBatch r evs e"
| "edge_op (Op_Flush r) e = Flush r e"

fun op_accepted :: "client_op \<Rightarrow> out_event list" where
  "op_accepted (Op_Write d r ev) = (if shouldSample (oe_Category ev) d then [ev] else [])"
| "op_accepted (Op_Batch r evs) = map fst (filter (\<lambda>(ev, d). shouldSample (oe_Category ev) d) evs)"
| "op_accepted (Op_Flush r) = []"

fun edge_run :: "client_op list \<Rightarrow> edge_client \<Rightarrow> post list \<times> edge_client" where
  "edge_run [] e = ([], e)"
| "edge_run (a # ops) e = (let (ps, e1) = edge_op a e; (qs, e2) = edge_run ops e1 in (ps @ qs, e2))"

definition post_confirmed :: "post \<Rightarrow> bool" where
  "post_confirmed = (\<lambda>(url, evs, r). confirmed r)"

definition sent_events :: "post list \<Rightarrow> out_event list" where
  "sent_events ps = concat (map (\<lambda>(url, evs, r). if confirmed r then evs else []) ps)"

text \<open>A client that has accepted one event and is about to flush.\<close>

definition ex_edge :: edge_state where
  "ex_edge = \<lparr>es_client = (NewEdgeClient ''relay'')\<lparr>ec_batch := [zero_out_event]\<rparr>, es_due = 1, es_flight = [],
     es_accepted = [zero_out_event], es_sent = [], es_dropped = []\<rparr>"

section \<open>Lemmas\<close>

lemma flush_answer_batch:
  "ec_batch (flush_answer r events e) = (if confirmed r then ec_batch e else take 10000 (events @ ec_batch e))"
  by (auto simp: flush_answer_def flush_restore_def confirmed_def Let_def split: post_result.split)

lemma edge_step_inv: "edge_step s s' \<Longrightarrow> edge_inv s \<Longrightarrow> edge_inv s'"
proof (induction rule: edge_step.induct)
  case (answer s pre events post r)
  obtain waiting kept cut where w: "events @ ec_batch (es_client s) = waiting" "take 10000 waiting = kept" "drop 10000 waiting = cut"
    by blast
  have "waiting = kept @ cut" using w(2,3) by auto
  then have split: "mset waiting = mset kept + mset cut" by simp
  have acc: "mset (es_accepted s) = mset waiting + mset (concat (pre @ post)) + mset (concat (es_sent s)) + mset (es_dropped s)"
    using answer by (simp add: edge_inv_def flip: w(1))
  have "length waiting \<le> length (es_accepted s)" using arg_cong [OF acc, of size] by simp
  then have cut: "length (es_accepted s) \<le> 10000 \<Longrightarrow> cut = []" using w(3) by auto
  show ?case
  proof (cases "confirmed r")
    case True
    with answer show ?thesis by (simp add: edge_inv_def flush_answer_batch)
  next
    case False
    have "ec_batch (flush_answer r events (es_client s)) = kept" using False w by (simp add: flush_answer_batch)
    with answer acc split cut False w(1,3) show ?thesis by (simp add: edge_inv_def)
  qed
qed (auto simp: edge_inv_def append_events_def flush_take_def Let_def split: if_split_asm)

interpretation edge_machine: step_system edge_step edge_inv
  by unfold_locales (rule edge_step_inv)

lemma edge_start_inv: "edge_inv (edge_start addr)"
  by (simp add: edge_inv_def edge_start_def NewEdgeClient_def)

text \<open>Draining.\<close>

lemma drain_is_edge: "drain_step s s' \<Longrightarrow> edge_step s s'"
proof (induction rule: drain_step.induct)
  case (drain_answer s pre events post)
  then show ?case using edge_step.answer [OF drain_answer, of "Status 200"] by (simp add: confirmed_def)
qed (blast intro: edge_step.intros)+

lemma drain_measure: "drain_step s s' \<Longrightarrow> 2 * es_due s' + length (es_flight s') < 2 * es_due s + length (es_flight s)"
  by (induction rule: drain_step.induct) auto

lemma drain_step_keeps:
  "drain_step s s' \<Longrightarrow> es_accepted s' = es_accepted s \<and> es_dropped s' = es_dropped s \<and>
     (0 < es_due s \<or> ec_batch (es_client s) = [] \<longrightarrow> 0 < es_due s' \<or> ec_batch (es_client s') = [])"
  by (induction rule: drain_step.induct) (auto simp: flush_take_def flush_answer_batch confirmed_def split: if_split_asm)

lemma drain_runs:
  assumes "drain_step\<^sup>*\<^sup>* s s'" "edge_inv s" "0 < es_due s \<or> ec_batch (es_client s) = []"
  shows "edge_inv s' \<and> es_accepted s' = es_accepted s \<and> es_dropped s' = es_dropped s \<and>
    (0 < es_due s' \<or> ec_batch (es_client s') = [])"
  using assms(1)
proof (induction rule: rtranclp_induct)
  case base
  then show ?case using assms(2,3) by simp
next
  case (step y z)
  then show ?case using drain_step_keeps [OF step(2)] edge_step_inv [OF drain_is_edge [OF step(2)]] by simp
qed

lemma drain_stuck:
  assumes "\<nexists>s'. drain_step s s'"
  shows "es_due s = 0" "es_flight s = []"
proof -
  show "es_flight s = []"
  proof (rule ccontr)
    assume "es_flight s \<noteq> []"
    then obtain ev fl where "es_flight s = [] @ ev # fl" by (cases "es_flight s") auto
    then show False using assms drain_answer by blast
  qed
  show "es_due s = 0"
  proof (rule ccontr)
    assume "es_due s \<noteq> 0"
    moreover obtain t c where "flush_take (es_client s) = (t, c)" by (cases "flush_take (es_client s)")
    ultimately show False using assms by (cases t) (auto intro: drain_step.intros)
  qed
qed

text \<open>Calls in sequence.\<close>

lemma flush_effect:
  assumes "flush r e = (ps, e')"
  shows "sent_events ps @ ec_batch e' = (if list_all post_confirmed ps then ec_batch e else take 10000 (ec_batch e))"
    and "length (ec_batch e') \<le> 10000"
  using assms by (auto simp: flush_def flush_take_def flush_answer_batch sent_events_def post_confirmed_def split: if_split_asm)

lemma append_flush_effect:
  assumes "(case append_events evs e of (full, e) \<Rightarrow> if full then flush r e else ([], e)) = (ps, e')"
  shows "ps = [] \<and> ec_batch e' = ec_batch e @ evs \<and> length (ec_batch e') \<le> 10000 \<or>
    (\<exists>e1. flush r e1 = (ps, e') \<and> ec_batch e1 = ec_batch e @ evs)"
proof (cases "2000 \<le> length (ec_batch e @ evs)")
  case True
  then have "flush r (e\<lparr>ec_batch := ec_batch e @ evs\<rparr>) = (ps, e')" using assms by (simp add: append_events_def)
  moreover have "ec_batch (e\<lparr>ec_batch := ec_batch e @ evs\<rparr>) = ec_batch e @ evs" by simp
  ultimately show ?thesis by blast
next
  case False
  then show ?thesis using assms by (auto simp: append_events_def)
qed

lemma edge_op_effect:
  assumes "edge_op a e = (ps, e')" "length (ec_batch e) \<le> 10000"
  shows "prefix (sent_events ps @ ec_batch e') (ec_batch e @ op_accepted a)"
    and "length (ec_batch e @ op_accepted a) \<le> 10000 \<or> list_all post_confirmed ps \<Longrightarrow> sent_events ps @ ec_batch e' = ec_batch e @ op_accepted a"
    and "length (ec_batch e') \<le> 10000"
proof -
  obtain b where b: "ec_batch e @ op_accepted a = b" by blast
  have "ps = [] \<and> ec_batch e' = b \<and> length b \<le> 10000 \<or> (\<exists>r e1. flush r e1 = (ps, e') \<and> ec_batch e1 = b)"
  proof (cases "\<exists>r. a = Op_Flush r \<or> op_accepted a = []")
    case True
    then show ?thesis using assms b
      by (cases a) (auto simp: WriteEvent_edge_def WriteBatch_def Flush_def split: if_split_asm)
  next
    case False
    then obtain r where "(case append_events (op_accepted a) e of (full, e) \<Rightarrow> if full then flush r e else ([], e)) = (ps, e')"
      using assms(1) by (cases a) (auto simp: WriteEvent_edge_def WriteBatch_def split: if_split_asm)
    from append_flush_effect [OF this] show ?thesis unfolding b by blast
  qed
  then have "prefix (sent_events ps @ ec_batch e') b \<and> (length b \<le> 10000 \<or> list_all post_confirmed ps \<longrightarrow> sent_events ps @ ec_batch e' = b) \<and>
      length (ec_batch e') \<le> 10000"
  proof (elim disjE exE conjE)
    fix r e1
    assume "flush r e1 = (ps, e')" "ec_batch e1 = b"
    then show ?thesis using flush_effect [of r e1 ps e'] by (auto simp: take_is_prefix split: if_split_asm)
  qed (simp add: sent_events_def)
  then show "prefix (sent_events ps @ ec_batch e') (ec_batch e @ op_accepted a)"
    and "length (ec_batch e @ op_accepted a) \<le> 10000 \<or> list_all post_confirmed ps \<Longrightarrow> sent_events ps @ ec_batch e' = ec_batch e @ op_accepted a"
    and "length (ec_batch e') \<le> 10000"
    by (simp_all add: b)
qed

lemma edge_run_effect:
  assumes "edge_run ops e = (ps, e')" "length (ec_batch e) \<le> 10000"
  shows "subseq (sent_events ps @ ec_batch e') (ec_batch e @ concat (map op_accepted ops)) \<and> length (ec_batch e') \<le> 10000 \<and>
    (length (ec_batch e @ concat (map op_accepted ops)) \<le> 10000 \<or> list_all post_confirmed ps \<longrightarrow>
       sent_events ps @ ec_batch e' = ec_batch e @ concat (map op_accepted ops))"
  using assms
proof (induction ops arbitrary: e ps)
  case (Cons a ops)
  obtain qs e1 rs where run: "edge_op a e = (qs, e1)" "edge_run ops e1 = (rs, e')" "ps = qs @ rs"
    using Cons.prems(1) by (auto simp: Let_def split: prod.split_asm)
  note eff = edge_op_effect [OF run(1) Cons.prems(2)]
  note IH = Cons.IH [OF run(2) eff(3)]
  let ?A = "concat (map op_accepted ops)"
  have sent: "sent_events ps = sent_events qs @ sent_events rs" by (simp add: run(3) sent_events_def)
  have "subseq (sent_events qs @ sent_events rs @ ec_batch e') (sent_events qs @ ec_batch e1 @ ?A)"
    using IH by (simp add: subseq_append')
  moreover have "subseq ((sent_events qs @ ec_batch e1) @ ?A) ((ec_batch e @ op_accepted a) @ ?A)"
    by (rule list_emb_append_mono [OF prefix_imp_subseq [OF eff(1)] subseq_order.refl])
  ultimately have "subseq (sent_events ps @ ec_batch e') (ec_batch e @ op_accepted a @ ?A)"
    using subseq_order.trans by (fastforce simp: sent)
  moreover have "sent_events ps @ ec_batch e' = ec_batch e @ op_accepted a @ ?A"
    if c: "length (ec_batch e @ op_accepted a @ ?A) \<le> 10000 \<or> list_all post_confirmed ps"
  proof -
    have 1: "sent_events qs @ ec_batch e1 = ec_batch e @ op_accepted a"
      using c run(3) by (intro eff(2)) auto
    then have "length (ec_batch e1) \<le> length (ec_batch e @ op_accepted a)" by (metis length_append le_add2)
    then have "sent_events rs @ ec_batch e' = ec_batch e1 @ ?A"
      using c run(3) IH by auto
    with 1 show ?thesis by (metis append.assoc sent)
  qed
  ultimately show ?case using IH by simp
qed (simp add: sent_events_def)

section \<open>Properties\<close>

text \<open>
  C3: Whatever goroutines write, flush and close in whatever order, and whatever becomes of the
  requests: every accepted event is exactly once in the batch, in a request under way, in a confirmed
  request, or among those cut off; and nothing is cut off as long as 10000 events have been accepted at most.
\<close>

theorem edge_conserves_events:
  assumes "edge_step\<^sup>*\<^sup>* (edge_start addr) s"
  shows "mset (es_accepted s) = mset (ec_batch (es_client s)) + mset (concat (es_flight s)) + mset (concat (es_sent s)) +
      mset (es_dropped s) \<and>
    (length (es_accepted s) \<le> 10000 \<longrightarrow> es_dropped s = [])"
  using edge_machine.reach_inv [OF assms edge_start_inv] by (simp add: edge_inv_def)

text \<open>
  C4: Once a flush is due, nothing more is written, no further flush is asked for and the server confirms
  every request, the remaining steps, those of the flushes due and under way, end in every order of the goroutines, and then every event accepted so far has been
  confirmed, except those cut off before.
\<close>

theorem edge_drains:
  assumes "edge_step\<^sup>*\<^sup>* (edge_start addr) s" "0 < es_due s"
  shows "(\<nexists>f. f 0 = s \<and> (\<forall>i. drain_step (f i) (f (Suc i)))) \<and>
    (\<forall>s'. drain_step\<^sup>*\<^sup>* s s' \<and> (\<nexists>s''. drain_step s' s'') \<longrightarrow>
       mset (es_accepted s) = mset (concat (es_sent s')) + mset (es_dropped s))"
proof (intro conjI allI impI notI; elim exE conjE)
  fix f :: "nat \<Rightarrow> edge_state"
  define m where "m i = 2 * es_due (f i) + length (es_flight (f i))" for i
  assume "\<forall>i. drain_step (f i) (f (Suc i))"
  then have "\<forall>i. (m (Suc i), m i) \<in> less_than" using drain_measure by (simp add: m_def)
  then show False using wf_less_than wf_iff_no_infinite_down_chain by blast
next
  fix s'
  assume run: "drain_step\<^sup>*\<^sup>* s s'" and stuck: "\<nexists>s''. drain_step s' s''"
  have "edge_inv s" using assms(1) edge_start_inv by (rule edge_machine.reach_inv)
  from drain_runs [OF run this] assms(2) drain_stuck [OF stuck]
  show "mset (es_accepted s) = mset (concat (es_sent s')) + mset (es_dropped s)"
    by (auto simp: edge_inv_def)
qed

lemma ex_edge_reach: "edge_step\<^sup>*\<^sup>* (edge_start ''relay'') ex_edge"
proof -
  let ?s = "ex_edge\<lparr>es_due := 0\<rparr>"
  have "edge_step (edge_start ''relay'') ?s"
    using edge_step.accept [of "[zero_out_event]" "edge_start ''relay''" False]
    by (simp add: append_events_def edge_start_def NewEdgeClient_def ex_edge_def)
  moreover have "edge_step ?s ex_edge" using edge_step.call [of ?s] by (simp add: ex_edge_def)
  ultimately show ?thesis by (meson converse_rtranclp_into_rtranclp rtranclp.rtrancl_refl)
qed

theorem edge_conserves_events_witness:
  "mset (es_accepted ex_edge) = mset (ec_batch (es_client ex_edge)) \<and> es_dropped ex_edge = []"
  using edge_conserves_events [OF ex_edge_reach] by (simp add: ex_edge_def)

theorem edge_drains_witness:
  "\<exists>s'. drain_step\<^sup>*\<^sup>* ex_edge s' \<and> concat (es_sent s') = [zero_out_event]"
proof -
  let ?c = "NewEdgeClient ''relay''"
  let ?s1 = "ex_edge\<lparr>es_client := ?c, es_due := 0, es_flight := [[zero_out_event]]\<rparr>"
  let ?s2 = "?s1\<lparr>es_flight := [], es_sent := [[zero_out_event]]\<rparr>"
  have "drain_step ex_edge ?s1"
    using drain_post [of ex_edge "[zero_out_event]" ?c] by (simp add: flush_take_def ex_edge_def NewEdgeClient_def)
  moreover have "drain_step ?s1 ?s2"
    using drain_answer [of ?s1 "[]" "[zero_out_event]" "[]"] by (simp add: flush_answer_def ex_edge_def)
  ultimately have run: "drain_step\<^sup>*\<^sup>* ex_edge ?s2" by (meson converse_rtranclp_into_rtranclp rtranclp.rtrancl_refl)
  have "\<nexists>s''. drain_step ?s2 s''" by (auto elim!: drain_step.cases simp: ex_edge_def)
  with edge_drains [OF ex_edge_reach] run have "mset (es_accepted ex_edge) = mset (concat (es_sent ?s2)) + mset (es_dropped ex_edge)"
    by (simp add: ex_edge_def)
  then have "concat (es_sent ?s2) = [zero_out_event]" by (simp add: ex_edge_def)
  with run show ?thesis by blast
qed

text \<open>
  Calls one after the other: the confirmed requests and the batch together are a subsequence
  of the accepted events, in their order, and the batch never has more than 10000 of them; they
  are all the accepted events if every request was confirmed or no more than 10000 were accepted.
\<close>

theorem edge_in_order:
  assumes "edge_run ops (NewEdgeClient addr) = (ps, e)" "accepted = concat (map op_accepted ops)"
  shows "subseq (sent_events ps @ ec_batch e) accepted \<and> length (ec_batch e) \<le> 10000 \<and>
    (length accepted \<le> 10000 \<or> list_all post_confirmed ps \<longrightarrow> sent_events ps @ ec_batch e = accepted)"
  using edge_run_effect [OF assms(1)] by (simp add: NewEdgeClient_def assms(2))

theorem edge_in_order_witness:
  "\<exists>ps e. edge_run [Op_Write 0 PostError zero_out_event, Op_Flush (Status 500), Op_Flush (Status 200)] (NewEdgeClient ''relay'') = (ps, e) \<and>
     sent_events ps @ ec_batch e = [zero_out_event]"
proof -
  let ?ops = "[Op_Write 0 PostError zero_out_event, Op_Flush (Status 500), Op_Flush (Status 200)]"
  obtain ps e where run: "edge_run ?ops (NewEdgeClient ''relay'') = (ps, e)" by (cases "edge_run ?ops (NewEdgeClient ''relay'')")
  have "shouldSample (oe_Category zero_out_event) 0" by (simp add: zero_out_event_def shouldSample_def categorySampling_def)
  then have "concat (map op_accepted ?ops) = [zero_out_event]" by simp
  with edge_in_order [OF run refl] run show ?thesis by simp
qed

text \<open>
  C36: Sampling: the table has no entry for the categories that the collectors use, so it passes
  every event of the network, protocol, process, file and security collectors whatever number is
  drawn; only system calls are sampled, one in a thousand.
\<close>

theorem sampling_by_category:
  "(handleFlowEvent p now b = Some calls \<or> handleHTTPEvent p now b = Some calls \<or> http_handleEvent p now b n = Some calls \<or>
    dns_handleEvent p now b n = Some calls \<or> db_handleEvent p now b n = Some calls \<or> perf_handleEvent p now b n = Some calls \<or>
    sec_handleEvent p now b n = Some calls \<or> sectrace_handleEvent p now b n = Some calls \<longrightarrow>
      (\<forall>call \<in> set calls. shouldSample (oe_Category (call_event call)) d)) \<and>
   (syscall_handleEvent p now b n = Some calls \<longrightarrow>
      (\<forall>call \<in> set calls. shouldSample (oe_Category (call_event call)) d \<longleftrightarrow> d < 1 / 1000))"
proof -
  obtain good where good: "good = (\<lambda>call. shouldSample (oe_Category (call_event call)) d)" by blast
  obtain ok where ok: "ok = (\<lambda>res. \<forall>calls. res = Some calls \<longrightarrow> list_all good calls)" by blast
  have cat: "shouldSample ''network'' d" "shouldSample ''protocol'' d" "shouldSample ''process'' d" "shouldSample ''file'' d"
      "shouldSample ''security'' d" "shouldSample ''syscall'' d \<longleftrightarrow> d < 1 / 1000"
    by (simp_all add: shouldSample_def categorySampling_def)
  have bind: "(\<And>a. ok (f a)) \<Longrightarrow> ok (m \<bind> f)" for f and m :: "'x option" by (cases m) (auto simp: ok)
  have ite: "(c \<Longrightarrow> ok x) \<Longrightarrow> (\<not> c \<Longrightarrow> ok y) \<Longrightarrow> ok (if c then x else y)" for c x y by simp
  have one: "ok (Some [])" "good call \<Longrightarrow> ok (Some [call])" for call by (simp_all add: ok)
  have "ok (handleFlowEvent p now b)"
    unfolding handleFlowEvent_def Let_def by (intro bind ite one) (simp add: good cat)
  moreover have "ok (handleHTTPEvent p now b)"
    unfolding handleHTTPEvent_def Let_def by (intro bind ite one) (simp add: good cat)
  moreover have "ok (http_handleEvent p now b n)" "ok (dns_handleEvent p now b n)" "ok (db_handleEvent p now b n)"
    unfolding http_handleEvent_def dns_handleEvent_def db_handleEvent_def
    by (intro bind ite one; simp add: good cat raw_event_def split: prod.split)+
  moreover have "ok (perf_handleEvent p now b n)"
    unfolding perf_handleEvent_def by (intro bind ite) (simp_all add: ok good cat process_event_def)
  moreover have "ok (sec_handleEvent p now b n)"
    unfolding sec_handleEvent_def Let_def by (intro bind ite) (simp_all add: ok good cat file_event_def)
  moreover have "ok (sectrace_handleEvent p now b n)"
    unfolding sectrace_handleEvent_def Let_def by (intro bind ite) (simp_all add: ok good cat split: prod.split)
  moreover have "\<forall>call \<in> set calls. shouldSample (oe_Category (call_event call)) d \<longleftrightarrow> d < 1 / 1000"
    if "syscall_handleEvent p now b n = Some calls"
    using that by (auto simp: syscall_handleEvent_def syscall_event_def cat split: if_split_asm Option.bind_split_asm)
  ultimately show ?thesis by (auto simp: ok good list_all_iff)
qed

theorem sampling_by_category_witness:
  "\<exists>call. handleFlowEvent ''p'' 0 (replicate 32 0) = Some [call] \<and> shouldSample (oe_Category (call_event call)) (99/100)"
proof -
  obtain call where call: "handleFlowEvent ''p'' 0 (replicate 32 0) = Some [call]"
    by (simp add: handleFlowEvent_def BigEndian_Uint32_def LittleEndian_Uint32_def LittleEndian_Uint16_def slice_def rd_def Let_def)
  then have "\<forall>c \<in> set [call]. shouldSample (oe_Category (call_event c)) (99/100)"
    using sampling_by_category [of "''p''" 0 "replicate 32 0" "[call]"] by blast
  with call show ?thesis by simp
qed

end
