(* ===== verification/Go_Perf.thy ===== *)
theory Go_Perf
  imports Go_Collectors "HOL-Library.AList"
begin

text \<open>
  The performance analysers of the Go probe, \<open>src/pkg/perf\<close>, and the three collectors that feed them
  from the ring buffer of their BPF program, \<open>mem_trace.go\<close>, \<open>block_trace.go\<close> and \<open>sched_trace.go\<close> of
  \<open>src/internal/collector\<close>.

  A Go map is an association list with distinct keys; Go iterates over a map in no particular order, so
  only the elements of a result that comes from an iteration are meant.  Times are in nanoseconds.
\<close>

section \<open>mem.go\<close>

record MemAllocRecord =
  ma_Timestamp :: int
  ma_Pid :: u32
  ma_Comm :: string
  ma_Size :: u64
  ma_Pointer :: u64
  ma_AllocType :: string

record MemStats =
  ms_Pid :: u32
  ms_Comm :: string
  ms_TotalAlloc :: u64
  ms_TotalFree :: u64
  ms_CurrentAlloc :: u64
  ms_AllocCount :: u64
  ms_FreeCount :: u64
  ms_FailCount :: u64
  ms_LargeAlloc :: u64

record MemLeakDetector =
  md_allocs :: "(u64 \<times> MemAllocRecord) list"
  md_leaks :: "MemAllocRecord list"
  md_stats :: "(u32 \<times> MemStats) list"

definition NewMemLeakDetector :: MemLeakDetector where
  "NewMemLeakDetector = \<lparr>md_allocs = [], md_leaks = [], md_stats = []\<rparr>"

definition zero_MemStats :: "u32 \<Rightarrow> string \<Rightarrow> MemStats" where
  "zero_MemStats pid comm = \<lparr>ms_Pid = pid, ms_Comm = comm, ms_TotalAlloc = 0, ms_TotalFree = 0, ms_CurrentAlloc = 0,
     ms_AllocCount = 0, ms_FreeCount = 0, ms_FailCount = 0, ms_LargeAlloc = 0\<rparr>"

definition stat_of :: "u32 \<Rightarrow> string \<Rightarrow> (u32 \<times> MemStats) list \<Rightarrow> MemStats" where
  "stat_of pid comm stats = (case map_of stats pid of None \<Rightarrow> zero_MemStats pid comm | Some stat \<Rightarrow> stat)"

definition RecordAlloc :: "int \<Rightarrow> u32 \<Rightarrow> string \<Rightarrow> u64 \<Rightarrow> u64 \<Rightarrow> MemLeakDetector \<Rightarrow> MemLeakDetector" where
  "RecordAlloc now pid comm sz ptr d =
     (if ptr = 0 then d
      else
        let rcd = \<lparr>ma_Timestamp = now, ma_Pid = pid, ma_Comm = comm, ma_Size = sz, ma_Pointer = ptr, ma_AllocType = ''kmalloc''\<rparr>;
            stat = stat_of pid comm (md_stats d);
            stat = stat\<lparr>ms_TotalAlloc := ms_TotalAlloc stat + sz, ms_CurrentAlloc := ms_CurrentAlloc stat + sz,
              ms_AllocCount := ms_AllocCount stat + 1,
              ms_LargeAlloc := ms_LargeAlloc stat + (if 1024 * 1024 < sz then 1 else 0)\<rparr>
        in d\<lparr>md_allocs := AList.update ptr rcd (md_allocs d), md_stats := AList.update pid stat (md_stats d)\<rparr>)"

definition RecordFree :: "u32 \<Rightarrow> string \<Rightarrow> u64 \<Rightarrow> MemLeakDetector \<Rightarrow> MemLeakDetector" where
  "RecordFree pid comm ptr d =
     (case map_of (md_allocs d) ptr of
        None \<Rightarrow> d
      | Some alloc \<Rightarrow>
          let stat = stat_of pid comm (md_stats d);
              stat = stat\<lparr>ms_TotalFree := ms_TotalFree stat + ma_Size alloc, ms_CurrentAlloc := ms_CurrentAlloc stat - ma_Size alloc,
                ms_FreeCount := ms_FreeCount stat + 1\<rparr>
          in d\<lparr>md_allocs := AList.delete ptr (md_allocs d), md_stats := AList.update pid stat (md_stats d)\<rparr>)"

definition GetLeaks :: "int \<Rightarrow> MemLeakDetector \<Rightarrow> MemAllocRecord list" where
  "GetLeaks now d = filter (\<lambda>alloc. 5 * 60 * 1000000000 < now - ma_Timestamp alloc) (map snd (md_allocs d))"

definition GetStats_mem :: "MemLeakDetector \<Rightarrow> (u32 \<times> MemStats) list" where
  "GetStats_mem d = md_stats d"

definition Reset_mem :: "MemLeakDetector \<Rightarrow> MemLeakDetector" where
  "Reset_mem d = \<lparr>md_allocs = [], md_leaks = [], md_stats = []\<rparr>"

section \<open>block.go\<close>

record BlockIORecord =
  br_Timestamp :: int
  br_Dev :: u64
  br_Sector :: u64
  br_Size :: u64
  br_Direction :: string

text \<open>The fields \<open>WriteOps\<close>, \<open>WriteBytes\<close>, \<open>IOPS\<close> and \<open>ThroughputBps\<close> here and \<open>LatencyNs\<close> above, which
  nothing assigns, are left out: they are 0.\<close>

record BlockIOStats =
  bs_Dev :: u64
  bs_ReadOps :: u64
  bs_ReadBytes :: u64
  bs_TotalLatency :: u64
  bs_AvgLatencyNs :: u64
  bs_MaxLatencyNs :: u64

record BlockIOAnalyzer =
  ba_pending :: "(u64 \<times> BlockIORecord) list"
  ba_stats :: "(u64 \<times> BlockIOStats) list"
  ba_histogram :: "(u64 \<times> u64) list"

definition NewBlockIOAnalyzer :: BlockIOAnalyzer where
  "NewBlockIOAnalyzer = \<lparr>ba_pending = [], ba_stats = [], ba_histogram = []\<rparr>"

definition RecordIssue :: "u64 \<Rightarrow> u64 \<Rightarrow> u64 \<Rightarrow> int \<Rightarrow> BlockIOAnalyzer \<Rightarrow> BlockIOAnalyzer" where
  "RecordIssue dev sector sz ts a =
     (let key = push_bit 32 dev OR sector in
      a\<lparr>ba_pending := AList.update key \<lparr>br_Timestamp = ts, br_Dev = dev, br_Sector = sector, br_Size = sz, br_Direction = ''rw''\<rparr>
         (ba_pending a)\<rparr>)"

definition RecordComplete :: "u64 \<Rightarrow> u64 \<Rightarrow> int \<Rightarrow> BlockIOAnalyzer \<Rightarrow> BlockIOAnalyzer" where
  "RecordComplete dev sector ts a =
     (let key = push_bit 32 dev OR sector in
      case map_of (ba_pending a) key of
        None \<Rightarrow> a
      | Some rcd \<Rightarrow>
          let latency = of_int (ts - br_Timestamp rcd) :: u64;
              stat = (case map_of (ba_stats a) dev of
                 None \<Rightarrow> \<lparr>bs_Dev = dev, bs_ReadOps = 0, bs_ReadBytes = 0, bs_TotalLatency = 0, bs_AvgLatencyNs = 0, bs_MaxLatencyNs = 0\<rparr>
               | Some stat \<Rightarrow> stat);
              stat = stat\<lparr>bs_TotalLatency := bs_TotalLatency stat + latency, bs_ReadOps := bs_ReadOps stat + 1,
                bs_ReadBytes := bs_ReadBytes stat + br_Size rcd,
                bs_MaxLatencyNs := (if bs_MaxLatencyNs stat < latency then latency else bs_MaxLatencyNs stat)\<rparr>;
              bucket = latency div 100000
          in a\<lparr>ba_pending := AList.delete key (ba_pending a), ba_stats := AList.update dev stat (ba_stats a),
               ba_histogram := AList.update bucket ((case map_of (ba_histogram a) bucket of None \<Rightarrow> 0 | Some n \<Rightarrow> n) + 1) (ba_histogram a)\<rparr>)"

text \<open>Devices with more requests come first; the averages are stored as well.\<close>

definition with_average :: "BlockIOStats \<Rightarrow> BlockIOStats" where
  "with_average stat = (if 0 < bs_ReadOps stat then stat\<lparr>bs_AvgLatencyNs := bs_TotalLatency stat div bs_ReadOps stat\<rparr> else stat)"

definition GetStats_block :: "BlockIOAnalyzer \<Rightarrow> BlockIOStats list \<times> BlockIOAnalyzer" where
  "GetStats_block a =
     (let stats = map (\<lambda>(dev, stat). (dev, with_average stat)) (ba_stats a) in
      (sort_key (\<lambda>stat. - int (unat (bs_ReadOps stat))) (map snd stats), a\<lparr>ba_stats := stats\<rparr>))"

definition Reset_block :: "BlockIOAnalyzer \<Rightarrow> BlockIOAnalyzer" where
  "Reset_block a = \<lparr>ba_pending = [], ba_stats = [], ba_histogram = []\<rparr>"

section \<open>sched.go\<close>

text \<open>\<open>CPUUsagePct\<close>, which nothing assigns, is left out, and so are the unused events of the analyser.\<close>

record CPUUsage =
  cu_Pid :: u32
  cu_Comm :: string
  cu_RunTimeNs :: u64
  cu_WaitTimeNs :: u64
  cu_SwitchCount :: u64
  cu_WakeUpCount :: u64
  cu_WakeUpLatency :: u64

record SchedAnalyzer =
  sa_pidStats :: "(u32 \<times> CPUUsage) list"
  sa_lastRunTime :: "(u32 \<times> int) list"

definition NewSchedAnalyzer :: SchedAnalyzer where
  "NewSchedAnalyzer = \<lparr>sa_pidStats = [], sa_lastRunTime = []\<rparr>"

definition zero_CPUUsage :: "u32 \<Rightarrow> CPUUsage" where
  "zero_CPUUsage pid = \<lparr>cu_Pid = pid, cu_Comm = [], cu_RunTimeNs = 0, cu_WaitTimeNs = 0, cu_SwitchCount = 0,
     cu_WakeUpCount = 0, cu_WakeUpLatency = 0\<rparr>"

definition RecordSwitch :: "u32 \<Rightarrow> u32 \<Rightarrow> int \<Rightarrow> int \<Rightarrow> SchedAnalyzer \<Rightarrow> SchedAnalyzer" where
  "RecordSwitch pid nextPid prevState ts a =
     (let stats =
        (if prevState = 0 then
           (case map_of (sa_lastRunTime a) pid of
              None \<Rightarrow> sa_pidStats a
            | Some lastRun \<Rightarrow>
                let runTime = of_int (ts - lastRun) in
                (case map_of (sa_pidStats a) pid of
                   Some stat \<Rightarrow> AList.update pid (stat\<lparr>cu_RunTimeNs := cu_RunTimeNs stat + runTime,
                     cu_SwitchCount := cu_SwitchCount stat + 1\<rparr>) (sa_pidStats a)
                 | None \<Rightarrow> AList.update pid ((zero_CPUUsage pid)\<lparr>cu_RunTimeNs := runTime, cu_SwitchCount := 1\<rparr>) (sa_pidStats a)))
         else sa_pidStats a)
      in a\<lparr>sa_pidStats := stats, sa_lastRunTime := AList.update nextPid ts (sa_lastRunTime a)\<rparr>)"

definition RecordWakeUp :: "u32 \<Rightarrow> u64 \<Rightarrow> SchedAnalyzer \<Rightarrow> SchedAnalyzer" where
  "RecordWakeUp pid latencyNs a =
     (case map_of (sa_pidStats a) pid of
        Some stat \<Rightarrow> a\<lparr>sa_pidStats := AList.update pid (stat\<lparr>cu_WakeUpCount := cu_WakeUpCount stat + 1,
          cu_WakeUpLatency := cu_WakeUpLatency stat + latencyNs\<rparr>) (sa_pidStats a)\<rparr>
      | None \<Rightarrow> a\<lparr>sa_pidStats := AList.update pid ((zero_CPUUsage pid)\<lparr>cu_WakeUpCount := 1, cu_WakeUpLatency := latencyNs\<rparr>)
          (sa_pidStats a)\<rparr>)"

definition GetTopCPUUsage :: "nat \<Rightarrow> SchedAnalyzer \<Rightarrow> CPUUsage list" where
  "GetTopCPUUsage n a =
     (let list = sort_key (\<lambda>stat. - int (unat (cu_RunTimeNs stat))) (map snd (sa_pidStats a))
      in if n < length list then take n list else list)"

definition GetAvgWakeUpLatency :: "SchedAnalyzer \<Rightarrow> u64" where
  "GetAvgWakeUpLatency a =
     (let woken = filter (\<lambda>stat. 0 < cu_WakeUpCount stat) (map snd (sa_pidStats a));
          total = sum_list (map (\<lambda>stat. cu_WakeUpLatency stat div cu_WakeUpCount stat) woken)
      in if woken = [] then 0 else total div of_nat (length woken))"

definition Reset_sched :: "SchedAnalyzer \<Rightarrow> SchedAnalyzer" where
  "Reset_sched a = \<lparr>sa_pidStats = [], sa_lastRunTime = []\<rparr>"

section \<open>The collectors\<close>

definition mem_handleEvent :: "byte list \<Rightarrow> nat \<Rightarrow> int \<Rightarrow> MemLeakDetector \<Rightarrow> MemLeakDetector ub" where
  "mem_handleEvent buf len now d =
     (if len < 48 then Some d
      else do {
        etype \<leftarrow> LittleEndian_Uint32 buf 8 12;
        pid \<leftarrow> LittleEndian_Uint32 buf 12 16;
        bytes \<leftarrow> LittleEndian_Uint64 buf 40 48;
        Some (if etype = 14 then RecordAlloc now pid [] bytes 0 d
              else if etype = 15 then RecordFree pid [] 0 d
              else d)
      })"

definition block_handleEvent :: "byte list \<Rightarrow> nat \<Rightarrow> int \<Rightarrow> BlockIOAnalyzer \<Rightarrow> BlockIOAnalyzer ub" where
  "block_handleEvent buf len now a =
     (if len < 48 then Some a
      else do {
        etype \<leftarrow> LittleEndian_Uint32 buf 8 12;
        pid \<leftarrow> LittleEndian_Uint32 buf 12 16;
        bytes \<leftarrow> LittleEndian_Uint64 buf 40 48;
        latency \<leftarrow> LittleEndian_Uint64 buf 48 56;
        Some (if etype = 16 then RecordIssue (ucast pid) bytes latency now a
              else if etype = 17 then RecordComplete (ucast pid) bytes now a
              else a)
      })"

definition sched_handleEvent :: "byte list \<Rightarrow> nat \<Rightarrow> int \<Rightarrow> SchedAnalyzer \<Rightarrow> SchedAnalyzer ub" where
  "sched_handleEvent buf len now a =
     (if len < 48 then Some a
      else do {
        etype \<leftarrow> LittleEndian_Uint32 buf 8 12;
        pid \<leftarrow> LittleEndian_Uint32 buf 12 16;
        ppid \<leftarrow> LittleEndian_Uint32 buf 16 20;
        latency \<leftarrow> LittleEndian_Uint64 buf 48 56;
        Some (if etype = 12 then RecordSwitch pid ppid (sint latency) now a
              else if etype = 13 then RecordWakeUp pid latency a
              else a)
      })"

text \<open>The flushes: one event for each process or device, then everything is forgotten.\<close>

definition perf_event :: "int \<Rightarrow> string \<Rightarrow> string \<Rightarrow> string \<Rightarrow> string \<Rightarrow> writer_call" where
  "perf_event now probeID eventType details tags =
     WriteEvent (zero_out_event\<lparr>oe_Timestamp := now, oe_ProbeID := probeID, oe_Category := ''performance'',
       oe_EventType := eventType, oe_Details := details, oe_Tags := tags\<rparr>)"

definition mem_flush :: "string \<Rightarrow> int \<Rightarrow> MemLeakDetector \<Rightarrow> writer_call list \<times> MemLeakDetector" where
  "mem_flush probeID now d =
     (map (\<lambda>(pid, stat). perf_event now probeID ''mem''
        (''pid='' @ show_word pid @ '' alloc='' @ show_word (ms_AllocCount stat) @ '' free='' @ show_word (ms_FreeCount stat) @
         '' current='' @ show_word (ms_CurrentAlloc stat))
        (''large='' @ show_word (ms_LargeAlloc stat))) (GetStats_mem d),
      Reset_mem d)"

definition block_flush :: "string \<Rightarrow> int \<Rightarrow> BlockIOAnalyzer \<Rightarrow> writer_call list \<times> BlockIOAnalyzer" where
  "block_flush probeID now a =
     (case GetStats_block a of (stats, a) \<Rightarrow>
       (map (\<lambda>stat. perf_event now probeID ''block'' (''dev='' @ show_word (bs_Dev stat) @ '' iops=0 bw=0B/s'')
          (''avg='' @ show_word (bs_AvgLatencyNs stat) @ ''ns,max='' @ show_word (bs_MaxLatencyNs stat) @ ''ns'')) stats,
        Reset_block a))"

definition sched_flush :: "string \<Rightarrow> int \<Rightarrow> SchedAnalyzer \<Rightarrow> writer_call list \<times> SchedAnalyzer" where
  "sched_flush probeID now a =
     (map (\<lambda>stat. perf_event now probeID ''sched''
        (''pid='' @ show_word (cu_Pid stat) @ '' cpu=0.0% switches='' @ show_word (cu_SwitchCount stat))
        (''wakeup='' @ show_word (cu_WakeUpCount stat))) (GetTopCPUUsage 10 a),
      Reset_sched a)"

section \<open>Reference\<close>

text \<open>Sequences of allocations and releases in which no pointer is handed out while it is in use.\<close>

datatype mem_op = Op_Alloc int u32 string u64 u64 | Op_Free u32 string u64

fun mem_apply :: "mem_op \<Rightarrow> MemLeakDetector \<Rightarrow> MemLeakDetector" where
  "mem_apply (Op_Alloc now pid comm sz ptr) = RecordAlloc now pid comm sz ptr"
| "mem_apply (Op_Free pid comm ptr) = RecordFree pid comm ptr"

fun mem_fresh :: "mem_op \<Rightarrow> MemLeakDetector \<Rightarrow> bool" where
  "mem_fresh (Op_Alloc now pid comm sz ptr) d \<longleftrightarrow> map_of (md_allocs d) ptr = None"
| "mem_fresh (Op_Free pid comm ptr) d \<longleftrightarrow> True"

fun fresh_ops :: "mem_op list \<Rightarrow> MemLeakDetector \<Rightarrow> bool" where
  "fresh_ops [] d \<longleftrightarrow> True"
| "fresh_ops (a # ops) d \<longleftrightarrow> mem_fresh a d \<and> fresh_ops ops (mem_apply a d)"

definition alist_sum :: "('v \<Rightarrow> u64) \<Rightarrow> ('k \<times> 'v) list \<Rightarrow> u64" where
  "alist_sum f al = sum_list (map (\<lambda>(k, v). f v) al)"

definition balanced :: "MemStats \<Rightarrow> bool" where
  "balanced stat \<longleftrightarrow> ms_CurrentAlloc stat = ms_TotalAlloc stat - ms_TotalFree stat"

definition mem_inv :: "MemLeakDetector \<Rightarrow> bool" where
  "mem_inv d \<longleftrightarrow> distinct (map fst (md_allocs d)) \<and> distinct (map fst (md_stats d)) \<and>
     alist_sum ms_CurrentAlloc (md_stats d) = alist_sum ma_Size (md_allocs d) \<and>
     (\<forall>x \<in> set (md_stats d). balanced (snd x))"

text \<open>The samples that the programs send: of block requests of any size, and of the scheduler.\<close>

inductive block_event :: "event \<Rightarrow> bool" where
  issue: "tracepoint_block_rq_issue c dev sector nr (Some slot) maps = (maps', Some e) \<Longrightarrow> block_event e"
| complete: "tracepoint_block_rq_complete c dev sector (Some slot) maps = (maps', Some e) \<Longrightarrow> block_event e"

inductive sched_event :: "event \<Rightarrow> bool" where
  switch: "tracepoint_sched_switch c p n st comm (Some slot) = Some e \<Longrightarrow> sched_event e"
| wakeup: "tracepoint_sched_wakeup c p comm (Some slot) = Some e \<Longrightarrow> sched_event e"

definition samples_from :: "(event \<Rightarrow> bool) \<Rightarrow> (int \<times> byte list) list \<Rightarrow> bool" where
  "samples_from P xs \<longleftrightarrow> (\<forall>(now, buf) \<in> set xs. \<exists>pad e. P e \<and> sample_of pad e buf)"

fun handle_all :: "(byte list \<Rightarrow> nat \<Rightarrow> int \<Rightarrow> 's \<Rightarrow> 's ub) \<Rightarrow> (int \<times> byte list) list \<Rightarrow> 's \<Rightarrow> 's ub" where
  "handle_all h [] s = Some s"
| "handle_all h ((now, buf) # xs) s = h buf (length buf) now s \<bind> handle_all h xs"

text \<open>
  The sample of an issued request whose byte count has no low 32 bits: a request of no sectors, such as a
  cache flush, or of a multiple of 4 GB.
\<close>

definition unsized_issue :: "byte list \<Rightarrow> bool" where
  "unsized_issue buf \<longleftrightarrow> LittleEndian_Uint32 buf 8 12 = Some 16 \<and>
     map_option (take_bit 32) (LittleEndian_Uint64 buf 40 48) = Some 0"

text \<open>What the analysers keep on such samples.\<close>

definition block_unsized :: "BlockIOAnalyzer \<Rightarrow> bool" where
  "block_unsized a \<longleftrightarrow> (\<forall>x \<in> set (ba_stats a). bs_ReadBytes (snd x) = 0) \<and> (\<forall>x \<in> set (ba_pending a). br_Size (snd x) = 0)"

definition block_inv :: "BlockIOAnalyzer \<Rightarrow> bool" where
  "block_inv a \<longleftrightarrow> ba_stats a = [] \<and> (\<forall>x \<in> set (ba_pending a). take_bit 32 (fst x) \<noteq> 0)"

definition sched_inv :: "SchedAnalyzer \<Rightarrow> bool" where
  "sched_inv a \<longleftrightarrow> (\<forall>x \<in> set (sa_pidStats a). cu_RunTimeNs (snd x) = 0 \<and> cu_SwitchCount (snd x) = 0)"

section \<open>Lemmas\<close>

lemma alist_sum_update:
  "distinct (map fst al) \<Longrightarrow>
   alist_sum f (AList.update k v al) = alist_sum f al + f v - (case map_of al k of None \<Rightarrow> 0 | Some w \<Rightarrow> f w)"
  by (induction al) (auto simp: alist_sum_def algebra_simps dest: map_of_SomeD)

lemma alist_sum_delete:
  "distinct (map fst al) \<Longrightarrow> map_of al k = Some w \<Longrightarrow> alist_sum f (AList.delete k al) = alist_sum f al - f w"
proof (induction al)
  case (Cons x al)
  then show ?case
  proof (cases "fst x = k")
    case True
    then have "AList.delete k al = al" using Cons.prems by (auto intro: delete_idem)
    then show ?thesis using True Cons.prems by (cases x) (auto simp: alist_sum_def)
  next
    case False
    then show ?thesis using Cons by (cases x) (auto simp: alist_sum_def algebra_simps)
  qed
qed simp

lemma all_update: "\<forall>x \<in> set al. P x \<Longrightarrow> P (j, w) \<Longrightarrow> \<forall>x \<in> set (AList.update j w al). P x"
  by (induction al) (auto split: if_split_asm)

lemma stat_of_balanced: "mem_inv d \<Longrightarrow> balanced (stat_of pid comm (md_stats d))"
  by (auto simp: stat_of_def balanced_def zero_MemStats_def mem_inv_def dest!: map_of_SomeD split: option.split)

lemma mem_inv_update:
  assumes "mem_inv d" "distinct (map fst al)" "alist_sum ma_Size al = alist_sum ma_Size (md_allocs d) + delta"
    and "balanced stat" "ms_CurrentAlloc stat = ms_CurrentAlloc (stat_of pid comm (md_stats d)) + delta"
  shows "mem_inv (d\<lparr>md_allocs := al, md_stats := AList.update pid stat (md_stats d)\<rparr>)"
proof -
  have "ms_CurrentAlloc (stat_of pid comm (md_stats d)) = (case map_of (md_stats d) pid of None \<Rightarrow> 0 | Some w \<Rightarrow> ms_CurrentAlloc w)"
    by (simp add: stat_of_def zero_MemStats_def split: option.split)
  then show ?thesis
    using assms all_update [of "md_stats d" "\<lambda>x. balanced (snd x)" pid stat] by (simp add: mem_inv_def alist_sum_update distinct_update)
qed

lemma mem_apply_inv:
  assumes "mem_inv d" "mem_fresh a d"
  shows "mem_inv (mem_apply a d)"
proof (cases a)
  case (Op_Alloc now pid comm sz ptr)
  with assms stat_of_balanced [OF assms(1), of pid comm] show ?thesis
    by (auto simp: RecordAlloc_def Let_def balanced_def alist_sum_update distinct_update mem_inv_def [of d]
        intro!: mem_inv_update [where delta = sz and comm = comm])
next
  case (Op_Free pid comm ptr)
  show ?thesis
  proof (cases "map_of (md_allocs d) ptr")
    case (Some alloc)
    with Op_Free assms stat_of_balanced [OF assms(1), of pid comm] show ?thesis
      by (auto simp: RecordFree_def Let_def balanced_def alist_sum_delete distinct_delete mem_inv_def [of d]
        intro!: mem_inv_update [where delta = "- ma_Size alloc" and comm = comm])
  qed (simp add: Op_Free RecordFree_def assms(1))
qed

lemma mem_run_inv: "mem_inv d \<Longrightarrow> fresh_ops ops d \<Longrightarrow> mem_inv (fold mem_apply ops d)"
  by (induction ops arbitrary: d) (auto simp: mem_apply_inv)

text \<open>What the collectors make of the samples.\<close>

lemma LittleEndian_defined:
  "a + 4 = b \<Longrightarrow> b \<le> length p \<Longrightarrow> \<exists>x. LittleEndian_Uint32 p a b = Some x"
  "a + 8 = b \<Longrightarrow> b \<le> length p \<Longrightarrow> \<exists>x. LittleEndian_Uint64 p a b = Some x"
  by (auto simp: LittleEndian_Uint32_def LittleEndian_Uint64_def slice_def rd_def)

lemma handle_all_inv:
  assumes "\<And>now buf s. (now, buf) \<in> set xs \<Longrightarrow> I s \<Longrightarrow> \<exists>s'. h buf (length buf) now s = Some s' \<and> I s'" "I s"
  shows "\<exists>s'. handle_all h xs s = Some s' \<and> I s'"
  using assms
proof (induction xs arbitrary: s)
  case (Cons x xs)
  obtain now buf where x: "x = (now, buf)" by (cases x)
  obtain s' where "h buf (length buf) now s = Some s'" "I s'"
    using Cons.prems(1) [of now buf s] Cons.prems(2) by (auto simp: x)
  then show ?case using Cons.IH [of s'] Cons.prems(1) by (simp add: x)
qed simp

lemma mem_handleEvent_inert: "\<exists>s'. mem_handleEvent buf (length buf) now s = Some s' \<and> s' = NewMemLeakDetector" if "s = NewMemLeakDetector"
proof (cases "length buf < 48")
  case False
  then obtain t p b where "LittleEndian_Uint32 buf 8 12 = Some t" "LittleEndian_Uint32 buf 12 16 = Some p"
      "LittleEndian_Uint64 buf 40 48 = Some b"
    using LittleEndian_defined(1) [of 8 12 buf] LittleEndian_defined(1) [of 12 16 buf] LittleEndian_defined(2) [of 40 48 buf] by auto
  then show ?thesis
    using False that by (simp add: mem_handleEvent_def RecordAlloc_def RecordFree_def NewMemLeakDetector_def)
qed (simp add: mem_handleEvent_def that)

lemma block_key_low: "take_bit 32 (push_bit 32 dev OR sector :: u64) = take_bit 32 sector"
  by (rule bit_word_eqI) (auto simp: bit_simps)

lemma block_handleEvent_reads:
  assumes "sample_of pad e buf"
  shows "block_handleEvent buf (length buf) now a =
      Some (if ev_type e = 16 then RecordIssue (ucast (ev_pid e)) (ev_bytes e) (ev_packets e) now a
            else if ev_type e = 17 then RecordComplete (ucast (ev_pid e)) (ev_bytes e) now a else a)"
  using sample_reads [OF assms] sample_length [OF assms] by (simp add: block_handleEvent_def)

lemma block_event_fields:
  assumes "block_event e"
  shows "ev_type e = 16 \<and> ev_packets e = 0 \<or> ev_type e = 17 \<and> ev_bytes e = 0"
  using assms
  by cases (auto simp: tracepoint_block_rq_issue_def tracepoint_block_rq_complete_def Let_def
      split: prod.split_asm option.split_asm)

lemma unsized_issue_sample:
  assumes "sample_of pad e buf"
  shows "unsized_issue buf \<longleftrightarrow> ev_type e = 16 \<and> take_bit 32 (ev_bytes e) = 0"
  using sample_reads [OF assms] by (simp add: unsized_issue_def)

lemma RecordIssue_inv:
  assumes "block_inv a" "take_bit 32 bytes \<noteq> 0"
  shows "block_inv (RecordIssue dev bytes sz now a)"
proof -
  have "\<forall>x \<in> set (AList.update (push_bit 32 dev OR bytes) w (ba_pending a)). take_bit 32 (fst x) \<noteq> 0" for w
    by (rule all_update) (use assms in \<open>simp_all add: block_inv_def block_key_low del: take_bit_or\<close>)
  then show ?thesis using assms(1) by (simp add: RecordIssue_def block_inv_def)
qed

lemma RecordComplete_inv:
  assumes "block_inv a"
  shows "block_inv (RecordComplete dev 0 now a)"
proof -
  have "map_of (ba_pending a) (push_bit 32 dev) = None"
    using assms block_key_low [of dev 0] by (auto simp: block_inv_def map_of_eq_None_iff)
  then show ?thesis using assms by (simp add: RecordComplete_def)
qed

lemma RecordIssue_unsized:
  assumes "block_unsized a"
  shows "block_unsized (RecordIssue dev bytes 0 now a)"
proof -
  define Q where "Q al \<longleftrightarrow> (\<forall>x \<in> set al. br_Size (snd x) = 0)" for al :: "(u64 \<times> BlockIORecord) list"
  have "Q (AList.update k w (ba_pending a))" if "br_Size w = 0" for k w
    unfolding Q_def by (rule all_update) (use assms that in \<open>simp_all add: block_unsized_def\<close>)
  with assms show ?thesis by (simp add: RecordIssue_def block_unsized_def Let_def flip: Q_def)
qed

lemma RecordComplete_unsized:
  assumes "block_unsized a"
  shows "block_unsized (RecordComplete dev sector now a)"
proof (cases "map_of (ba_pending a) (push_bit 32 dev OR sector)")
  case (Some rcd)
  define Q where "Q al \<longleftrightarrow> (\<forall>x \<in> set al. br_Size (snd x) = 0)" for al :: "(u64 \<times> BlockIORecord) list"
  define R where "R al \<longleftrightarrow> (\<forall>x \<in> set al. bs_ReadBytes (snd x) = 0)" for al :: "(u64 \<times> BlockIOStats) list"
  have "br_Size rcd = 0" "\<And>stat. map_of (ba_stats a) dev = Some stat \<Longrightarrow> bs_ReadBytes stat = 0"
    using assms map_of_SomeD [OF Some] by (auto simp: block_unsized_def dest!: map_of_SomeD)
  moreover have "R (AList.update dev stat (ba_stats a))" if "bs_ReadBytes stat = 0" for stat
    unfolding R_def by (rule all_update) (use assms that in \<open>simp_all add: block_unsized_def\<close>)
  moreover have "Q (AList.delete k (ba_pending a))" for k
    using assms by (auto simp: Q_def block_unsized_def AList.delete_eq)
  ultimately show ?thesis
    by (simp add: RecordComplete_def Some Let_def block_unsized_def flip: Q_def R_def split: option.split)
qed (use assms in \<open>simp add: RecordComplete_def\<close>)

lemma block_handleEvent_inert:
  assumes "block_event e" "sample_of pad e buf" "block_unsized a" "P \<longrightarrow> \<not> unsized_issue buf \<and> block_inv a"
  shows "\<exists>a'. block_handleEvent buf (length buf) now a = Some a' \<and> block_unsized a' \<and> (P \<longrightarrow> block_inv a')"
  using block_event_fields [OF assms(1)] assms(3,4)
  by (auto simp: block_handleEvent_reads [OF assms(2)] unsized_issue_sample [OF assms(2)]
      RecordIssue_unsized RecordComplete_unsized RecordIssue_inv RecordComplete_inv)

lemma sched_handleEvent_inert:
  assumes "sched_event e" "sample_of pad e buf" "sched_inv a"
  shows "\<exists>a'. sched_handleEvent buf (length buf) now a = Some a' \<and> sched_inv a'"
proof -
  have reads: "sched_handleEvent buf (length buf) now a =
      Some (if ev_type e = 12 then RecordSwitch (ev_pid e) (ev_ppid e) (sint (ev_packets e)) now a
            else if ev_type e = 13 then RecordWakeUp (ev_pid e) (ev_packets e) a else a)"
    using sample_reads [OF assms(2)] sample_length [OF assms(2)] by (simp add: sched_handleEvent_def)
  have "ev_type e = 10 \<or> ev_type e = 13"
    using assms(1) by cases (auto simp: tracepoint_sched_switch_def tracepoint_sched_wakeup_def)
  moreover have "sched_inv (RecordWakeUp pid n a)" for pid n
  proof -
    have "\<exists>w. sa_pidStats (RecordWakeUp pid n a) = AList.update pid w (sa_pidStats a) \<and> cu_RunTimeNs w = 0 \<and> cu_SwitchCount w = 0"
    proof (cases "map_of (sa_pidStats a) pid")
      case None
      then show ?thesis by (auto simp: RecordWakeUp_def zero_CPUUsage_def)
    next
      case (Some stat)
      then have "cu_RunTimeNs stat = 0 \<and> cu_SwitchCount stat = 0" using assms(3) by (auto simp: sched_inv_def dest!: map_of_SomeD)
      then show ?thesis
        by (intro exI [of _ "stat\<lparr>cu_WakeUpCount := cu_WakeUpCount stat + 1, cu_WakeUpLatency := cu_WakeUpLatency stat + n\<rparr>"])
          (simp add: RecordWakeUp_def Some)
    qed
    then obtain w where w: "sa_pidStats (RecordWakeUp pid n a) = AList.update pid w (sa_pidStats a)" "cu_RunTimeNs w = 0 \<and> cu_SwitchCount w = 0"
      by blast
    show ?thesis
      unfolding sched_inv_def w(1) by (rule all_update) (use assms(3) w(2) in \<open>simp_all add: sched_inv_def\<close>)
  qed
  ultimately show ?thesis using assms(3) by (auto simp: reads)
qed

lemma GetTopCPUUsage_stats: "set (GetTopCPUUsage n a) \<subseteq> snd ` set (sa_pidStats a)"
  by (auto simp: GetTopCPUUsage_def Let_def dest!: in_set_takeD split: if_split_asm)

section \<open>Properties\<close>

text \<open>
  The accounts of the leak detector: after any sequence of allocations and releases in which
  no pointer is handed out while it is in use, the current figures of all processes add up, modulo \<open>2^64\<close>,
  to the sizes of the recorded allocations, also when another process releases the memory; and for
  each process the current figure is what it allocated minus what it released.
\<close>

theorem mem_accounts_balanced:
  assumes "fresh_ops ops NewMemLeakDetector" "d = fold mem_apply ops NewMemLeakDetector"
  shows "alist_sum ms_CurrentAlloc (GetStats_mem d) = alist_sum ma_Size (md_allocs d) \<and>
    (\<forall>x \<in> set (GetStats_mem d). ms_CurrentAlloc (snd x) = ms_TotalAlloc (snd x) - ms_TotalFree (snd x))"
proof -
  have "mem_inv NewMemLeakDetector" by (simp add: mem_inv_def NewMemLeakDetector_def alist_sum_def)
  then have "mem_inv d" using assms by (simp add: mem_run_inv)
  then show ?thesis by (simp add: mem_inv_def GetStats_mem_def balanced_def)
qed

theorem mem_accounts_balanced_witness:
  "alist_sum ms_CurrentAlloc (GetStats_mem (fold mem_apply [Op_Alloc 0 1 [] 4096 77, Op_Alloc 0 1 [] 64 78, Op_Free 2 [] 77] NewMemLeakDetector)) = 64"
proof -
  let ?ops = "[Op_Alloc 0 1 [] 4096 77, Op_Alloc 0 1 [] 64 78, Op_Free 2 [] 77]"
  have "fresh_ops ?ops NewMemLeakDetector" by (simp add: NewMemLeakDetector_def RecordAlloc_def Let_def)
  from mem_accounts_balanced [OF this refl] have "alist_sum ms_CurrentAlloc (GetStats_mem (fold mem_apply ?ops NewMemLeakDetector)) =
      alist_sum ma_Size (md_allocs (fold mem_apply ?ops NewMemLeakDetector))" ..
  also have "\<dots> = 64" by (simp add: NewMemLeakDetector_def RecordAlloc_def RecordFree_def Let_def alist_sum_def)
  finally show ?thesis .
qed

text \<open>
  The request that is counted: one of no sectors.  Its issue and its completion by the same process meet
  under one key, and the flush reports the process number as the device, with the time between the
  handling of the two samples.
\<close>

theorem zero_sector_request_reported:
  assumes "tracepoint_block_rq_issue c dev sector 0 (Some slot) maps = (maps1, Some e0)"
    and "tracepoint_block_rq_complete c' dev' sector' (Some slot') maps' = (maps2, Some e1)" "bc_pid c' = bc_pid c"
    and "sample_of pad e0 b0" "sample_of pad' e1 b1"
  shows "\<exists>a. handle_all block_handleEvent [(t0, b0), (t1, b1)] NewBlockIOAnalyzer = Some a \<and>
    fst (block_flush probeID now a) = [perf_event now probeID ''block''
      (''dev='' @ show_word (ucast (bc_pid c) :: u64) @ '' iops=0 bw=0B/s'')
      (''avg='' @ show_word (of_int (t1 - t0) :: u64) @ ''ns,max='' @ show_word (of_int (t1 - t0) :: u64) @ ''ns'')]"
proof -
  have "ev_type e0 = 16" "ev_bytes e0 = 0" "ev_packets e0 = 0" "ev_pid e0 = bc_pid c"
    "ev_type e1 = 17" "ev_bytes e1 = 0" "ev_pid e1 = bc_pid c"
    using assms(1-3) by (auto simp: tracepoint_block_rq_issue_def tracepoint_block_rq_complete_def Let_def
        split: prod.split_asm option.split_asm)
  then show ?thesis
    by (simp add: block_handleEvent_reads [OF assms(4)] block_handleEvent_reads [OF assms(5)] NewBlockIOAnalyzer_def
        RecordIssue_def RecordComplete_def Let_def block_flush_def GetStats_block_def with_average_def word_gt_0 word_less_nat_alt unat_eq_0)
qed

text \<open>
  C35: What the three collectors report of the events of their BPF programs.  Memory: the collector
  passes no pointer on, so whatever samples arrive nothing is counted and a flush reports nothing.  Block
  requests: an issue is filed under its byte count and a completion is looked up under 0, so as long as
  every issued request has a byte count that is not a multiple of 4 GB no completion is ever counted and a
  flush reports nothing; whatever requests are issued, those of no sectors included, no device ever has a
  byte read.  Scheduler: the program sends a type that the collector does not know, so no process has run
  time or switches.
\<close>

theorem perf_collectors_blind:
  "(\<exists>d. handle_all mem_handleEvent xs NewMemLeakDetector = Some d \<and> fst (mem_flush probeID now d) = []) \<and>
   (samples_from block_event xs \<longrightarrow>
     (\<exists>a. handle_all block_handleEvent xs NewBlockIOAnalyzer = Some a \<and>
        ((\<forall>(t, buf) \<in> set xs. \<not> unsized_issue buf) \<longrightarrow> fst (block_flush probeID now a) = []) \<and>
        (\<forall>stat \<in> set (fst (GetStats_block a)). bs_ReadBytes stat = 0))) \<and>
   (samples_from sched_event xs \<longrightarrow>
     (\<exists>a. handle_all sched_handleEvent xs NewSchedAnalyzer = Some a \<and>
        (\<forall>stat \<in> set (GetTopCPUUsage 10 a). cu_RunTimeNs stat = 0 \<and> cu_SwitchCount stat = 0)))"
proof (intro conjI impI)
  obtain d where "handle_all mem_handleEvent xs NewMemLeakDetector = Some d" "d = NewMemLeakDetector"
    using handle_all_inv [of xs "\<lambda>s. s = NewMemLeakDetector" mem_handleEvent, OF mem_handleEvent_inert] by auto
  then show "\<exists>d. handle_all mem_handleEvent xs NewMemLeakDetector = Some d \<and> fst (mem_flush probeID now d) = []"
    by (simp add: mem_flush_def GetStats_mem_def NewMemLeakDetector_def)
next
  assume xs: "samples_from block_event xs"
  let ?P = "\<forall>(t, buf) \<in> set xs. \<not> unsized_issue buf"
  have "\<exists>a. handle_all block_handleEvent xs NewBlockIOAnalyzer = Some a \<and> block_unsized a \<and> (?P \<longrightarrow> block_inv a)"
  proof (rule handle_all_inv)
    fix now buf a assume "(now, buf) \<in> set xs" "block_unsized a \<and> (?P \<longrightarrow> block_inv a)"
    moreover obtain pad e where "block_event e" "sample_of pad e buf"
      using xs calculation(1) unfolding samples_from_def by blast
    ultimately show "\<exists>a'. block_handleEvent buf (length buf) now a = Some a' \<and> block_unsized a' \<and> (?P \<longrightarrow> block_inv a')"
      by (intro block_handleEvent_inert) auto
  qed (simp add: block_unsized_def block_inv_def NewBlockIOAnalyzer_def)
  then obtain a where a: "handle_all block_handleEvent xs NewBlockIOAnalyzer = Some a" "block_unsized a" "?P \<longrightarrow> block_inv a"
    by blast
  have "?P \<longrightarrow> fst (block_flush probeID now a) = []"
    using a(3) by (simp add: block_flush_def GetStats_block_def block_inv_def)
  moreover have "\<forall>stat \<in> set (fst (GetStats_block a)). bs_ReadBytes stat = 0"
    using a(2) by (auto simp: GetStats_block_def block_unsized_def with_average_def)
  ultimately show "\<exists>a. handle_all block_handleEvent xs NewBlockIOAnalyzer = Some a \<and>
      (?P \<longrightarrow> fst (block_flush probeID now a) = []) \<and> (\<forall>stat \<in> set (fst (GetStats_block a)). bs_ReadBytes stat = 0)"
    using a(1) by blast
next
  assume xs: "samples_from sched_event xs"
  have "\<exists>a. handle_all sched_handleEvent xs NewSchedAnalyzer = Some a \<and> sched_inv a"
  proof (rule handle_all_inv)
    fix now buf a assume "(now, buf) \<in> set xs" "sched_inv a"
    then show "\<exists>a'. sched_handleEvent buf (length buf) now a = Some a' \<and> sched_inv a'"
      using xs sched_handleEvent_inert unfolding samples_from_def by blast
  qed (simp add: sched_inv_def NewSchedAnalyzer_def)
  then show "\<exists>a. handle_all sched_handleEvent xs NewSchedAnalyzer = Some a \<and>
      (\<forall>stat \<in> set (GetTopCPUUsage 10 a). cu_RunTimeNs stat = 0 \<and> cu_SwitchCount stat = 0)"
    using GetTopCPUUsage_stats [of 10] unfolding sched_inv_def by fastforce
qed

text \<open>A request of eight sectors and its completion.\<close>

theorem perf_collectors_blind_witness:
  "\<exists>maps e0 e1 a. tracepoint_block_rq_issue (ex_bpf_ctx 7 400 []) 8 100 8 (Some zero_event) ([], []) = (maps, Some e0) \<and>
     snd (tracepoint_block_rq_complete (ex_bpf_ctx 7 900 []) 8 100 (Some zero_event) maps) = Some e1 \<and>
     handle_all block_handleEvent [(0, event_bytes (replicate 7 0) e0), (5, event_bytes (replicate 7 0) e1)] NewBlockIOAnalyzer = Some a \<and>
     fst (block_flush ''p'' 6 a) = []"
proof -
  let ?c = "ex_bpf_ctx 7 400 []" and ?c' = "ex_bpf_ctx 7 900 []" and ?pad = "replicate 7 0"
  obtain maps e0 where e0: "tracepoint_block_rq_issue ?c 8 100 8 (Some zero_event) ([], []) = (maps, Some e0)"
      "length (ev_comm e0) = 16" "length (ev_data e0) = 256" "bpf_map_lookup_elem (fst maps) (block_key 8 100) = Some 400"
      "ev_bytes e0 = 4096"
    by (simp add: tracepoint_block_rq_issue_def Let_def ex_bpf_ctx_def zbuf_def bpf_map_lookup_elem_def bpf_map_update_elem_def
        START_TS_MAX_def)
  obtain m1 m2 where m: "maps = (m1, m2)" by (cases maps)
  have comm: "length (bc_comm ?c') = 16" by (simp add: ex_bpf_ctx_def zbuf_def)
  obtain maps' e1 where e1: "tracepoint_block_rq_complete ?c' 8 100 (Some zero_event) maps = (maps', Some e1)"
      "length (ev_comm e1) = 16" "length (ev_data e1) = 256" "ev_type e1 = 17"
    using e0(4) comm by (simp add: tracepoint_block_rq_complete_def Let_def m zbuf_def)
  let ?xs = "[(0, event_bytes ?pad e0), (5, event_bytes ?pad e1)]"
  have sm: "sample_of ?pad e0 (event_bytes ?pad e0)" "sample_of ?pad e1 (event_bytes ?pad e1)"
    using e0(2,3) e1(2,3) by (simp_all add: sample_of_def wf_event_def)
  moreover have "block_event e0" using e0(1) by (rule issue)
  moreover have "block_event e1" using e1(1) by (rule complete)
  ultimately have sam: "samples_from block_event ?xs" unfolding samples_from_def by auto
  have "\<forall>(t, buf) \<in> set ?xs. \<not> unsized_issue buf"
    using e0(5) e1(4) by (simp add: unsized_issue_sample [OF sm(1)] unsized_issue_sample [OF sm(2)])
  with perf_collectors_blind [of ?xs "''p''" 6, THEN conjunct2, THEN conjunct1, THEN mp, OF sam]
  obtain a where "handle_all block_handleEvent ?xs NewBlockIOAnalyzer = Some a" "fst (block_flush ''p'' 6 a) = []" by blast
  with e0(1) e1(1) show ?thesis by fastforce
qed

end
