(* ===== verification/Go_Protocol.thy ===== *)
theory Go_Protocol
  imports Go_Dns Go_Collectors "HOL-Library.AList"
begin

text \<open>
  The protocol collector of the Go probe, \<open>src/internal/collector/protocol.go\<close>: it reads whole frames
  from a packet socket, counts the bytes and packets of every flow, picks out HTTP requests and DNS
  queries, and reports everything every ten seconds.

  The case tables of Unicode are the argument \<open>uc\<close>.  A Go map is an association list with distinct
  keys, whose order carries no meaning.
\<close>

section \<open>Data\<close>

record FlowRecord =
  fr_SrcIP :: string
  fr_DstIP :: string
  fr_SrcPort :: u16
  fr_DstPort :: u16
  fr_Protocol :: string
  fr_Bytes :: u64
  fr_Packets :: u64
  fr_SynFlag :: bool
  fr_FinFlag :: bool
  fr_RstFlag :: bool

text \<open>\<open>LatencyMs\<close> of an HTTP record, which nothing assigns, is left out: it is 0.\<close>

record ProtoHTTP =
  ph_SrcIP :: string
  ph_DstIP :: string
  ph_SrcPort :: u16
  ph_DstPort :: u16
  ph_Method :: string
  ph_Host :: string
  ph_URL :: string
  ph_StatusCode :: int
  ph_Bytes :: u64

record ProtoDNS =
  pd_SrcIP :: string
  pd_DstIP :: string
  pd_QueryName :: string
  pd_QueryType :: string

record ProtocolCollector =
  pc_flows :: "(string \<times> FlowRecord) list"
  pc_httpReqs :: "ProtoHTTP list"
  pc_dnsQs :: "ProtoDNS list"

definition NewProtocolCollector :: ProtocolCollector where
  "NewProtocolCollector = \<lparr>pc_flows = [], pc_httpReqs = [], pc_dnsQs = []\<rparr>"

section \<open>HTTP\<close>

text \<open>The lines of a \<open>bufio.Scanner\<close>, and \<open>strconv.Atoi\<close>, whose error is ignored.\<close>

definition drop_cr :: "string \<Rightarrow> string" where
  "drop_cr s = (if s \<noteq> [] \<and> last s = CHR 0x0D then butlast s else s)"

function scan_lines :: "string \<Rightarrow> string list" where
  "scan_lines s =
     (if s = [] then []
      else case index_of s [CHR 0x0A] of
        None \<Rightarrow> [drop_cr s]
      | Some i \<Rightarrow> drop_cr (take i s) # scan_lines (drop (Suc i) s))"
  by pat_completeness auto
termination by (relation "measure length") auto

declare scan_lines.simps [simp del]

definition Atoi :: "string \<Rightarrow> int" where
  "Atoi s =
     (let (neg, ds) = split_sign s; n = (if neg then - int (dec_val ds 0) else int (dec_val ds 0))
      in if ds = [] \<or> \<not> list_all is_digit ds then 0 else max (- (2 ^ 63)) (min (2 ^ 63 - 1) n))"

fun find_host :: "(string \<Rightarrow> string) \<Rightarrow> string list \<Rightarrow> string ub" where
  "find_host uc [] = Some []"
| "find_host uc (line # ls) =
     (if prefix ''host:'' (ToLower uc line) then map_option TrimSpace (slice line 5 (length line))
      else find_host uc ls)"

definition http_methods :: "string list" where
  "http_methods = [''GET '', ''POST '', ''PUT '', ''DELETE '', ''HEAD '', ''PATCH '', ''OPTIONS '']"

definition pc_parseHTTP ::
  "(string \<Rightarrow> string) \<Rightarrow> byte list \<Rightarrow> string \<Rightarrow> string \<Rightarrow> u16 \<Rightarrow> u16 \<Rightarrow> ProtoHTTP ptr ub" where
  "pc_parseHTTP uc payload srcIP dstIP srcPort dstPort =
     (let txt = go_string payload; parts = split_n 3 '' '' txt in
      if length txt < 8 then Some None
      else if list_ex (\<lambda>m. prefix m txt) http_methods then do {
        host \<leftarrow> find_host uc (scan_lines txt);
        Some (Some \<lparr>ph_SrcIP = srcIP, ph_DstIP = dstIP, ph_SrcPort = srcPort, ph_DstPort = dstPort,
          ph_Method = (if 2 \<le> length parts then parts ! 0 else []), ph_Host = host,
          ph_URL = (if 2 \<le> length parts then parts ! 1 else []), ph_StatusCode = 0, ph_Bytes = of_nat (length payload)\<rparr>)
      }
      else if prefix ''HTTP/'' txt then
        Some (Some \<lparr>ph_SrcIP = dstIP, ph_DstIP = srcIP, ph_SrcPort = dstPort, ph_DstPort = srcPort,
          ph_Method = [], ph_Host = [], ph_URL = [],
          ph_StatusCode = (if 2 \<le> length parts then Atoi (parts ! 1) else 0), ph_Bytes = of_nat (length payload)\<rparr>)
      else Some None)"

section \<open>DNS\<close>

function pc_name_loop :: "byte list \<Rightarrow> nat \<Rightarrow> string list \<Rightarrow> (nat \<times> string list) ub" where
  "pc_name_loop payload offset nameParts =
     (if \<not> offset < length payload then Some (offset, nameParts)
      else do {
        b \<leftarrow> rd payload offset;
        let l = unat b;
        if l = 0 then Some (offset, nameParts)
        else if b AND 0xC0 = 0xC0 then Some (offset + 2, nameParts)
        else if length payload < offset + 1 + l then Some (offset, nameParts)
        else do {
          s \<leftarrow> slice payload (offset + 1) (offset + 1 + l);
          pc_name_loop payload (offset + 1 + l) (nameParts @ [go_string s])
        }
      })"
  by pat_completeness auto
termination
  by (relation "measure (\<lambda>(payload, offset, _). length payload - offset)") auto

declare pc_name_loop.simps [simp del]

definition pc_queryType :: "u16 \<Rightarrow> string" where
  "pc_queryType qtype =
     (if qtype = 1 then ''A'' else if qtype = 28 then ''AAAA'' else if qtype = 5 then ''CNAME'' else if qtype = 15 then ''MX''
      else if qtype = 16 then ''TXT'' else if qtype = 2 then ''NS'' else ''TYPE'' @ show_word qtype)"

definition pc_parseDNS :: "byte list \<Rightarrow> string \<Rightarrow> string \<Rightarrow> ProtoDNS ptr ub" where
  "pc_parseDNS payload srcIP dstIP =
     (if length payload < 12 then Some None
      else do {
        questions \<leftarrow> BigEndian_Uint16 payload 4 6;
        if questions = 0 then Some None
        else do {
          (offset, nameParts) \<leftarrow> pc_name_loop payload 12 [];
          qt \<leftarrow> (if offset + 4 \<le> length payload
                 then map_option pc_queryType (BigEndian_Uint16 payload (offset + 2) (length payload)) else Some []);
          Some (Some \<lparr>pd_SrcIP = srcIP, pd_DstIP = dstIP, pd_QueryName = join ''.'' nameParts, pd_QueryType = qt\<rparr>)
        }
      })"

section \<open>Packets\<close>

definition ip_text :: "byte list \<Rightarrow> string" where
  "ip_text bs = join ''.'' (map show_word bs)"

text \<open>Ports, flags and data of a TCP segment, ports of a UDP datagram; zero if the header is cut off.\<close>

definition tcp_info :: "byte list \<Rightarrow> nat \<Rightarrow> (u16 \<times> u16 \<times> u8 \<times> byte list) ub" where
  "tcp_info payload ihl =
     (if ihl + 20 \<le> length payload then do {
        srcPort \<leftarrow> BigEndian_Uint16 payload ihl (ihl + 2);
        dstPort \<leftarrow> BigEndian_Uint16 payload (ihl + 2) (ihl + 4);
        tcpFlags \<leftarrow> rd payload (ihl + 13);
        b \<leftarrow> rd payload (ihl + 12);
        let tcpDataOffset = unat (drop_bit 4 b * 4);
        Some (srcPort, dstPort, tcpFlags,
          if ihl + tcpDataOffset < length payload then drop (ihl + tcpDataOffset) payload else [])
      } else Some (0, 0, 0, []))"

definition udp_info :: "byte list \<Rightarrow> nat \<Rightarrow> (u16 \<times> u16) ub" where
  "udp_info payload ihl =
     (if ihl + 8 \<le> length payload then do {
        srcPort \<leftarrow> BigEndian_Uint16 payload ihl (ihl + 2);
        dstPort \<leftarrow> BigEndian_Uint16 payload (ihl + 2) (ihl + 4);
        Some (srcPort, dstPort)
      } else Some (0, 0))"

definition http_dst :: "u16 \<Rightarrow> bool" where
  "http_dst p \<longleftrightarrow> p = 80 \<or> p = 8080 \<or> p = 8000 \<or> p = 3000 \<or> p = 443 \<or> p = 8443 \<or> (8000 \<le> p \<and> p \<le> 9999)"

definition keep_recent :: "'a list \<Rightarrow> 'a list" where
  "keep_recent xs = (if 1000 < length xs then drop (length xs - 500) xs else xs)"

definition note_http :: "ProtoHTTP ptr \<Rightarrow> ProtocolCollector \<Rightarrow> ProtocolCollector" where
  "note_http r p = (case r of None \<Rightarrow> p | Some h \<Rightarrow> p\<lparr>pc_httpReqs := keep_recent (pc_httpReqs p @ [h])\<rparr>)"

definition note_dns :: "ProtoDNS ptr \<Rightarrow> ProtocolCollector \<Rightarrow> ProtocolCollector" where
  "note_dns r p = (case r of None \<Rightarrow> p | Some d \<Rightarrow> p\<lparr>pc_dnsQs := keep_recent (pc_dnsQs p @ [d])\<rparr>)"

definition flow_text :: "string \<Rightarrow> u16 \<Rightarrow> string \<Rightarrow> u16 \<Rightarrow> string \<Rightarrow> string" where
  "flow_text srcIP srcPort dstIP dstPort protoName =
     srcIP @ '':'' @ show_word srcPort @ ''->'' @ dstIP @ '':'' @ show_word dstPort @ '':'' @ protoName"

text \<open>The record of a flow is updated with one packet; \<open>fresh\<close> is the record of a flow that has only it.\<close>

definition account_flow :: "string \<Rightarrow> FlowRecord \<Rightarrow> (string \<times> FlowRecord) list \<Rightarrow> (string \<times> FlowRecord) list" where
  "account_flow key fresh flows =
     (case map_of flows key of
        Some ag \<Rightarrow> AList.update key (ag\<lparr>fr_Bytes := fr_Bytes ag + fr_Bytes fresh, fr_Packets := fr_Packets ag + 1,
          fr_SynFlag := fr_SynFlag ag \<or> fr_SynFlag fresh, fr_FinFlag := fr_FinFlag ag \<or> fr_FinFlag fresh,
          fr_RstFlag := fr_RstFlag ag \<or> fr_RstFlag fresh\<rparr>) flows
      | None \<Rightarrow> AList.update key fresh flows)"

text \<open>The switch on the protocol: its name, the ports, the TCP flags, and what HTTP and DNS add.\<close>

definition transport :: "(string \<Rightarrow> string) \<Rightarrow> byte list \<Rightarrow> nat \<Rightarrow> u8 \<Rightarrow> string \<Rightarrow> string \<Rightarrow> ProtocolCollector \<Rightarrow>
    (string \<times> u16 \<times> u16 \<times> u8 \<times> ProtocolCollector) ub" where
  "transport uc payload ihl protocol srcIP dstIP p =
     (if protocol = 6 then do {
        (srcPort, dstPort, tcpFlags, tcpPayload) \<leftarrow> tcp_info payload ihl;
        httpRec \<leftarrow> (if http_dst dstPort \<and> 0 < length tcpPayload
                   then pc_parseHTTP uc tcpPayload srcIP dstIP srcPort dstPort else Some None);
        Some (''TCP'', srcPort, dstPort, tcpFlags, note_http httpRec p)
      }
      else if protocol = 17 then do {
        (srcPort, dstPort) \<leftarrow> udp_info payload ihl;
        dnsRec \<leftarrow> (if (srcPort = 53 \<or> dstPort = 53) \<and> ihl + 8 < length payload
                  then pc_parseDNS (drop (ihl + 8) payload) srcIP dstIP else Some None);
        Some (''UDP'', srcPort, dstPort, 0, note_dns dnsRec p)
      }
      else if protocol = 1 then Some (''ICMP'', 0, 0, 0, p)
      else Some (''IP'', 0, 0, 0, p))"

definition processIPv4 :: "(string \<Rightarrow> string) \<Rightarrow> byte list \<Rightarrow> ProtocolCollector \<Rightarrow> ProtocolCollector ub" where
  "processIPv4 uc payload p =
     (if length payload < 20 then Some p
      else do {
        versionIHL \<leftarrow> rd payload 0;
        let ihl = unat (versionIHL AND 0x0F) * 4;
        if length payload < ihl then Some p
        else do {
          protocol \<leftarrow> rd payload 9;
          src \<leftarrow> slice payload 12 16;
          dst \<leftarrow> slice payload 16 20;
          let srcIP = ip_text src;
          let dstIP = ip_text dst;
          if srcIP = ''127.0.0.1'' \<or> dstIP = ''127.0.0.1'' then Some p
          else do {
            (protoName, srcPort, dstPort, tcpFlags, p) \<leftarrow> transport uc payload ihl protocol srcIP dstIP p;
            let key = flow_text srcIP srcPort dstIP dstPort protoName;
            Some (p\<lparr>pc_flows := account_flow key \<lparr>fr_SrcIP = srcIP, fr_DstIP = dstIP, fr_SrcPort = srcPort, fr_DstPort = dstPort,
              fr_Protocol = protoName, fr_Bytes = of_nat (length payload), fr_Packets = 1,
              fr_SynFlag = bit tcpFlags 1, fr_FinFlag = bit tcpFlags 0, fr_RstFlag = bit tcpFlags 2\<rparr> (pc_flows p)\<rparr>)
          }
        }
      })"

text \<open>One frame of \<open>captureLoop\<close>.\<close>

definition capture :: "(string \<Rightarrow> string) \<Rightarrow> byte list \<Rightarrow> ProtocolCollector \<Rightarrow> ProtocolCollector ub" where
  "capture uc buf p =
     (if length buf < 14 then Some p
      else do {
        b0 \<leftarrow> rd buf 12;
        b1 \<leftarrow> rd buf 13;
        if b0 = 0x08 \<and> b1 = 0x00 then processIPv4 uc (drop 14 buf) p else Some p
      })"

fun captureLoop :: "(string \<Rightarrow> string) \<Rightarrow> byte list list \<Rightarrow> ProtocolCollector \<Rightarrow> ProtocolCollector ub" where
  "captureLoop uc [] p = Some p"
| "captureLoop uc (buf # bufs) p = capture uc buf p \<bind> captureLoop uc bufs"

definition flow_report :: "string \<Rightarrow> int \<Rightarrow> FlowRecord \<Rightarrow> out_event" where
  "flow_report probeID now ag = zero_out_event\<lparr>oe_Timestamp := now, oe_ProbeID := probeID, oe_Category := ''protocol'',
     oe_EventType := ''flow'', oe_SrcIP := fr_SrcIP ag, oe_DstIP := fr_DstIP ag, oe_SrcPort := fr_SrcPort ag,
     oe_DstPort := fr_DstPort ag, oe_Protocol := fr_Protocol ag, oe_Bytes := fr_Bytes ag, oe_Packets := fr_Packets ag\<rparr>"

definition http_report :: "string \<Rightarrow> int \<Rightarrow> ProtoHTTP \<Rightarrow> out_event" where
  "http_report probeID now hr = zero_out_event\<lparr>oe_Timestamp := now, oe_ProbeID := probeID, oe_Category := ''protocol'',
     oe_EventType := ''http'', oe_SrcIP := ph_SrcIP hr, oe_DstIP := ph_DstIP hr, oe_SrcPort := ph_SrcPort hr,
     oe_DstPort := ph_DstPort hr, oe_Protocol := ''HTTP'', oe_Bytes := ph_Bytes hr, oe_Service := ph_Host hr,
     oe_Details := ph_Method hr @ '' '' @ ph_URL hr\<rparr>"

definition dns_report :: "string \<Rightarrow> int \<Rightarrow> ProtoDNS \<Rightarrow> out_event" where
  "dns_report probeID now dr = zero_out_event\<lparr>oe_Timestamp := now, oe_ProbeID := probeID, oe_Category := ''protocol'',
     oe_EventType := ''dns'', oe_SrcIP := pd_SrcIP dr, oe_DstIP := pd_DstIP dr, oe_SrcPort := 53, oe_DstPort := 53,
     oe_Protocol := ''DNS'', oe_Details := pd_QueryName dr, oe_Tags := pd_QueryType dr\<rparr>"

definition pc_flush :: "string \<Rightarrow> int \<Rightarrow> ProtocolCollector \<Rightarrow> writer_call list \<times> ProtocolCollector" where
  "pc_flush probeID now p =
     (map (\<lambda>(k, ag). WriteEvent (flow_report probeID now ag)) (pc_flows p) @
      map (\<lambda>hr. WriteEvent (http_report probeID now hr)) (pc_httpReqs p) @
      map (\<lambda>dr. WriteEvent (dns_report probeID now dr)) (pc_dnsQs p),
      NewProtocolCollector)"

section \<open>Reference\<close>

text \<open>
  The flow that a packet belongs to: source and destination with their ports, and the protocol.  \<open>None\<close>
  for a packet that is not counted: too short, or from or to 127.0.0.1.
\<close>

type_synonym flow_tuple = "byte list \<times> u16 \<times> byte list \<times> u16 \<times> string"

definition proto_text :: "u8 \<Rightarrow> string" where
  "proto_text pr = (if pr = 6 then ''TCP'' else if pr = 17 then ''UDP'' else if pr = 1 then ''ICMP'' else ''IP'')"

definition packet_tuple :: "byte list \<Rightarrow> flow_tuple option" where
  "packet_tuple q =
     (let ihl = 4 * unat (q ! 0 AND 0x0F); pr = q ! 9; src = take 4 (drop 12 q); dst = take 4 (drop 16 q);
          ports = (pr = 6 \<and> ihl + 20 \<le> length q \<or> pr = 17 \<and> ihl + 8 \<le> length q)
      in if length q < 20 \<or> length q < ihl \<or> src = [127, 0, 0, 1] \<or> dst = [127, 0, 0, 1] then None
         else Some (src, if ports then be16 (q ! ihl) (q ! (ihl + 1)) else 0,
                    dst, if ports then be16 (q ! (ihl + 2)) (q ! (ihl + 3)) else 0, proto_text pr))"

definition frame_packet :: "byte list \<Rightarrow> byte list option" where
  "frame_packet f = (if 14 \<le> length f \<and> f ! 12 = 0x08 \<and> f ! 13 = 0x00 then Some (drop 14 f) else None)"

definition packets_of :: "flow_tuple \<Rightarrow> byte list list \<Rightarrow> byte list list" where
  "packets_of t fs = filter (\<lambda>q. packet_tuple q = Some t) (List.map_filter frame_packet fs)"

fun tuple_key :: "flow_tuple \<Rightarrow> string" where
  "tuple_key (src, sp, dst, dp, pr) = flow_text (ip_text src) sp (ip_text dst) dp pr"

definition flow_report_of :: "flow_tuple \<Rightarrow> writer_call \<Rightarrow> bool" where
  "flow_report_of = (\<lambda>(src, sp, dst, dp, pr) call. case call of
     WriteEvent e \<Rightarrow> oe_EventType e = ''flow'' \<and> oe_SrcIP e = ip_text src \<and> oe_SrcPort e = sp \<and> oe_DstIP e = ip_text dst \<and>
       oe_DstPort e = dp \<and> oe_Protocol e = pr
   | _ \<Rightarrow> False)"

text \<open>The table of flows after the packets \<open>qs\<close>.\<close>

fun record_of :: "flow_tuple \<Rightarrow> FlowRecord \<Rightarrow> bool" where
  "record_of (src, sp, dst, dp, pr) r \<longleftrightarrow> length src = 4 \<and> length dst = 4 \<and> fr_SrcIP r = ip_text src \<and> fr_SrcPort r = sp \<and>
     fr_DstIP r = ip_text dst \<and> fr_DstPort r = dp \<and> fr_Protocol r = pr"

definition same_flow :: "flow_tuple \<Rightarrow> byte list list \<Rightarrow> byte list list" where
  "same_flow t qs = filter (\<lambda>q. packet_tuple q = Some t) qs"

definition flows_inv :: "byte list list \<Rightarrow> (string \<times> FlowRecord) list \<Rightarrow> bool" where
  "flows_inv qs F \<longleftrightarrow> distinct (map fst F) \<and>
     (\<forall>(k, r) \<in> set F. \<exists>t. k = tuple_key t \<and> record_of t r \<and> same_flow t qs \<noteq> [] \<and>
        fr_Bytes r = of_nat (sum_list (map length (same_flow t qs))) \<and> fr_Packets r = of_nat (length (same_flow t qs))) \<and>
     (\<forall>q \<in> set qs. \<forall>t. packet_tuple q = Some t \<longrightarrow> tuple_key t \<in> fst ` set F)"

text \<open>Lower case keeps the number of runes, so a line whose lower case starts with \<open>host:\<close> has five bytes at least.\<close>

definition case_keeps_runes :: "(string \<Rightarrow> string) \<Rightarrow> bool" where
  "case_keeps_runes uc \<longleftrightarrow> (\<forall>s. prefix ''host:'' (uc s) \<longrightarrow> 5 \<le> length s)"

declare tuple_key.simps [simp del]

section \<open>Lemmas\<close>

text \<open>Nothing panics.\<close>

lemma find_host_defined: "case_keeps_runes uc \<Longrightarrow> \<exists>h. find_host uc ls = Some h"
proof (induction ls)
  case (Cons line ls)
  have "5 \<le> length line" if "prefix ''host:'' (ToLower uc line)"
  proof (cases "is_ascii line")
    case True
    then show ?thesis using that prefix_length_le [OF that] by (simp add: ToLower_def)
  next
    case False
    then show ?thesis using that Cons.prems by (simp add: ToLower_def case_keeps_runes_def)
  qed
  then show ?case using Cons by (auto simp: slice_def)
qed simp

lemma pc_parseHTTP_defined: "case_keeps_runes uc \<Longrightarrow> \<exists>r. pc_parseHTTP uc q s d sp dp = Some r"
  using find_host_defined [of uc "scan_lines (go_string q)"] by (auto simp: pc_parseHTTP_def Let_def)

lemma pc_name_loop_defined: "\<exists>o1 ns. pc_name_loop q off parts = Some (o1, ns)"
proof (induction q off parts rule: pc_name_loop.induct)
  case (1 q off parts)
  show ?case
  proof (cases "off < length q \<and> unat (q ! off) \<noteq> 0 \<and> q ! off AND 0xC0 \<noteq> 0xC0 \<and> off + 1 + unat (q ! off) \<le> length q")
    case True
    then show ?thesis using 1 by (subst pc_name_loop.simps) (simp add: rd_def slice_def Let_def)
  next
    case False
    then show ?thesis by (subst pc_name_loop.simps) (auto simp: rd_def Let_def)
  qed
qed

lemma BigEndian_defined: "a + 2 \<le> b \<Longrightarrow> b \<le> length p \<Longrightarrow> BigEndian_Uint16 p a b = Some (be16 (p ! a) (p ! (a + 1)))"
  by (simp add: BigEndian_Uint16_def slice_def rd_def)

lemma pc_parseDNS_defined: "\<exists>r. pc_parseDNS q s d = Some r"
  using pc_name_loop_defined [of q 12 "[]"] by (auto simp: pc_parseDNS_def BigEndian_defined)

lemma tcp_info_eq:
  "ihl + 20 \<le> length q \<Longrightarrow> \<exists>flags data. tcp_info q ihl =
     Some (be16 (q ! ihl) (q ! (ihl + 1)), be16 (q ! (ihl + 2)) (q ! (ihl + 3)), flags, data)"
  "\<not> ihl + 20 \<le> length q \<Longrightarrow> tcp_info q ihl = Some (0, 0, 0, [])"
  by (simp_all add: tcp_info_def BigEndian_defined rd_def Let_def numeral_eq_Suc)

lemma udp_info_eq:
  "udp_info q ihl = Some (if ihl + 8 \<le> length q then (be16 (q ! ihl) (q ! (ihl + 1)), be16 (q ! (ihl + 2)) (q ! (ihl + 3))) else (0, 0))"
  by (simp add: udp_info_def BigEndian_defined numeral_eq_Suc)

text \<open>Addresses and keys as text are unambiguous.\<close>

lemma append_sep_eq: "c \<notin> set xs \<Longrightarrow> c \<notin> set ys \<Longrightarrow> xs @ c # r = ys @ c # r' \<longleftrightarrow> xs = ys \<and> r = r'"
proof (induction xs arbitrary: ys)
  case (Cons x xs)
  then show ?case by (cases ys) auto
qed (auto simp: Cons_eq_append_conv)

lemma show_word_chars: "\<not> is_digit c \<Longrightarrow> c \<notin> set (show_word w)"
  by (simp add: show_word_def digit_not_in_show_nat)

lemma show_word_inject: "show_word v = show_word w \<longleftrightarrow> v = w" for v w :: "'a::len word"
  by (simp add: show_word_def word_unat_eq_iff)

lemma ip_text_four: "ip_text [a, b, c, d] = show_word a @ CHR ''.'' # show_word b @ CHR ''.'' # show_word c @ CHR ''.'' # show_word d"
  by (simp add: ip_text_def)

lemma ip_text_inject:
  assumes "length x = 4" "length y = 4"
  shows "ip_text x = ip_text y \<longleftrightarrow> x = y"
proof -
  obtain a b c d where x: "x = [a, b, c, d]" using assms(1) by (auto simp: length_Suc_conv numeral_eq_Suc)
  obtain a' b' c' d' where y: "y = [a', b', c', d']" using assms(2) by (auto simp: length_Suc_conv numeral_eq_Suc)
  have dot: "CHR ''.'' \<notin> set (show_word w)" for w :: u8 by (rule show_word_chars) (simp add: is_digit_def)
  show ?thesis unfolding x y ip_text_four by (auto simp: append_sep_eq dot show_word_inject)
qed

lemma ip_text_chars: "\<not> is_digit c \<Longrightarrow> c \<noteq> CHR ''.'' \<Longrightarrow> length x = 4 \<Longrightarrow> c \<notin> set (ip_text x)"
  by (auto simp: length_Suc_conv numeral_eq_Suc ip_text_four show_word_chars)

lemma tuple_key_inject:
  assumes "length s = 4" "length d = 4" "length s' = 4" "length d' = 4"
  shows "tuple_key (s, sp, d, dp, pr) = tuple_key (s', sp', d', dp', pr') \<longleftrightarrow> (s, sp, d, dp, pr) = (s', sp', d', dp', pr')"
proof -
  have c: "CHR '':'' \<notin> set (ip_text x)" if "length x = 4" for x using that by (intro ip_text_chars) (simp_all add: is_digit_def)
  have w: "CHR '':'' \<notin> set (show_word v)" "CHR ''-'' \<notin> set (show_word v)" for v :: u16
    by (simp_all add: show_word_chars is_digit_def)
  show ?thesis
    using assms by (auto simp: tuple_key.simps flow_text_def append_sep_eq c w show_word_inject ip_text_inject)
qed

lemma ip_text_loopback: "length x = 4 \<Longrightarrow> ip_text x = ''127.0.0.1'' \<longleftrightarrow> x = [127, 0, 0, 1]"
proof -
  have "ip_text [127, 0, 0, 1] = ''127.0.0.1''" by code_simp
  then show "length x = 4 \<Longrightarrow> ip_text x = ''127.0.0.1'' \<longleftrightarrow> x = [127, 0, 0, 1]"
    using ip_text_inject [of x "[127, 0, 0, 1]"] by simp
qed

text \<open>What one packet does to the table of flows.\<close>

lemma note_flows [simp]: "pc_flows (note_http r p) = pc_flows p" "pc_flows (note_dns r' p) = pc_flows p"
  by (simp_all add: note_http_def note_dns_def split: option.split)

lemma transport_defined:
  fixes q :: "byte list" and ihl :: nat
  assumes "case_keeps_runes uc"
  defines "ports \<equiv> q ! 9 = 6 \<and> ihl + 20 \<le> length q \<or> q ! 9 = 17 \<and> ihl + 8 \<le> length q"
  shows "\<exists>flags p1. pc_flows p1 = pc_flows p \<and> transport uc q ihl (q ! 9) s d p =
    Some (proto_text (q ! 9), if ports then be16 (q ! ihl) (q ! (ihl + 1)) else 0,
      if ports then be16 (q ! (ihl + 2)) (q ! (ihl + 3)) else 0, flags, p1)"
proof (cases "q ! 9 = 6")
  case True
  obtain flags data where info: "tcp_info q ihl = Some (if ports then be16 (q ! ihl) (q ! (ihl + 1)) else 0,
      if ports then be16 (q ! (ihl + 2)) (q ! (ihl + 3)) else 0, flags, data)"
    using tcp_info_eq [of ihl q] True by (cases "ihl + 20 \<le> length q") (auto simp: ports_def)
  obtain r where "(if http_dst (if ports then be16 (q ! (ihl + 2)) (q ! (ihl + 3)) else 0) \<and> 0 < length data
      then pc_parseHTTP uc data s d (if ports then be16 (q ! ihl) (q ! (ihl + 1)) else 0)
        (if ports then be16 (q ! (ihl + 2)) (q ! (ihl + 3)) else 0) else Some None) = Some r"
    using pc_parseHTTP_defined [OF assms(1)] by metis
  then show ?thesis using True by (auto simp: transport_def info proto_text_def simp del: One_nat_def add_Suc_right)
next
  case False
  show ?thesis
  proof (cases "q ! 9 = 17")
    case True
    obtain sp dp where info: "udp_info q ihl = Some (sp, dp)" "sp = (if ports then be16 (q ! ihl) (q ! (ihl + 1)) else 0)"
        "dp = (if ports then be16 (q ! (ihl + 2)) (q ! (ihl + 3)) else 0)"
      using True by (simp add: udp_info_eq ports_def)
    obtain r where "(if (sp = 53 \<or> dp = 53) \<and> ihl + 8 < length q then pc_parseDNS (drop (ihl + 8) q) s d else Some None) = Some r"
      using pc_parseDNS_defined by metis
    then have "transport uc q ihl (q ! 9) s d p = Some (''UDP'', sp, dp, 0, note_dns r p)" using True by (simp add: transport_def info(1))
    then show ?thesis using True unfolding info(2,3) by (auto simp: proto_text_def simp del: One_nat_def add_Suc_right)
  qed (use False in \<open>auto simp: transport_def ports_def proto_text_def\<close>)
qed

lemma processIPv4_transport:
  assumes "4 * unat (q ! 0 AND 0x0F) = ihl" "take 4 (drop 12 q) = s" "take 4 (drop 16 q) = d"
  shows "processIPv4 uc q p =
      (if length q < 20 \<or> length q < ihl \<or> s = [127, 0, 0, 1] \<or> d = [127, 0, 0, 1] then Some p
       else transport uc q ihl (q ! 9) (ip_text s) (ip_text d) p \<bind>
            (\<lambda>(pr, sp, dp, flags, p). Some (p\<lparr>pc_flows := account_flow (flow_text (ip_text s) sp (ip_text d) dp pr)
               \<lparr>fr_SrcIP = ip_text s, fr_DstIP = ip_text d, fr_SrcPort = sp, fr_DstPort = dp, fr_Protocol = pr,
                fr_Bytes = of_nat (length q), fr_Packets = 1, fr_SynFlag = bit flags 1, fr_FinFlag = bit flags 0,
                fr_RstFlag = bit flags 2\<rparr> (pc_flows p)\<rparr>)))"
proof (cases "length q < 20")
  case False
  then have "length s = 4" "length d = 4" "rd q 0 = Some (q ! 0)" "rd q 9 = Some (q ! 9)" "slice q 12 16 = Some s" "slice q 16 20 = Some d"
    by (auto simp: slice_def rd_def simp flip: assms(2,3))
  then show ?thesis
    using False assms(1) by (simp add: processIPv4_def ip_text_loopback Let_def mult.commute cong: if_cong)
qed (simp add: processIPv4_def)

lemma processIPv4_flow:
  assumes "case_keeps_runes uc"
  shows "\<exists>p'. processIPv4 uc q p = Some p' \<and>
    (case packet_tuple q of
       None \<Rightarrow> pc_flows p' = pc_flows p
     | Some (s, sp, d, dp, pr) \<Rightarrow> length s = 4 \<and> length d = 4 \<and>
         (\<exists>fresh. pc_flows p' = account_flow (tuple_key (s, sp, d, dp, pr)) fresh (pc_flows p) \<and>
            fr_SrcIP fresh = ip_text s \<and> fr_SrcPort fresh = sp \<and> fr_DstIP fresh = ip_text d \<and> fr_DstPort fresh = dp \<and>
            fr_Protocol fresh = pr \<and> fr_Bytes fresh = of_nat (length q) \<and> fr_Packets fresh = 1))"
proof -
  obtain ihl s d where q: "4 * unat (q ! 0 AND 0x0F) = ihl" "take 4 (drop 12 q) = s" "take 4 (drop 16 q) = d" by blast
  note proc = processIPv4_transport [OF q, of uc p]
  show ?thesis
  proof (cases "length q < 20 \<or> length q < ihl \<or> s = [127, 0, 0, 1] \<or> d = [127, 0, 0, 1]")
    case True
    then have "packet_tuple q = None" unfolding packet_tuple_def Let_def q by simp
    with True show ?thesis by (simp add: proc)
  next
    case False
    obtain sp dp where ports: "sp = (if q ! 9 = 6 \<and> ihl + 20 \<le> length q \<or> q ! 9 = 17 \<and> ihl + 8 \<le> length q
          then be16 (q ! ihl) (q ! (ihl + 1)) else 0)"
        "dp = (if q ! 9 = 6 \<and> ihl + 20 \<le> length q \<or> q ! 9 = 17 \<and> ihl + 8 \<le> length q
          then be16 (q ! (ihl + 2)) (q ! (ihl + 3)) else 0)" by blast
    have tuple: "packet_tuple q = Some (s, sp, d, dp, proto_text (q ! 9))"
      using False unfolding packet_tuple_def Let_def q ports by (simp only: if_False)
    obtain flags p1 where t: "pc_flows p1 = pc_flows p"
        "transport uc q ihl (q ! 9) (ip_text s) (ip_text d) p = Some (proto_text (q ! 9), sp, dp, flags, p1)"
      using transport_defined [OF assms, of p q ihl "ip_text s" "ip_text d"] unfolding ports by blast
    let ?fresh = "\<lparr>fr_SrcIP = ip_text s, fr_DstIP = ip_text d, fr_SrcPort = sp, fr_DstPort = dp, fr_Protocol = proto_text (q ! 9),
        fr_Bytes = of_nat (length q), fr_Packets = 1, fr_SynFlag = bit flags 1, fr_FinFlag = bit flags 0, fr_RstFlag = bit flags 2\<rparr>"
    have "processIPv4 uc q p =
        Some (p1\<lparr>pc_flows := account_flow (tuple_key (s, sp, d, dp, proto_text (q ! 9))) ?fresh (pc_flows p)\<rparr>)"
      using False t by (simp add: proc tuple_key.simps)
    moreover have "length s = 4" "length d = 4" using False by (auto simp flip: q(2,3))
    ultimately show ?thesis by (simp add: tuple) (intro exI [of _ ?fresh], simp)
  qed
qed

text \<open>The table of flows over a sequence of packets.\<close>

lemma record_key_inject: "record_of t r \<Longrightarrow> record_of t' r' \<Longrightarrow> tuple_key t = tuple_key t' \<longleftrightarrow> t = t'"
proof -
  obtain s sp d dp pr where t: "t = (s, sp, d, dp, pr)" by (cases t)
  obtain s' sp' d' dp' pr' where t': "t' = (s', sp', d', dp', pr')" by (cases t')
  show "record_of t r \<Longrightarrow> record_of t' r' \<Longrightarrow> tuple_key t = tuple_key t' \<longleftrightarrow> t = t'"
    unfolding t t' using tuple_key_inject [of s d s' d'] by simp
qed

lemma record_unique:
  assumes "record_of t r" "record_of t' r"
  shows "t' = t"
proof -
  obtain s sp d dp pr where t: "t = (s, sp, d, dp, pr)" by (cases t)
  obtain s' sp' d' dp' pr' where t': "t' = (s', sp', d', dp', pr')" by (cases t')
  have "length s = 4" "length s' = 4" "length d = 4" "length d' = 4" "ip_text s = ip_text s'" "ip_text d = ip_text d'"
    "sp = sp'" "dp = dp'" "pr = pr'"
    using assms unfolding t t' by simp_all
  then show ?thesis unfolding t t' using ip_text_inject [of s s'] ip_text_inject [of d d'] by simp
qed

lemma same_flow_snoc: "same_flow t (qs @ [q]) = same_flow t qs @ (if packet_tuple q = Some t then [q] else [])"
  by (simp add: same_flow_def)

lemma in_update:
  "distinct (map fst F) \<Longrightarrow> (k, r) \<in> set (AList.update j w F) \<Longrightarrow> k = j \<and> r = w \<or> k \<noteq> j \<and> (k, r) \<in> set F"
proof (induction F)
  case (Cons x F)
  then show ?case by (cases x; cases "fst x = j") (auto simp: rev_image_eqI)
qed simp

lemma flows_inv_account:
  assumes inv: "flows_inv qs F" and q: "packet_tuple q = Some t"
    and fresh: "record_of t fresh" "fr_Bytes fresh = of_nat (length q)" "fr_Packets fresh = 1"
  shows "flows_inv (qs @ [q]) (account_flow (tuple_key t) fresh F)"
proof -
  define good where "good qs' k r \<longleftrightarrow> (\<exists>t. k = tuple_key t \<and> record_of t r \<and> same_flow t qs' \<noteq> [] \<and>
        fr_Bytes r = of_nat (sum_list (map length (same_flow t qs'))) \<and> fr_Packets r = of_nat (length (same_flow t qs')))" for qs' k r
  have inv_iff: "flows_inv qs' F' \<longleftrightarrow> distinct (map fst F') \<and> (\<forall>(k, r) \<in> set F'. good qs' k r) \<and>
      (\<forall>q \<in> set qs'. \<forall>t. packet_tuple q = Some t \<longrightarrow> tuple_key t \<in> fst ` set F')" for qs' F'
    unfolding flows_inv_def good_def ..
  have dist: "distinct (map fst F)" and rec: "\<And>k r. (k, r) \<in> set F \<Longrightarrow> good qs k r"
    and keys: "\<And>q t. q \<in> set qs \<Longrightarrow> packet_tuple q = Some t \<Longrightarrow> tuple_key t \<in> fst ` set F"
    using inv unfolding inv_iff by auto
  obtain w where acc: "account_flow (tuple_key t) fresh F = AList.update (tuple_key t) w F" and w: "good (qs @ [q]) (tuple_key t) w"
  proof (cases "map_of F (tuple_key t)")
    case None
    then have "same_flow t qs = []" using keys [of _ t] by (auto simp: same_flow_def filter_empty_conv map_of_eq_None_iff)
    then have "good (qs @ [q]) (tuple_key t) fresh"
      unfolding good_def using q fresh by (intro exI [of _ t]) (simp add: same_flow_snoc)
    with None show thesis by (intro that [of fresh]) (simp_all add: account_flow_def)
  next
    case (Some ag)
    then obtain t' where t': "tuple_key t = tuple_key t'" "record_of t' ag" "fr_Bytes ag = of_nat (sum_list (map length (same_flow t' qs)))"
        "fr_Packets ag = of_nat (length (same_flow t' qs))"
      using rec [OF map_of_SomeD] unfolding good_def by blast
    then have "t' = t" using record_key_inject [OF fresh(1) t'(2)] by simp
    obtain s sp d dp pr where t: "t = (s, sp, d, dp, pr)" by (cases t)
    let ?ag = "ag\<lparr>fr_Bytes := fr_Bytes ag + fr_Bytes fresh, fr_Packets := fr_Packets ag + 1,
          fr_SynFlag := fr_SynFlag ag \<or> fr_SynFlag fresh, fr_FinFlag := fr_FinFlag ag \<or> fr_FinFlag fresh,
          fr_RstFlag := fr_RstFlag ag \<or> fr_RstFlag fresh\<rparr>"
    have "record_of t ?ag" using t'(2) \<open>t' = t\<close> by (simp add: t)
    then have "good (qs @ [q]) (tuple_key t) ?ag"
      unfolding good_def using t'(3,4) \<open>t' = t\<close> q fresh(2) by (intro exI [of _ t]) (simp add: same_flow_snoc add.commute)
    with Some show thesis by (intro that [of ?ag]) (simp_all add: account_flow_def)
  qed
  have "good (qs @ [q]) k r" if "(k, r) \<in> set (AList.update (tuple_key t) w F)" for k r
    using in_update [OF dist that]
  proof (elim disjE conjE)
    assume 2: "k \<noteq> tuple_key t" "(k, r) \<in> set F"
    obtain t' where t': "k = tuple_key t'" "record_of t' r" "same_flow t' qs \<noteq> []"
        "fr_Bytes r = of_nat (sum_list (map length (same_flow t' qs)))" "fr_Packets r = of_nat (length (same_flow t' qs))"
      using rec [OF 2(2)] unfolding good_def by blast
    have "packet_tuple q \<noteq> Some t'" using q 2(1) t'(1) by auto
    then show ?thesis unfolding good_def using t' by (intro exI [of _ t']) (simp add: same_flow_snoc)
  qed (use w in simp)
  moreover have "tuple_key t' \<in> fst ` set (AList.update (tuple_key t) w F)" if "q' \<in> set (qs @ [q])" "packet_tuple q' = Some t'" for q' t'
    using that keys [of q' t'] q by (auto simp: dom_update)
  ultimately show ?thesis unfolding inv_iff acc using distinct_update [OF dist] by blast
qed

lemma flows_inv_skip: "flows_inv qs F \<Longrightarrow> packet_tuple q = None \<Longrightarrow> flows_inv (qs @ [q]) F"
  by (simp add: flows_inv_def same_flow_snoc)

lemma capture_flows:
  assumes "case_keeps_runes uc" "flows_inv qs (pc_flows p)"
  shows "\<exists>p'. capture uc f p = Some p' \<and> flows_inv (qs @ List.map_filter frame_packet [f]) (pc_flows p')"
proof (cases "frame_packet f")
  case None
  then have "capture uc f p = Some p" by (auto simp: capture_def frame_packet_def rd_def split: if_split_asm)
  then show ?thesis using assms(2) None by (simp add: map_filter_simps)
next
  case (Some q)
  then have cap: "capture uc f p = processIPv4 uc q p" by (auto simp: capture_def frame_packet_def rd_def split: if_split_asm)
  obtain p' where p': "processIPv4 uc q p = Some p'"
      "case packet_tuple q of None \<Rightarrow> pc_flows p' = pc_flows p
       | Some (s, sp, d, dp, pr) \<Rightarrow> length s = 4 \<and> length d = 4 \<and>
         (\<exists>fresh. pc_flows p' = account_flow (tuple_key (s, sp, d, dp, pr)) fresh (pc_flows p) \<and>
            fr_SrcIP fresh = ip_text s \<and> fr_SrcPort fresh = sp \<and> fr_DstIP fresh = ip_text d \<and> fr_DstPort fresh = dp \<and>
            fr_Protocol fresh = pr \<and> fr_Bytes fresh = of_nat (length q) \<and> fr_Packets fresh = 1)"
    using processIPv4_flow [OF assms(1), of q p] by blast
  have "flows_inv (qs @ [q]) (pc_flows p')"
  proof (cases "packet_tuple q")
    case None
    then show ?thesis using p'(2) assms(2) by (simp add: flows_inv_skip)
  next
    case (Some t)
    obtain s sp d dp pr where t: "t = (s, sp, d, dp, pr)" by (cases t)
    then obtain fresh where "pc_flows p' = account_flow (tuple_key t) fresh (pc_flows p)" "record_of t fresh"
        "fr_Bytes fresh = of_nat (length q)" "fr_Packets fresh = 1"
      using p'(2) Some by auto
    then show ?thesis using flows_inv_account [OF assms(2) Some] by simp
  qed
  then show ?thesis using Some p'(1) by (simp add: cap map_filter_simps)
qed

lemma captureLoop_flows:
  assumes "case_keeps_runes uc" "flows_inv qs (pc_flows p)"
  shows "\<exists>p'. captureLoop uc fs p = Some p' \<and> flows_inv (qs @ List.map_filter frame_packet fs) (pc_flows p')"
  using assms(2)
proof (induction fs arbitrary: qs p)
  case (Cons f fs)
  obtain p1 where p1: "capture uc f p = Some p1" "flows_inv (qs @ List.map_filter frame_packet [f]) (pc_flows p1)"
    using capture_flows [OF assms(1) Cons.prems] by blast
  show ?case using Cons.IH [OF p1(2)] p1(1) by (simp add: map_filter_simps split: option.split_asm)
qed (simp add: map_filter_simps)

lemma filter_key:
  assumes "distinct (map fst F)" "(k, r) \<in> set F" "\<And>k' r'. (k', r') \<in> set F \<Longrightarrow> P r' \<longleftrightarrow> k' = k"
  shows "filter (\<lambda>x. P (snd x)) F = [(k, r)]"
  using assms
proof (induction F)
  case (Cons x F)
  obtain k' r' where x: "x = (k', r')" by (cases x)
  show ?case
  proof (cases "k' = k")
    case True
    then have "k \<notin> fst ` set F" using Cons.prems(1) by (simp add: x)
    then have "filter (\<lambda>x. P (snd x)) F = []" using Cons.prems(3) by (force simp: filter_empty_conv)
    moreover have "r' = r" using Cons.prems(2) True \<open>k \<notin> fst ` set F\<close> by (force simp: x)
    ultimately show ?thesis using Cons.prems(3) [of k' r'] True by (simp add: x)
  next
    case False
    then show ?thesis using Cons.IH Cons.prems by (auto simp: x)
  qed
qed simp

lemma flows_invD:
  assumes "flows_inv qs F"
  shows "distinct (map fst F)"
    and "(k, r) \<in> set F \<Longrightarrow> \<exists>t. k = tuple_key t \<and> record_of t r \<and> same_flow t qs \<noteq> [] \<and>
        fr_Bytes r = of_nat (sum_list (map length (same_flow t qs))) \<and> fr_Packets r = of_nat (length (same_flow t qs))"
    and "q \<in> set qs \<Longrightarrow> packet_tuple q = Some t \<Longrightarrow> tuple_key t \<in> fst ` set F"
proof -
  note inv = assms [unfolded flows_inv_def]
  from inv show "distinct (map fst F)" by (elim conjE)
  from inv have "\<forall>(k, r) \<in> set F. \<exists>t. k = tuple_key t \<and> record_of t r \<and> same_flow t qs \<noteq> [] \<and>
      fr_Bytes r = of_nat (sum_list (map length (same_flow t qs))) \<and> fr_Packets r = of_nat (length (same_flow t qs))" by (elim conjE)
  then show "(k, r) \<in> set F \<Longrightarrow> \<exists>t. k = tuple_key t \<and> record_of t r \<and> same_flow t qs \<noteq> [] \<and>
      fr_Bytes r = of_nat (sum_list (map length (same_flow t qs))) \<and> fr_Packets r = of_nat (length (same_flow t qs))"
    by (drule_tac bspec) (assumption, simp only: prod.case)
  from inv have "\<forall>q \<in> set qs. \<forall>t. packet_tuple q = Some t \<longrightarrow> tuple_key t \<in> fst ` set F" by (elim conjE)
  then show "q \<in> set qs \<Longrightarrow> packet_tuple q = Some t \<Longrightarrow> tuple_key t \<in> fst ` set F" by blast
qed

lemma flush_flow_events:
  assumes inv: "flows_inv qs (pc_flows p)" and t: "t = (src, sp, dst, dp, pr)" "length src = 4" "length dst = 4"
  shows "same_flow t qs = [] \<longrightarrow> filter (flow_report_of t) (fst (pc_flush probeID now p)) = []"
    and "same_flow t qs \<noteq> [] \<longrightarrow> (\<exists>e. filter (flow_report_of t) (fst (pc_flush probeID now p)) = [WriteEvent e] \<and>
      oe_Bytes e = of_nat (sum_list (map length (same_flow t qs))) \<and> oe_Packets e = of_nat (length (same_flow t qs)))"
proof -
  note invD = flows_invD [OF inv]
  have ev: "flow_report_of t (WriteEvent (flow_report probeID now r)) \<longleftrightarrow> record_of t r" for r
    using t(2,3) by (auto simp: t(1) flow_report_of_def flow_report_def)
  have other: "\<not> flow_report_of t (WriteEvent (http_report probeID now h))" "\<not> flow_report_of t (WriteEvent (dns_report probeID now d))" for h d
    by (simp_all add: t(1) flow_report_of_def http_report_def dns_report_def)
  have events: "filter (flow_report_of t) (fst (pc_flush probeID now p)) =
      map (\<lambda>(k, r). WriteEvent (flow_report probeID now r)) (filter (\<lambda>x. record_of t (snd x)) (pc_flows p))"
    by (simp add: pc_flush_def filter_map comp_def case_prod_beta' ev other)
  have same: "t' = t" if "tuple_key t' = tuple_key t" "record_of t' r'" for t' r'
  proof -
    obtain s1 sp1 d1 dp1 pr1 where t': "t' = (s1, sp1, d1, dp1, pr1)" by (cases t')
    show ?thesis using that t(2,3) tuple_key_inject [of s1 d1 src dst] by (simp add: t' t(1))
  qed
  show "same_flow t qs = [] \<longrightarrow> filter (flow_report_of t) (fst (pc_flush probeID now p)) = []"
  proof (intro impI, unfold events, rule ccontr)
    assume none: "same_flow t qs = []" and "map (\<lambda>(k, r). WriteEvent (flow_report probeID now r)) (filter (\<lambda>x. record_of t (snd x)) (pc_flows p)) \<noteq> []"
    then obtain k r where "(k, r) \<in> set (pc_flows p)" "record_of t r" by (auto simp: filter_empty_conv)
    then show False using invD(2) [of k r] record_unique [of t r] none by blast
  qed
  show "same_flow t qs \<noteq> [] \<longrightarrow> (\<exists>e. filter (flow_report_of t) (fst (pc_flush probeID now p)) = [WriteEvent e] \<and>
      oe_Bytes e = of_nat (sum_list (map length (same_flow t qs))) \<and> oe_Packets e = of_nat (length (same_flow t qs)))"
  proof
    assume "same_flow t qs \<noteq> []"
    then obtain q where "q \<in> set qs" "packet_tuple q = Some t" by (auto simp: same_flow_def filter_empty_conv)
    then obtain r where r: "(tuple_key t, r) \<in> set (pc_flows p)" using invD(3) [of q t] by auto
    have "record_of t r' \<longleftrightarrow> k' = tuple_key t" if in_table: "(k', r') \<in> set (pc_flows p)" for k' r'
    proof -
      obtain t' where t': "k' = tuple_key t'" "record_of t' r'" using invD(2) [OF in_table] by blast
      show ?thesis using t' same [of t' r'] record_unique [of t r' t'] by auto
    qed
    with invD(1) r have only: "filter (\<lambda>x. record_of t (snd x)) (pc_flows p) = [(tuple_key t, r)]" by (rule filter_key)
    obtain t' where t': "tuple_key t = tuple_key t'" "record_of t' r" "fr_Bytes r = of_nat (sum_list (map length (same_flow t' qs)))"
        "fr_Packets r = of_nat (length (same_flow t' qs))" using invD(2) [OF r] by blast
    have "t' = t" using t'(1) [symmetric] t'(2) by (rule same)
    with t'(3,4) show "\<exists>e. filter (flow_report_of t) (fst (pc_flush probeID now p)) = [WriteEvent e] \<and>
        oe_Bytes e = of_nat (sum_list (map length (same_flow t qs))) \<and> oe_Packets e = of_nat (length (same_flow t qs))"
      unfolding events only by (simp add: flow_report_def)
  qed
qed

text \<open>The DNS parser.\<close>

lemma pc_name_loop_labels:
  assumes "dns_labels_ok ls" "q = pre @ concat (map dns_label ls) @ 0 # rest"
  shows "pc_name_loop q (length pre) parts = Some (length pre + length (concat (map dns_label ls)), parts @ ls)"
  using assms
proof (induction ls arbitrary: pre parts)
  case Nil
  then show ?case by (subst pc_name_loop.simps) (simp add: rd_def)
next
  case (Cons l ls)
  have l: "length l \<le> 63" "l \<noteq> []" "dns_labels_ok ls" using Cons.prems(1) by (auto simp: dns_labels_ok_def)
  have q: "q = (pre @ dns_label l) @ concat (map dns_label ls) @ 0 # rest" using Cons.prems(2) by simp
  have b: "q ! length pre = of_nat (length l)" "unat (of_nat (length l) :: byte) = length l"
    using l(1) Cons.prems(2) by (simp_all add: dns_label_def nth_append unat_of_nat_less)
  have "(of_nat (length l) :: byte) AND 0xC0 \<noteq> 0xC0" using pointer_large [of "of_nat (length l)"] b(2) l(1) by auto
  moreover have "take (length l) (drop (length pre + 1) q) = bytes_of l" using Cons.prems(2) by (simp add: dns_label_def)
  ultimately have "pc_name_loop q (length pre) parts = pc_name_loop q (length pre + 1 + length l) (parts @ [l])"
    using l b Cons.prems(2) by (subst pc_name_loop.simps) (simp add: Let_def rd_def slice_def dns_label_def)
  then show ?case using Cons.IH [OF l(3) q, of "parts @ [l]"] by (simp add: dns_label_def)
qed

lemma pc_parseDNS_query:
  assumes "q = dns_query ident flags qd an labels qtype (u16_bytes 1 @ rest)" "dns_labels_ok labels" "qd \<noteq> 0"
  shows "pc_parseDNS q s d = Some (Some \<lparr>pd_SrcIP = s, pd_DstIP = d, pd_QueryName = join ''.'' labels,
    pd_QueryType = ''TYPE'' @ show_nat (256 * (unat qtype mod 256))\<rparr>)"
proof -
  define k where "k = 12 + length (concat (map dns_label labels))"
  note parts = dns_query_parts [OF assms(1)]
  have len: "length q = k + 5 + length rest" using parts(1) by (simp add: k_def)
  have "pc_name_loop q 12 [] = Some (k, labels)"
    using pc_name_loop_labels [OF assms(2) parts(5), of "[]"] by (simp add: k_def)
  moreover have "BigEndian_Uint16 q 4 6 = Some qd" using dns_query_fields [OF assms(1)] by simp
  moreover have "BigEndian_Uint16 q (k + 2) (length q) = Some (be16 (ucast qtype) 0)"
  proof -
    have "q ! (k + 2) = ucast qtype" using parts(4) by (simp add: k_def add.commute)
    moreover have "q ! (k + 3) = 0"
      using assms(1) by (simp add: dns_query_def k_def u16_bytes_def nth_append)
    ultimately show ?thesis using len by (simp add: BigEndian_defined numeral_3_eq_3)
  qed
  moreover have "unat (be16 (ucast qtype) 0) = 256 * (unat qtype mod 256)"
  proof -
    have "unat (qtype mod 256 * 256) = (unat qtype mod 256) * 256 mod 65536" by (simp add: unat_word_ariths(2) unat_mod)
    also have "\<dots> = 256 * (unat qtype mod 256)" by (simp add: mod_less)
    finally show ?thesis by (simp add: be16_def unsigned_push_bit_eq unsigned_ucast_eq take_bit_eq_mod push_bit_eq_mult)
  qed
  moreover have "pc_queryType w = ''TYPE'' @ show_nat (256 * n)" if "unat w = 256 * n" for w n
  proof -
    have "256 * n \<noteq> 1" "256 * n \<noteq> 28" "256 * n \<noteq> 5" "256 * n \<noteq> 15" "256 * n \<noteq> 16" "256 * n \<noteq> 2" by presburger+
    then have "w \<noteq> 1" "w \<noteq> 28" "w \<noteq> 5" "w \<noteq> 15" "w \<noteq> 16" "w \<noteq> 2" using that by auto
    then show ?thesis by (simp add: pc_queryType_def show_word_def that)
  qed
  ultimately show ?thesis
    using assms(3) len dns_query_fields(5) [OF assms(1)] by (simp add: pc_parseDNS_def)
qed

text \<open>Packets in the format of the network.\<close>

lemma ipv4_packet_parts:
  assumes "wf_ipv4 h opts" "q = ipv4_hdr h opts @ tr"
  shows "4 * unat (q ! 0 AND 0x0F) = 4 * v4_ihl h" "take 4 (drop 12 q) = addr4_bytes (v4_src h)"
    "take 4 (drop 16 q) = addr4_bytes (v4_dst h)" "q ! 9 = v4_proto h" "drop (4 * v4_ihl h) q = tr"
    "length q = 4 * v4_ihl h + length tr" "20 \<le> length q"
proof -
  have len: "length (ipv4_hdr h opts) = 4 * v4_ihl h" "20 \<le> 4 * v4_ihl h"
    using length_ipv4_hdr [OF assms(1)] assms(1) by (simp_all add: wf_ipv4_def)
  then show "drop (4 * v4_ihl h) q = tr" "length q = 4 * v4_ihl h + length tr" "20 \<le> length q" by (simp_all add: assms(2))
  obtain s0 s1 s2 s3 d0 d1 d2 d3 where a: "v4_src h = (s0, s1, s2, s3)" "v4_dst h = (d0, d1, d2, d3)"
    by (cases "v4_src h", cases "v4_dst h")
  show "take 4 (drop 12 q) = addr4_bytes (v4_src h)" "take 4 (drop 16 q) = addr4_bytes (v4_dst h)" "q ! 9 = v4_proto h"
    by (simp_all add: assms(2) ipv4_hdr_def u16_bytes_def a)
  show "4 * unat (q ! 0 AND 0x0F) = 4 * v4_ihl h"
    using assms(1) by (simp add: assms(2) ipv4_hdr_def wf_ipv4_def ihl_nibble)
qed

lemma udp_info_packet:
  assumes "drop ihl q = udp_hdr sp dp ul ck @ data" "length q = ihl + 8 + length data"
  shows "udp_info q ihl = Some (sp, dp)" "drop (ihl + 8) q = data"
proof -
  have at: "q ! (ihl + i) = (udp_hdr sp dp ul ck @ data) ! i" for i
    using assms(2) by (simp flip: assms(1))
  have "q ! ihl = ucast (drop_bit 8 sp)" "q ! (ihl + 1) = ucast sp" "q ! (ihl + 2) = ucast (drop_bit 8 dp)" "q ! (ihl + 3) = ucast dp"
    using at [of 0] at [of 1] at [of 2] at [of 3] by (simp_all add: udp_hdr_def u16_bytes_def)
  then show "udp_info q ihl = Some (sp, dp)"
    using assms(2) unfolding udp_info_eq by (simp add: endian_simps)
  have "drop (ihl + 8) q = drop 8 (drop ihl q)" by (simp add: add.commute)
  then show "drop (ihl + 8) q = data" by (simp add: assms(1))
qed

section \<open>Properties\<close>

text \<open>
  C5: The accounts of the protocol collector.  Whatever frames arrive, the collector does not
  panic, and the next flush reports every flow (addresses, ports, protocol) of which at least one packet was
  seen with exactly one event, whose bytes and packets are the sum of the lengths and the number of its
  packets modulo \<open>2^64\<close>; of a flow without a packet it reports nothing.
\<close>

theorem protocol_flows_accounted:
  assumes "case_keeps_runes uc" "t = (src, sp, dst, dp, pr)" "length src = 4" "length dst = 4" "mine = packets_of t fs"
  shows "\<exists>p. captureLoop uc fs NewProtocolCollector = Some p \<and>
    (mine = [] \<longrightarrow> filter (flow_report_of t) (fst (pc_flush probeID now p)) = []) \<and>
    (mine \<noteq> [] \<longrightarrow> (\<exists>e. filter (flow_report_of t) (fst (pc_flush probeID now p)) = [WriteEvent e] \<and>
      oe_Bytes e = of_nat (sum_list (map length mine)) \<and> oe_Packets e = of_nat (length mine)))"
proof -
  have "flows_inv [] (pc_flows NewProtocolCollector)" by (simp add: flows_inv_def NewProtocolCollector_def)
  from captureLoop_flows [OF assms(1) this, of fs] obtain p where
    p: "captureLoop uc fs NewProtocolCollector = Some p" "flows_inv (List.map_filter frame_packet fs) (pc_flows p)" by auto
  have "mine = same_flow t (List.map_filter frame_packet fs)" by (simp add: assms(5) packets_of_def same_flow_def)
  with p(1) flush_flow_events [OF p(2) assms(2-4), of probeID now] show ?thesis by simp
qed

text \<open>Two segments of one connection, and a frame that is not IPv4.\<close>

theorem protocol_flows_accounted_witness:
  "\<exists>p e. captureLoop id [eth_frame (replicate 12 1) None ETH_P_IP (ipv4_hdr ex_ipv4 [1, 1, 1, 1] @ tcp_hdr ex_tcp),
       replicate 60 0, eth_frame (replicate 12 1) None ETH_P_IP (ipv4_hdr ex_ipv4 [1, 1, 1, 1] @ tcp_hdr ex_tcp)]
       NewProtocolCollector = Some p \<and>
     filter (flow_report_of ([10, 0, 0, 1], 40000, [93, 184, 216, 34], 80, ''TCP'')) (fst (pc_flush ''p'' 5 p)) = [WriteEvent e] \<and>
     oe_Bytes e = 88 \<and> oe_Packets e = 2"
proof -
  let ?q = "ipv4_hdr ex_ipv4 [1, 1, 1, 1] @ tcp_hdr ex_tcp"
  let ?f = "eth_frame (replicate 12 1) None ETH_P_IP ?q"
  let ?t = "([10, 0, 0, 1], 40000, [93, 184, 216, 34], 80, ''TCP'')"
  have "frame_packet ?f = Some ?q" "frame_packet (replicate 60 0) = None"
    by (simp_all add: frame_packet_def eth_frame_def u16_bytes_def nth_append)
  moreover have q: "packet_tuple ?q = Some ?t" "length (ipv4_hdr ex_ipv4 [1, 1, 1, 1]) = 24" by code_simp+
  ultimately have "packets_of ?t [?f, replicate 60 0, ?f] = [?q, ?q]"
    by (simp add: packets_of_def map_filter_simps)
  moreover have "case_keeps_runes id" by (auto simp: case_keeps_runes_def dest: prefix_length_le)
  ultimately show ?thesis
    using protocol_flows_accounted [of id ?t "[10, 0, 0, 1]" 40000 "[93, 184, 216, 34]" 80 "''TCP''" "[?q, ?q]" "[?f, replicate 60 0, ?f]" "''p''" 5]
    by (auto simp: q(2))
qed

text \<open>
  DNS queries: of a query in a UDP datagram from or to port 53 the collector reports the name and
  the addresses, but as type \<open>TYPE\<close> and 256 times the low byte of the query type: it does not skip the
  root label before it reads the type, so an A query is reported as \<open>TYPE256\<close> and no query is ever
  reported with its mnemonic.
\<close>

theorem protocol_dns_type_misread:
  assumes "length macs = 12" "wf_ipv4 h opts" "v4_proto h = 17" "sp = 53 \<or> dp = 53"
    and "v4_src h \<noteq> (127, 0, 0, 1)" "v4_dst h \<noteq> (127, 0, 0, 1)"
    and "q = dns_query ident flags qd an labels qtype (u16_bytes 1 @ rest)" "dns_labels_ok labels" "qd \<noteq> 0"
    and "f = eth_frame macs None ETH_P_IP (ipv4_hdr h opts @ udp_hdr sp dp ul ck @ q)"
  shows "\<exists>p e. captureLoop uc [f] NewProtocolCollector = Some p \<and> WriteEvent e \<in> set (fst (pc_flush probeID now p)) \<and>
    oe_EventType e = ''dns'' \<and> oe_SrcIP e = addr4_text (v4_src h) \<and> oe_DstIP e = addr4_text (v4_dst h) \<and>
    oe_Details e = join ''.'' labels \<and> oe_Tags e = ''TYPE'' @ show_nat (256 * (unat qtype mod 256))"
proof -
  define pkt where "pkt = ipv4_hdr h opts @ udp_hdr sp dp ul ck @ q"
  note parts = ipv4_packet_parts [OF assms(2) pkt_def]
  have frame: "frame_packet f = Some pkt"
    using assms(1) by (simp add: frame_packet_def assms(10) eth_frame_def u16_bytes_def nth_append pkt_def)
  have udp: "udp_info pkt (4 * v4_ihl h) = Some (sp, dp)" "drop (4 * v4_ihl h + 8) pkt = q" "4 * v4_ihl h + 8 < length pkt"
    using udp_info_packet [OF parts(5)] parts(6) assms(7) by (simp_all add: dns_query_def)
  have tx: "ip_text (addr4_bytes a) = addr4_text a" for a by (cases a) (simp add: ip_text_def)
  have lo: "addr4_bytes a = [127, 0, 0, 1] \<longleftrightarrow> a = (127, 0, 0, 1)" for a by (cases a) simp
  obtain dr where dr: "dr = \<lparr>pd_SrcIP = addr4_text (v4_src h), pd_DstIP = addr4_text (v4_dst h), pd_QueryName = join ''.'' labels,
      pd_QueryType = ''TYPE'' @ show_nat (256 * (unat qtype mod 256))\<rparr>" by blast
  have "transport uc pkt (4 * v4_ihl h) (pkt ! 9) (addr4_text (v4_src h)) (addr4_text (v4_dst h)) NewProtocolCollector =
      Some (''UDP'', sp, dp, 0, note_dns (Some dr) NewProtocolCollector)"
    using assms(3,4) udp parts(4) by (simp add: transport_def pc_parseDNS_query [OF assms(7-9)] dr)
  then obtain F where "processIPv4 uc pkt NewProtocolCollector = Some ((note_dns (Some dr) NewProtocolCollector)\<lparr>pc_flows := F\<rparr>)"
    using assms(5,6) parts(6,7) by (simp add: processIPv4_transport [OF parts(1-3)] tx lo)
  then have "captureLoop uc [f] NewProtocolCollector = Some ((note_dns (Some dr) NewProtocolCollector)\<lparr>pc_flows := F\<rparr>)"
    using frame by (auto simp: capture_def frame_packet_def rd_def split: if_split_asm)
  then show ?thesis
    by (intro exI [of _ "(note_dns (Some dr) NewProtocolCollector)\<lparr>pc_flows := F\<rparr>"] exI [of _ "dns_report probeID now dr"])
      (simp add: pc_flush_def note_dns_def keep_recent_def NewProtocolCollector_def dns_report_def dr)
qed

theorem protocol_dns_type_misread_witness:
  "\<exists>p e. captureLoop id [eth_frame (replicate 12 1) None ETH_P_IP (ipv4_hdr (ex_ipv4\<lparr>v4_ihl := 5, v4_proto := 17\<rparr>) [] @
       udp_hdr 40000 53 0 0 @ dns_query 7 0x0100 1 0 [''www'', ''org''] 1 (u16_bytes 1 @ []))] NewProtocolCollector = Some p \<and>
     WriteEvent e \<in> set (fst (pc_flush ''p'' 5 p)) \<and> oe_Details e = ''www.org'' \<and> oe_Tags e = ''TYPE256''"
proof -
  let ?h = "ex_ipv4\<lparr>v4_ihl := 5, v4_proto := 17\<rparr>"
  have wf: "wf_ipv4 ?h []" by (simp add: wf_ipv4_def ex_ipv4_def)
  have "v4_proto ?h = 17" "v4_src ?h \<noteq> (127, 0, 0, 1)" "v4_dst ?h \<noteq> (127, 0, 0, 1)" by (simp_all add: ex_ipv4_def)
  moreover have "dns_labels_ok [''www'', ''org'']" by (simp add: dns_labels_ok_def)
  moreover have "''TYPE'' @ show_nat (256 * (unat (1 :: u16) mod 256)) = ''TYPE256''" "join ''.'' [''www'', ''org''] = ''www.org''" by code_simp+
  ultimately show ?thesis
    using protocol_dns_type_misread [OF _ wf, of "replicate 12 1" 40000 53 _ 7 "0x0100" 1 0 "[''www'', ''org'']" 1 "[]" _ 0 0 id "''p''" 5,
        OF _ _ _ _ _ refl _ _ refl]
    by fastforce
qed

end
