(* ===== verification/Go_Manager.thy ===== *)
theory Go_Manager
  imports Go_Lib
begin

text \<open>
  The life cycle of the collectors of the Go probe, \<open>src/internal/collector/manager.go\<close>: which
  collectors a configuration gives on a kernel, and starting, stopping, unloading and reloading them.

  Of a collector the model has its kind, whether it is marked as running, whether its stop channel is
  closed, and the contexts under which it has started the loop that reports its figures (the
  protocol, scheduler, memory, block and host metrics collectors have such a loop, which ends when
  the stop channel is closed or its context cancelled).  Whether \<open>Init\<close> and \<open>Start\<close> of a collector return an
  error is given by arguments.  A panic is reported beside the state in which it leaves the manager, since
  some callers recover from it.  The goroutines that read the buffers of the BPF programs are not modelled here.
\<close>

section \<open>Collectors\<close>

datatype kind =
  Network | Performance | Security | Syscall | Protocol | HTTPTrace | DNSTrace | DBTrace | SchedTrace
| MemTrace | BlockTrace | SecurityTrace | HostMetrics

fun Name :: "kind \<Rightarrow> string" where
  "Name Network = ''network''"
| "Name Performance = ''performance''"
| "Name Security = ''security''"
| "Name Syscall = ''syscall''"
| "Name Protocol = ''protocol''"
| "Name HTTPTrace = ''http_trace''"
| "Name DNSTrace = ''dns_trace''"
| "Name DBTrace = ''db_trace''"
| "Name SchedTrace = ''sched_trace''"
| "Name MemTrace = ''mem_trace''"
| "Name BlockTrace = ''block_trace''"
| "Name SecurityTrace = ''security_trace''"
| "Name HostMetrics = ''host_metrics''"

definition has_loop :: "kind \<Rightarrow> bool" where
  "has_loop k \<longleftrightarrow> k \<in> {Protocol, SchedTrace, MemTrace, BlockTrace, HostMetrics}"

record coll =
  co_kind :: kind
  co_running :: bool
  co_stopped :: bool
  co_loops :: "nat list"

definition new_collector :: "kind \<Rightarrow> coll" where
  "new_collector k = \<lparr>co_kind = k, co_running = False, co_stopped = False, co_loops = []\<rparr>"

text \<open>\<open>Start\<close> marks the collector as running before anything can fail.\<close>

definition co_Start :: "(kind \<Rightarrow> bool) \<Rightarrow> nat \<Rightarrow> coll \<Rightarrow> bool \<times> coll" where
  "co_Start start_ok ctx c =
     (start_ok (co_kind c),
      c\<lparr>co_running := True,
        co_loops := (if start_ok (co_kind c) \<and> has_loop (co_kind c) then ctx # co_loops c else co_loops c)\<rparr>)"

text \<open>\<open>Stop\<close> closes the stop channel, which panics when it is closed; only the host metrics collector looks first.\<close>

definition co_Stop :: "coll \<Rightarrow> coll ub" where
  "co_Stop c =
     (if co_stopped c then (if co_kind c = HostMetrics then Some (c\<lparr>co_running := False\<rparr>) else None)
      else Some (c\<lparr>co_stopped := True, co_running := False\<rparr>))"

section \<open>The manager\<close>

record CollectorConfig =
  cc_NetworkFlow :: bool
  cc_ProcessExec :: bool
  cc_FileOpen :: bool
  cc_TCPCConnect :: bool
  cc_Syscall :: bool
  cc_HTTPTrace :: bool
  cc_DNSTrace :: bool
  cc_DBTrace :: bool
  cc_SchedTrace :: bool
  cc_MemTrace :: bool
  cc_BlockTrace :: bool
  cc_SecurityTrace :: bool
  cc_HostMetrics :: bool

definition DefaultConfig :: CollectorConfig where
  "DefaultConfig = \<lparr>cc_NetworkFlow = True, cc_ProcessExec = True, cc_FileOpen = True, cc_TCPCConnect = True, cc_Syscall = True,
     cc_HTTPTrace = False, cc_DNSTrace = False, cc_DBTrace = False, cc_SchedTrace = False, cc_MemTrace = False,
     cc_BlockTrace = False, cc_SecurityTrace = False, cc_HostMetrics = True\<rparr>"

text \<open>The capabilities of the kernel that the manager looks at.\<close>

record Capabilities =
  cap_Kprobe :: bool
  cap_Tracepoint :: bool
  cap_XDP :: bool
  cap_TC :: bool

record manager =
  m_config :: CollectorConfig
  m_collectors :: "coll list"
  m_cancelled :: "nat list"

definition NewManager :: "CollectorConfig \<Rightarrow> manager" where
  "NewManager cfg = \<lparr>m_config = cfg, m_collectors = [], m_cancelled = []\<rparr>"

definition opt_kind :: "bool \<Rightarrow> kind \<Rightarrow> kind list" where
  "opt_kind b k = (if b then [k] else [])"

definition init_kinds :: "CollectorConfig \<Rightarrow> Capabilities \<Rightarrow> kind list" where
  "init_kinds cfg cap =
     opt_kind (cc_NetworkFlow cfg \<and> (cap_TC cap \<or> cap_XDP cap)) Network @
     opt_kind (cc_ProcessExec cfg \<and> (cap_Kprobe cap \<or> cap_Tracepoint cap)) Performance @
     opt_kind (cc_TCPCConnect cfg \<and> cap_Kprobe cap) Security @
     opt_kind (cc_Syscall cfg \<and> cap_Tracepoint cap) Syscall @
     [Protocol] @
     opt_kind (cc_HTTPTrace cfg \<and> cap_Kprobe cap) HTTPTrace @
     opt_kind (cc_DNSTrace cfg \<and> cap_Kprobe cap) DNSTrace @
     opt_kind (cc_DBTrace cfg \<and> cap_Kprobe cap) DBTrace @
     opt_kind (cc_SchedTrace cfg \<and> cap_Tracepoint cap) SchedTrace @
     opt_kind (cc_MemTrace cfg \<and> cap_Kprobe cap) MemTrace @
     opt_kind (cc_BlockTrace cfg \<and> cap_Tracepoint cap) BlockTrace @
     opt_kind (cc_SecurityTrace cfg \<and> cap_Kprobe cap) SecurityTrace @
     opt_kind (cc_HostMetrics cfg) HostMetrics"

definition mgr_Init :: "Capabilities \<Rightarrow> manager \<Rightarrow> manager" where
  "mgr_Init cap m = m\<lparr>m_collectors := m_collectors m @ map new_collector (init_kinds (m_config m) cap)\<rparr>"

definition mgr_Start :: "(kind \<Rightarrow> bool) \<Rightarrow> nat \<Rightarrow> manager \<Rightarrow> manager" where
  "mgr_Start start_ok ctx m = m\<lparr>m_collectors := map (\<lambda>c. snd (co_Start start_ok ctx c)) (m_collectors m)\<rparr>"

text \<open>The first component says whether a collector has panicked; those behind it are not stopped then.\<close>

fun stop_all :: "coll list \<Rightarrow> bool \<times> coll list" where
  "stop_all [] = (False, [])"
| "stop_all (c # cs) =
     (case co_Stop c of
        None \<Rightarrow> (True, c # cs)
      | Some c' \<Rightarrow> let (panic, cs') = stop_all cs in (panic, c' # cs'))"

definition mgr_Stop :: "manager \<Rightarrow> bool \<times> manager" where
  "mgr_Stop m = (let (panic, cs) = stop_all (m_collectors m) in (panic, m\<lparr>m_collectors := cs\<rparr>))"

definition cancel_ctx :: "nat \<Rightarrow> manager \<Rightarrow> manager" where
  "cancel_ctx ctx m = m\<lparr>m_cancelled := ctx # m_cancelled m\<rparr>"

text \<open>The position of the first collector with a name.\<close>

fun find_collector :: "string \<Rightarrow> coll list \<Rightarrow> nat option" where
  "find_collector name [] = None"
| "find_collector name (c # cs) = (if Name (co_kind c) = name then Some 0 else map_option Suc (find_collector name cs))"

datatype mgr_result = Ok | NotFound | CreateFailed | InitFailed | StartFailed | Panicked

definition Unload :: "string \<Rightarrow> manager \<Rightarrow> mgr_result \<times> manager" where
  "Unload name m =
     (case find_collector name (m_collectors m) of
        None \<Rightarrow> (NotFound, m)
      | Some i \<Rightarrow>
          (case co_Stop (m_collectors m ! i) of
             None \<Rightarrow> (Panicked, m)
           | Some c \<Rightarrow> (Ok, m\<lparr>m_collectors := take i (m_collectors m) @ drop (Suc i) (m_collectors m)\<rparr>)))"

definition createCollector :: "string \<Rightarrow> Capabilities \<Rightarrow> kind option" where
  "createCollector name cap =
     (if name = ''network_flow'' then (if cap_TC cap \<or> cap_XDP cap then Some Network else None)
      else if name = ''process_exec'' then (if cap_Kprobe cap \<or> cap_Tracepoint cap then Some Performance else None)
      else if name = ''tcp_connect'' then (if cap_Kprobe cap then Some Security else None)
      else if name = ''syscall'' then (if cap_Tracepoint cap then Some Syscall else None)
      else if name = ''protocol'' then Some Protocol
      else if name = ''http_trace'' then (if cap_Kprobe cap then Some HTTPTrace else None)
      else if name = ''dns_trace'' then (if cap_Kprobe cap then Some DNSTrace else None)
      else if name = ''db_trace'' then (if cap_Kprobe cap then Some DBTrace else None)
      else if name = ''sched_trace'' then (if cap_Tracepoint cap then Some SchedTrace else None)
      else if name = ''mem_trace'' then (if cap_Kprobe cap then Some MemTrace else None)
      else if name = ''block_trace'' then (if cap_Tracepoint cap then Some BlockTrace else None)
      else if name = ''security_trace'' then (if cap_Kprobe cap then Some SecurityTrace else None)
      else if name = ''host_metrics'' then Some HostMetrics
      else None)"

text \<open>The context of the new collector is cancelled when \<open>Reload\<close> returns.\<close>

definition Reload :: "(kind \<Rightarrow> bool) \<Rightarrow> (kind \<Rightarrow> bool) \<Rightarrow> nat \<Rightarrow> string \<Rightarrow> Capabilities \<Rightarrow> manager \<Rightarrow> mgr_result \<times> manager" where
  "Reload init_ok start_ok ctx name cap m =
     (case find_collector name (m_collectors m) of
        None \<Rightarrow> (NotFound, m)
      | Some i \<Rightarrow>
          (case createCollector name cap of
             None \<Rightarrow> (CreateFailed, m)
           | Some k \<Rightarrow>
               if \<not> init_ok k then (InitFailed, m)
               else
                 (case co_Start start_ok ctx (new_collector k) of (started, c) \<Rightarrow>
                    if \<not> started then (StartFailed, cancel_ctx ctx m)
                    else (case co_Stop (m_collectors m ! i) of
                        None \<Rightarrow> (Panicked, cancel_ctx ctx m)
                      | Some old \<Rightarrow> (Ok, cancel_ctx ctx (m\<lparr>m_collectors := (m_collectors m)[i := c]\<rparr>))))))"

definition CollectorNames :: "manager \<Rightarrow> string list" where
  "CollectorNames m = map (\<lambda>c. Name (co_kind c)) (m_collectors m)"

section \<open>Reference\<close>

text \<open>The loop that reports the figures of a collector runs while its context is live and the stop channel open.\<close>

definition loop_alive :: "manager \<Rightarrow> coll \<Rightarrow> bool" where
  "loop_alive m c \<longleftrightarrow> \<not> co_stopped c \<and> (\<exists>ctx \<in> set (co_loops c). ctx \<notin> set (m_cancelled m))"

text \<open>Commands to a manager: the start and the stop of all collectors, and the end of a context.\<close>

datatype mgr_cmd = Op_Start "kind \<Rightarrow> bool" nat | Op_Stop | Op_Cancel nat

fun mgr_op :: "mgr_cmd \<Rightarrow> manager \<Rightarrow> manager" where
  "mgr_op (Op_Start start_ok ctx) m = mgr_Start start_ok ctx m"
| "mgr_op Op_Stop m = snd (mgr_Stop m)"
| "mgr_op (Op_Cancel ctx) m = cancel_ctx ctx m"

definition cap_of :: "kind \<Rightarrow> Capabilities \<Rightarrow> bool" where
  "cap_of k cap = (case k of
     Network \<Rightarrow> cap_TC cap \<or> cap_XDP cap
   | Performance \<Rightarrow> cap_Kprobe cap \<or> cap_Tracepoint cap
   | Protocol \<Rightarrow> True
   | HostMetrics \<Rightarrow> True
   | Syscall \<Rightarrow> cap_Tracepoint cap
   | SchedTrace \<Rightarrow> cap_Tracepoint cap
   | BlockTrace \<Rightarrow> cap_Tracepoint cap
   | _ \<Rightarrow> cap_Kprobe cap)"

section \<open>Lemmas\<close>

lemma Name_inject: "Name k = Name k' \<longleftrightarrow> k = k'"
  by (cases k; cases k'; simp)

lemma opt_kind_set:
  "distinct (opt_kind b k)" "k \<noteq> k' \<Longrightarrow> set (opt_kind b k) \<inter> set (opt_kind b' k') = {}" "k \<noteq> k' \<Longrightarrow> k' \<notin> set (opt_kind b k)"
  by (auto simp: opt_kind_def)

lemma init_kinds_distinct: "distinct (init_kinds cfg cap)"
  unfolding init_kinds_def by (simp add: Int_Un_distrib opt_kind_set)

lemma init_distinct: "distinct (map co_kind (m_collectors (mgr_Init cap (NewManager cfg))))"
  using init_kinds_distinct by (simp add: mgr_Init_def NewManager_def new_collector_def comp_def)

lemma createCollector_name:
  "createCollector (Name k) cap = (if k \<in> {Network, Performance, Security} \<or> \<not> cap_of k cap then None else Some k)"
  by (cases k) (simp_all add: createCollector_def cap_of_def)

text \<open>Stopping.\<close>

lemma stop_all_fresh:
  "\<forall>c \<in> set cs. \<not> co_stopped c \<Longrightarrow> stop_all cs = (False, map (\<lambda>c. c\<lparr>co_stopped := True, co_running := False\<rparr>) cs)"
  by (induction cs) (simp_all add: co_Stop_def)

lemma stop_all_stopped:
  assumes "\<forall>c \<in> set cs. co_stopped c"
  shows "list_all co_stopped (snd (stop_all cs)) \<and> map co_kind (snd (stop_all cs)) = map co_kind cs \<and>
    (fst (stop_all cs) \<longleftrightarrow> (\<exists>c \<in> set cs. co_kind c \<noteq> HostMetrics))"
  using assms
proof (induction cs)
  case (Cons c cs)
  then show ?case by (cases "stop_all cs") (auto simp: co_Stop_def list_all_iff)
qed simp

lemma op_keeps_stopped:
  assumes "list_all co_stopped (m_collectors m)"
  shows "list_all co_stopped (m_collectors (mgr_op a m)) \<and> map co_kind (m_collectors (mgr_op a m)) = map co_kind (m_collectors m)"
proof (cases a)
  case Op_Stop
  then show ?thesis
    using stop_all_stopped [of "m_collectors m"] assms by (cases "stop_all (m_collectors m)") (simp add: mgr_Stop_def list_all_iff)
qed (use assms in \<open>auto simp: mgr_Start_def co_Start_def cancel_ctx_def list_all_iff\<close>)

lemma ops_keep_stopped:
  "list_all co_stopped (m_collectors m) \<Longrightarrow>
   list_all co_stopped (m_collectors (fold mgr_op ops m)) \<and> map co_kind (m_collectors (fold mgr_op ops m)) = map co_kind (m_collectors m)"
proof (induction ops arbitrary: m)
  case (Cons a ops)
  then show ?case using op_keeps_stopped [OF Cons.prems, of a] by simp
qed simp

lemma starts_keep_fresh:
  "\<forall>c \<in> set (m_collectors m). \<not> co_stopped c \<Longrightarrow> \<forall>c \<in> set (m_collectors (mgr_Start ok ctx m)). \<not> co_stopped c"
  by (simp add: mgr_Start_def co_Start_def)

section \<open>Properties\<close>

text \<open>
  C37: Stopping is final.  The manager that a configuration gives can be started and stopped once.  After
  that, whatever is started and cancelled, no reporting loop of any collector runs any more, and every
  further stop panics (the host metrics collector alone would survive it): a probe that was told to stop
  or to restart reports no flows and no metrics, and panics on the signal that ends it.
\<close>

theorem manager_stop_is_final:
  assumes "m0 = mgr_Init cap (NewManager cfg)" "mgr_Stop (mgr_Start start_ok ctx m0) = (panic, m1)" "m2 = fold mgr_op ops m1"
  shows "\<not> panic \<and> (\<forall>c \<in> set (m_collectors m2). \<not> loop_alive m2 c) \<and> fst (mgr_Stop m2)"
proof -
  have "\<forall>c \<in> set (m_collectors (mgr_Start start_ok ctx m0)). \<not> co_stopped c"
    by (rule starts_keep_fresh) (auto simp: assms(1) mgr_Init_def NewManager_def new_collector_def)
  from stop_all_fresh [OF this] assms(2) have panic: "\<not> panic" and stopped: "list_all co_stopped (m_collectors m1)"
    and kinds: "map co_kind (m_collectors m1) = map co_kind (m_collectors m0)"
    by (auto simp: mgr_Stop_def list_all_iff mgr_Start_def co_Start_def)
  have "map co_kind (m_collectors m0) = init_kinds cfg cap"
    by (simp add: assms(1) mgr_Init_def NewManager_def new_collector_def comp_def)
  then have "Protocol \<in> set (map co_kind (m_collectors m2))"
    using ops_keep_stopped [OF stopped, of ops] kinds by (simp add: assms(3) init_kinds_def)
  then obtain c where c: "Protocol = co_kind c" "c \<in> set (m_collectors m2)" unfolding set_map by (rule imageE)
  then have "\<exists>c \<in> set (m_collectors m2). co_kind c \<noteq> HostMetrics" by (intro bexI [of _ c]) (simp_all flip: c(1))
  moreover have "list_all co_stopped (m_collectors m2)" using ops_keep_stopped [OF stopped, of ops] by (simp add: assms(3))
  ultimately show ?thesis
    using panic stop_all_stopped [of "m_collectors m2"] by (auto simp: mgr_Stop_def loop_alive_def list_all_iff case_prod_beta)
qed

theorem manager_stop_is_final_witness:
  "fst (mgr_Stop (fold mgr_op [Op_Start (\<lambda>_. True) 1]
     (snd (mgr_Stop (mgr_Start (\<lambda>_. True) 0
        (mgr_Init \<lparr>cap_Kprobe = True, cap_Tracepoint = True, cap_XDP = False, cap_TC = True\<rparr> (NewManager DefaultConfig)))))))"
proof -
  let ?m0 = "mgr_Init \<lparr>cap_Kprobe = True, cap_Tracepoint = True, cap_XDP = False, cap_TC = True\<rparr> (NewManager DefaultConfig)"
  obtain panic m1 where m1: "mgr_Stop (mgr_Start (\<lambda>_. True) 0 ?m0) = (panic, m1)" by (cases "mgr_Stop (mgr_Start (\<lambda>_. True) 0 ?m0)")
  from manager_stop_is_final [OF refl this refl, of "[Op_Start (\<lambda>_. True) 1]"] show ?thesis by (simp only: m1 snd_conv)
qed

text \<open>
  Reloading.  On a manager whose collectors have different kinds, as after \<open>Init\<close>, \<open>Reload\<close> of a
  collector that is not stopped fails for the network, performance and security collectors, which go by
  other names when they are created, and for kinds that the kernel does not support.  Otherwise, if the new
  collector can be initialised and started, it takes the place of the old one and all others stay; but its
  reporting loop, if it is of a kind that has one, has ended: its context ends with the call.
\<close>

theorem manager_reload:
  assumes "distinct (map co_kind (m_collectors m))" "i < length (m_collectors m)" "k = co_kind (m_collectors m ! i)"
    and "\<not> co_stopped (m_collectors m ! i)" "Reload (\<lambda>_. True) (\<lambda>_. True) ctx (Name k) cap m = (res, m')"
  shows "(k \<in> {Network, Performance, Security} \<or> \<not> cap_of k cap \<longrightarrow> res = CreateFailed \<and> m' = m) \<and>
    (k \<notin> {Network, Performance, Security} \<and> cap_of k cap \<longrightarrow>
       res = Ok \<and> length (m_collectors m') = length (m_collectors m) \<and>
       (\<forall>j < length (m_collectors m). j \<noteq> i \<longrightarrow> m_collectors m' ! j = m_collectors m ! j) \<and>
       co_kind (m_collectors m' ! i) = k \<and> co_running (m_collectors m' ! i) \<and> \<not> loop_alive m' (m_collectors m' ! i))"
proof -
  have find: "find_collector (Name (co_kind (cs ! i))) cs = Some i" if "distinct (map co_kind cs)" "i < length cs" for cs i
    using that
  proof (induction cs arbitrary: i)
    case (Cons c cs)
    then show ?case by (cases i) (auto simp: Name_inject dest: nth_mem)
  qed simp
  have f: "find_collector (Name k) (m_collectors m) = Some i" using find [OF assms(1,2)] by (simp add: assms(3))
  show ?thesis
  proof (cases "k \<in> {Network, Performance, Security} \<or> \<not> cap_of k cap")
    case True
    then have "createCollector (Name k) cap = None" by (simp only: createCollector_name if_True)
    then have "res = CreateFailed \<and> m' = m" using assms(5) by (simp add: Reload_def f)
    with True show ?thesis by blast
  next
    case False
    then have create: "createCollector (Name k) cap = Some k" by (simp only: createCollector_name if_False)
    obtain c where c: "c = snd (co_Start (\<lambda>_. True) ctx (new_collector k))" by blast
    have "res = Ok \<and> m' = cancel_ctx ctx (m\<lparr>m_collectors := (m_collectors m)[i := c]\<rparr>)"
      using assms(4,5) by (simp add: Reload_def f create co_Start_def co_Stop_def c)
    moreover have "co_kind c = k" "co_running c" "set (co_loops c) \<subseteq> {ctx}" by (simp_all add: c co_Start_def new_collector_def)
    ultimately show ?thesis using False assms(2) by (auto simp: cancel_ctx_def loop_alive_def)
  qed
qed

text \<open>The manager of the default configuration on a kernel without tracing.\<close>

theorem manager_reload_witness:
  "\<exists>m'. Reload (\<lambda>_. True) (\<lambda>_. True) 1 ''protocol'' \<lparr>cap_Kprobe = False, cap_Tracepoint = False, cap_XDP = False, cap_TC = False\<rparr>
       (mgr_Init \<lparr>cap_Kprobe = False, cap_Tracepoint = False, cap_XDP = False, cap_TC = False\<rparr> (NewManager DefaultConfig)) = (Ok, m') \<and>
     \<not> loop_alive m' (m_collectors m' ! 0)"
proof -
  let ?cap = "\<lparr>cap_Kprobe = False, cap_Tracepoint = False, cap_XDP = False, cap_TC = False\<rparr>"
  let ?m = "mgr_Init ?cap (NewManager DefaultConfig)"
  obtain res m' where r: "Reload (\<lambda>_. True) (\<lambda>_. True) 1 (Name Protocol) ?cap ?m = (res, m')"
    by (cases "Reload (\<lambda>_. True) (\<lambda>_. True) 1 (Name Protocol) ?cap ?m")
  have "m_collectors ?m = [new_collector Protocol, new_collector HostMetrics]"
    by (simp add: mgr_Init_def NewManager_def DefaultConfig_def init_kinds_def opt_kind_def)
  then have "res = Ok \<and> \<not> loop_alive m' (m_collectors m' ! 0)"
    using manager_reload [OF init_distinct _ _ _ r, of 0] by (simp add: new_collector_def cap_of_def)
  with r show ?thesis by simp
qed

end
