(* ===== verification/Spec2Isabelle.thy ===== *)
theory Spec2Isabelle
  imports Packet_Parser Flow_Tracker Anomaly Serializer Tcp_Client Proc_Net Host_Metrics Runtime_Config
    Payload_Parsers Bpf_Loader Connect_Tracer Bpf_Tracers Probe_Main Delivery
    Go_Dns Go_Collectors Go_Edge Go_Perf Go_Protocol Go_Manager
begin

text \<open>
  This library models the STB eBPF probe: the C program under \<open>src/src\<close> and \<open>src/include\<close>, the BPF
  programs under \<open>src/bpf\<close>, and of the Go probe the parts of \<open>src/internal\<close> and \<open>src/pkg\<close> between the BPF
  programs and the requests to its server.

  \<^bold>\<open>The program.\<close>  \<open>main.c\<close> loads its configuration, creates a flow tracker, a TCP client and an
  anomaly detector, and tries to attach a BPF socket filter to a packet socket.  Each iteration of
  its loop drains the packet socket (parse the frame, enrich a flow event with DNS or HTTP details,
  update the tracker, check for retransmissions and anomalies), polls \<open>/proc/net\<close>, collects host
  metrics every 30 seconds, and serialises the pending events into one JSON array that the TCP client
  posts to a relay server.  The BPF programs run in the kernel and report events of their own.  The Go
  probe starts a collector for each of them: a collector decodes the samples of its program and passes
  events to the client of an edge server, which samples, batches and posts them.

  \<^bold>\<open>Theories, in the order of the calls.\<close>

  \<^item> \<open>Stb_Prelude\<close>: C integers as words, undefined behaviour as \<open>None\<close> (type \<open>'a ub\<close>), NULL pointers
    as \<open>None\<close> (type \<open>'a ptr\<close>), character arrays of exact length with \<open>strncpy\<close> and \<open>snprintf\<close>,
    decimal and hexadecimal output, checked reads.  \<open>Stb_Common\<close>: \<open>include/common.h\<close>.
  \<^item> \<open>Table_Interfaces\<close>: the contracts of the tables as locales (\<open>slot_table\<close>, \<open>append_table\<close>,
    \<open>event_queue\<close>, \<open>step_system\<close>, \<open>request_matcher\<close>), interpreted by tracker, detector, client,
    connect tracer, edge client and DNS matcher.
  \<^item> \<open>Packet_Parser\<close>: \<open>packet_parser.c\<close>; \<open>Payload_Parsers\<close>: the DNS, HTTP and TCP-header parsers of
    \<open>main.c\<close>.  Wire formats are defined independently, and the parsers are shown total and inverse
    to them.
  \<^item> \<open>Flow_Tracker\<close>: \<open>flow_tracker.c\<close> with its table and event buffer; refinement to a finite map of
    flows, conservation of traffic, order of events, clean-up, and the sequence checks.
  \<^item> \<open>Anomaly\<close>: \<open>anomaly.c\<close>; refinement to a specification of the verdicts.
  \<^item> \<open>Serializer\<close>: \<open>serializer.c\<close>; what is written, and when the buffer overflows.
  \<^item> \<open>Sys_Calls\<close>, \<open>Tcp_Client\<close>: \<open>tcp_client.c\<close> over a record of system calls; an account of
    every open descriptor under any sequence of calls, delivery, backoff and giving up.
  \<^item> \<open>C_Text\<close>: \<open>fgets\<close>, \<open>sscanf\<close>, \<open>atoi\<close>, \<open>strchr\<close>, \<open>strcasestr\<close> on file contents.  \<open>Proc_Net\<close>,
    \<open>Host_Metrics\<close>, \<open>Runtime_Config\<close>: the three modules that use them.
  \<^item> \<open>Bpf_Loader\<close>: \<open>bpf_loader.c\<close>: ELF reader, set-up, perf rings, clean-up.
  \<^item> \<open>Bpf_Kernel\<close>: byte order, event record, kernel helpers and the hash map of start times with its
    locale \<open>start_map\<close>.  \<open>Connect_Tracer\<close>: \<open>stb_connect.bpf.c\<close>.  \<open>Bpf_Tracers\<close>: the other programs.
  \<^item> \<open>Probe_Main\<close>: the stages of \<open>main\<close>, its start and its end, composed as in \<open>main.c\<close>.
  \<^item> \<open>Delivery\<close>: the composition of the components over one iteration, from the frames on the packet
    socket to the request on the wire.
  \<^item> \<open>Go_Lib\<close>: slices, panics (\<open>None\<close>), strings and byte order of Go.  \<open>Go_Dns\<close>: \<open>pkg/protocol/dns.go\<close>, its
    parsers against RFC 1035 and the C parser, and its matcher.
  \<^item> \<open>Go_Collectors\<close>: the layouts of the samples and the handlers of the collectors under
    \<open>internal/collector\<close>, related to what the BPF programs of \<open>Bpf_Tracers\<close> meant.  \<open>Go_Perf\<close>: \<open>pkg/perf\<close>
    with its collectors.  \<open>Go_Protocol\<close>: \<open>protocol.go\<close>.  \<open>Go_Manager\<close>: \<open>manager.go\<close>.
  \<^item> \<open>Go_Edge\<close>: \<open>internal/output/edge.go\<close>, in sequence and as interleavings of goroutines.

  \<^bold>\<open>What the properties show.\<close>  Safety: no frame or payload makes a parser read outside its buffer,
  and the packet stage of the main loop never leaves defined behaviour.  Invariants: every sequence of
  calls keeps the tables of tracker, detector and connect tracer consistent, and a run of \<open>main\<close>
  leaks no descriptor.  Composition: the IP frames of an iteration reach the relay as one request with
  one event per frame; a frame that the classifier in the kernel sees is reported by the Go collector; and
  what the edge client accepts is confirmed once, or still there, or cut off at a stated bound.
  Function: round trips with the wire formats, refinement of the tables, latencies, counters,
  configuration and metrics.  Several properties state where the code departs from its intent:
  \<open>/proc/net\<close> rows are all rejected, the CPU figure is computed from shifted columns, a client that
  has given up never sends again, a second connect can lose the socket of the first, the two DNS parsers
  name most query types differently, the Go collectors of raw payloads read at a wrong offset, that of memory
  reports nothing and that of block requests only those of no sectors, and a stopped collector manager cannot be started again.  Other
  theorems do the same for smaller matters: a steady flow is reported as a spike, slots are reused with
  old counters, and the serialiser can write one byte past its buffer.

  \<^bold>\<open>Modelling choices.\<close>  The target is ARMv7, little-endian, with 32-bit \<open>int\<close>, \<open>long\<close> and \<open>size_t\<close>
  in user space.  Unsigned types are words of their width; a C \<open>int\<close> is an \<open>int\<close> or \<open>nat\<close> whose
  overflow is \<open>None\<close>.  Percentages are exact rationals in place of \<open>double\<close>.  The clock, the system
  calls, memory allocation, the file system, the environment and the helpers of the kernel are
  arguments; what a property needs of them is a named hypothesis (\<open>sys_fds\<close>, \<open>bpf_fds\<close>,
  \<open>sys_stream\<close>, \<open>sys_progress\<close>, \<open>peer_open\<close>, \<open>case_keeps_runes\<close>) that holds for a concrete system in its witness.

  \<^bold>\<open>Fuel and loops.\<close>  Disconnect, reconnect, send and flush of the client call each other; their fuel
  bounds the depth of that recursion and the rounds of the send loop.  \<open>reconnect_returns\<close> shows that
  two units suffice for a reconnect, \<open>tcp_client_send_delivers\<close> how many a send of a given length
  needs.  The perf ring loop may run for ever and is a partial function; every other loop is a
  total function.  The main loop is a function of the list of its iterations.

  \<^bold>\<open>Not modelled.\<close>  Log output (except the statistics line), signal delivery other than its effect on
  \<open>g_stop\<close>, and \<open>free\<close> in the two functions \<open>flow_tracker_destroy\<close> and \<open>anomaly_detector_destroy\<close>
  that do nothing else.  The headers
  \<open>bpf_helper_defs.h\<close>, \<open>bpf_helpers.h\<close>, \<open>bpf_tracing.h\<close> and \<open>bpf_core_read.h\<close> are copies of libbpf and
  only declare helpers and macros; the helpers are parameters here.  \<open>network_flow.bpf.c.bak\<close> is not
  built.  Of the Go sources, the programs under \<open>cmd\<close>, the API server, the database output and the access to
  Docker, Kubernetes and the kernel are wiring around third-party libraries; loading the BPF programs and reading
  their buffers is done by the eBPF library, and samples are arguments here.  The parsers \<open>http.go\<close> and
  \<open>db.go\<close> of \<open>pkg/protocol\<close>, a package that no program imports, are left out.  Floating-point numbers of Go are
  reals or rationals.  The local arrays into which the payload parsers copy names, paths and header values are
  lists of the copied characters, so the safety of these parsers is about what they read.  The packet socket is
  the list of the frames that \<open>recvfrom\<close> returns before it returns no more.  The limit on flows is a natural
  number, sending an event from the connect tracer never fails, and the files that \<open>fopen\<close> opens and \<open>fclose\<close> closes within one
  function are not among the descriptors.
\<close>

end
